(* ===== verification/Rekall_Prelude.thy ===== *)
theory Rekall_Prelude
  imports Main "HOL-Library.Word" "HOL-Library.Stream"
begin

section \<open>Prelude: results, transactions, machine integers\<close>

text \<open>
  What every other theory of the development builds on.

  \<^item> \<open>message\<close> and \<open>rekall_error\<close> are the error vocabulary of
    \<^verbatim>\<open>rekall-kernel/src/error.rs\<close>. A message is kept as the refusal it words and the values
    it interpolates; the English wording itself is not modelled.
  \<^item> \<open>('s, 'a) tx\<close> is code that runs inside one database transaction: it reads and
    writes the state \<open>'s\<close> and either fails with an error or answers a value and the new
    state. \<open>tx_bind\<close> is Rust's \<^verbatim>\<open>?\<close> followed by the rest of the function.
  \<^item> \<open>preserves\<close> and \<open>ensures\<close> are the two judgements the components are
    verified with, together with the rules that follow the structure of the code
    (collections \<open>preserves_intro\<close>, \<open>wp_simps\<close>, \<open>tx_simps\<close>).
  \<^item> \<open>as_i32\<close> and \<open>as_usize\<close> are Rust's \<^verbatim>\<open>as\<close> casts.
\<close>

named_theorems tx_simps "how the transaction combinators run"
named_theorems wp_simps "weakest preconditions of the transaction combinators"
named_theorems run_defs "definitions of the model, to run it on concrete input"
named_theorems preserves_intro "structural rules of the invariant judgement"

subsection \<open>Identifiers, moments, text\<close>

text \<open>
  An id is a random UUID and a moment is a whole number of microseconds
  (\<^verbatim>\<open>rekall-kernel/src/id.rs\<close>, \<^verbatim>\<open>instant.rs\<close>). A text is a Rust \<^verbatim>\<open>str\<close>: the list
  of its Unicode scalar values.
\<close>

type_synonym id = nat
type_synonym instant = int
type_synonym uchar = nat
type_synonym str = "uchar list"

text \<open>An ASCII literal of the source as a text.\<close>

definition lit :: "string \<Rightarrow> str" where
  "lit s = map of_char s"

lemma lit_Nil [simp]: "lit [] = []"
  by (simp add: lit_def)

lemma lit_Cons [simp]: "lit (c # s) = of_char c # lit s"
  by (simp add: lit_def)

subsection \<open>Errors\<close>

datatype message = Msg string "str list"

datatype rekall_error =
    NotFound message
  | Conflict message
  | IllegalArgument message
  | UnknownAnchor message
  | AmbiguousAnchor message "str list"
  | Integrity message
  | Internal message

type_synonym 'a result = "rekall_error + 'a"

definition is_illegal_argument :: "rekall_error \<Rightarrow> bool" where
  "is_illegal_argument e = (case e of IllegalArgument _ \<Rightarrow> True | _ \<Rightarrow> False)"

definition error_message :: "rekall_error \<Rightarrow> message" where
  "error_message e = (case e of
       NotFound m \<Rightarrow> m | Conflict m \<Rightarrow> m | IllegalArgument m \<Rightarrow> m | UnknownAnchor m \<Rightarrow> m
     | Integrity m \<Rightarrow> m | Internal m \<Rightarrow> m | AmbiguousAnchor m _ \<Rightarrow> m)"

text \<open>A rule that either holds or refuses: \<^verbatim>\<open>Result<()>\<close>.\<close>

definition refuse_if :: "bool \<Rightarrow> rekall_error \<Rightarrow> unit result" where
  "refuse_if b e = (if b then Inl e else Inr ())"

lemma refuse_if_Inr [simp]: "refuse_if b e = Inr u \<longleftrightarrow> \<not> b"
  by (simp add: refuse_if_def)

lemma refuse_if_Inl [simp]: "refuse_if b e = Inl e' \<longleftrightarrow> b \<and> e' = e"
  by (auto simp: refuse_if_def)

text \<open>Chaining plain results, outside a transaction.\<close>

definition res_bind :: "'a result \<Rightarrow> ('a \<Rightarrow> 'b result) \<Rightarrow> 'b result" where
  "res_bind r f = (case r of Inl e \<Rightarrow> Inl e | Inr x \<Rightarrow> f x)"

lemma res_bind_simps [simp]: "res_bind (Inl e) f = Inl e" "res_bind (Inr x) f = f x"
  by (simp_all add: res_bind_def)

lemma res_bind_Inr: "res_bind r f = Inr y \<longleftrightarrow> (\<exists>x. r = Inr x \<and> f x = Inr y)"
  by (cases r) auto

text \<open>A loop that checks one element after another and stops at the first refusal.\<close>

primrec res_each :: "('a \<Rightarrow> unit result) \<Rightarrow> 'a list \<Rightarrow> unit result" where
  "res_each f [] = Inr ()"
| "res_each f (x # xs) = res_bind (f x) (\<lambda>_. res_each f xs)"

lemma res_each_Inr: "res_each f xs = Inr u \<longleftrightarrow> (\<forall>x \<in> set xs. f x = Inr ())"
  by (induction xs) (auto simp: res_bind_Inr)

subsection \<open>Code inside a transaction\<close>

type_synonym ('s, 'a) tx = "'s \<Rightarrow> rekall_error + ('a \<times> 's)"

definition tx_ok :: "'a \<Rightarrow> ('s, 'a) tx" where
  "tx_ok x = (\<lambda>s. Inr (x, s))"

definition tx_fail :: "rekall_error \<Rightarrow> ('s, 'a) tx" where
  "tx_fail e = (\<lambda>s. Inl e)"

definition tx_bind :: "('s, 'a) tx \<Rightarrow> ('a \<Rightarrow> ('s, 'b) tx) \<Rightarrow> ('s, 'b) tx" where
  "tx_bind m f = (\<lambda>s. case m s of Inl e \<Rightarrow> Inl e | Inr (x, s') \<Rightarrow> f x s')"

text \<open>A plain result inside a transaction, a read, and a write.\<close>

definition tx_lift :: "'a result \<Rightarrow> ('s, 'a) tx" where
  "tx_lift r = (\<lambda>s. case r of Inl e \<Rightarrow> Inl e | Inr x \<Rightarrow> Inr (x, s))"

definition tx_gets :: "('s \<Rightarrow> 'a) \<Rightarrow> ('s, 'a) tx" where
  "tx_gets f = (\<lambda>s. Inr (f s, s))"

definition tx_modify :: "('s \<Rightarrow> 's) \<Rightarrow> ('s, unit) tx" where
  "tx_modify f = (\<lambda>s. Inr ((), f s))"

text \<open>\<^verbatim>\<open>for x in xs { \<dots>? }\<close>, and the same loop collecting what each round answers.\<close>

primrec tx_each :: "('a \<Rightarrow> ('s, unit) tx) \<Rightarrow> 'a list \<Rightarrow> ('s, unit) tx" where
  "tx_each f [] = tx_ok ()"
| "tx_each f (x # xs) = tx_bind (f x) (\<lambda>_. tx_each f xs)"

primrec tx_map :: "('a \<Rightarrow> ('s, 'b) tx) \<Rightarrow> 'a list \<Rightarrow> ('s, 'b list) tx" where
  "tx_map f [] = tx_ok []"
| "tx_map f (x # xs) = tx_bind (f x) (\<lambda>y. tx_bind (tx_map f xs) (\<lambda>ys. tx_ok (y # ys)))"

lemma tx_run [tx_simps]:
  "tx_ok x s = Inr (x, s)"
  "tx_fail e s = Inl e"
  "tx_gets f s = Inr (f s, s)"
  "tx_modify g s = Inr ((), g s)"
  "tx_lift (Inr x) s = Inr (x, s)"
  "tx_lift (Inl e) s = Inl e"
  by (simp_all add: tx_ok_def tx_fail_def tx_gets_def tx_modify_def tx_lift_def)

lemma tx_bind_run [tx_simps]:
  "tx_bind m f s = (case m s of Inl e \<Rightarrow> Inl e | Inr (x, s') \<Rightarrow> f x s')"
  by (simp add: tx_bind_def)

lemma tx_ok_Inr [simp]: "tx_ok x s = Inr (y, s') \<longleftrightarrow> y = x \<and> s' = s"
  by (auto simp: tx_simps)

lemma tx_fail_Inr [simp]: "tx_fail e s \<noteq> Inr r"
  by (simp add: tx_simps)

lemma tx_gets_Inr [simp]: "tx_gets f s = Inr (y, s') \<longleftrightarrow> y = f s \<and> s' = s"
  by (auto simp: tx_simps)

lemma tx_modify_Inr [simp]: "tx_modify f s = Inr (y, s') \<longleftrightarrow> s' = f s"
  by (auto simp: tx_simps)

lemma tx_lift_Inr [simp]: "tx_lift r s = Inr (y, s') \<longleftrightarrow> r = Inr y \<and> s' = s"
  by (cases r) (auto simp: tx_simps)

lemma tx_bind_Inr:
  "tx_bind m f s = Inr (y, t) \<longleftrightarrow> (\<exists>x s'. m s = Inr (x, s') \<and> f x s' = Inr (y, t))"
  by (auto simp: tx_bind_def split: sum.splits)

lemma tx_bind_InrE:
  assumes "tx_bind m f s = Inr (y, t)"
  obtains x s' where "m s = Inr (x, s')" and "f x s' = Inr (y, t)"
  using assms by (auto simp: tx_bind_Inr)

subsection \<open>Invariants of transaction code\<close>

text \<open>
  \<open>ensures Q m\<close>: whenever \<open>m\<close> succeeds, its start, answer and end satisfy \<open>Q\<close>.
  \<open>preserves I m\<close>: a success from a state with \<open>I\<close> ends in one. A failure needs
  nothing, because the transaction is rolled back (\<open>in_write\<close> of the store).
\<close>

definition ensures :: "('s \<Rightarrow> 'a \<Rightarrow> 's \<Rightarrow> bool) \<Rightarrow> ('s, 'a) tx \<Rightarrow> bool" where
  "ensures Q m \<longleftrightarrow> (\<forall>s x t. m s = Inr (x, t) \<longrightarrow> Q s x t)"

definition preserves :: "('s \<Rightarrow> bool) \<Rightarrow> ('s, 'a) tx \<Rightarrow> bool" where
  "preserves I m \<longleftrightarrow> (\<forall>s x t. m s = Inr (x, t) \<longrightarrow> I s \<longrightarrow> I t)"

lemma ensuresI: "(\<And>s x t. m s = Inr (x, t) \<Longrightarrow> Q s x t) \<Longrightarrow> ensures Q m"
  by (simp add: ensures_def)

lemma ensuresD: "ensures Q m \<Longrightarrow> m s = Inr (x, t) \<Longrightarrow> Q s x t"
  by (simp add: ensures_def)

lemma preservesI: "(\<And>s x t. m s = Inr (x, t) \<Longrightarrow> I s \<Longrightarrow> I t) \<Longrightarrow> preserves I m"
  by (simp add: preserves_def)

lemma preservesD: "preserves I m \<Longrightarrow> m s = Inr (x, t) \<Longrightarrow> I s \<Longrightarrow> I t"
  by (simp add: preserves_def)

lemma preserves_tx_ok [preserves_intro]: "preserves I (tx_ok x)"
  by (rule preservesI) simp

lemma preserves_tx_fail [preserves_intro]: "preserves I (tx_fail e)"
  by (rule preservesI) simp

lemma preserves_tx_gets [preserves_intro]: "preserves I (tx_gets f)"
  by (rule preservesI) simp

lemma preserves_tx_lift [preserves_intro]: "preserves I (tx_lift r)"
  by (rule preservesI) simp

lemma preserves_tx_bind [preserves_intro]:
  "preserves I m \<Longrightarrow> (\<And>x. preserves I (f x)) \<Longrightarrow> preserves I (tx_bind m f)"
  by (rule preservesI) (auto simp: tx_bind_Inr dest: preservesD)

lemma preserves_if [preserves_intro]:
  "(b \<Longrightarrow> preserves I m) \<Longrightarrow> (\<not> b \<Longrightarrow> preserves I m') \<Longrightarrow> preserves I (if b then m else m')"
  by simp

lemma preserves_case_option [preserves_intro]:
  "preserves I m \<Longrightarrow> (\<And>x. y = Some x \<Longrightarrow> preserves I (f x)) \<Longrightarrow>
     preserves I (case y of None \<Rightarrow> m | Some x \<Rightarrow> f x)"
  by (simp split: option.split)

lemma preserves_case_prod [preserves_intro]:
  "(\<And>a b. y = (a, b) \<Longrightarrow> preserves I (f a b)) \<Longrightarrow> preserves I (case y of (a, b) \<Rightarrow> f a b)"
  by (simp split: prod.split)

lemma preserves_tx_each [preserves_intro]:
  "(\<And>x. x \<in> set xs \<Longrightarrow> preserves I (f x)) \<Longrightarrow> preserves I (tx_each f xs)"
  by (induction xs) (auto intro!: preserves_tx_ok preserves_tx_bind)

lemma preserves_tx_map [preserves_intro]:
  "(\<And>x. x \<in> set xs \<Longrightarrow> preserves I (f x)) \<Longrightarrow> preserves I (tx_map f xs)"
  by (induction xs) (auto intro!: preserves_tx_ok preserves_tx_bind)

lemma preserves_conj:
  "preserves I m \<Longrightarrow> preserves J m \<Longrightarrow> preserves (\<lambda>s. I s \<and> J s) m"
  by (auto simp: preserves_def)

subsection \<open>Weakest preconditions\<close>

text \<open>
  \<open>wp m Q s\<close>: if \<open>m\<close> succeeds from \<open>s\<close>, its answer and end state satisfy \<open>Q\<close>. Where an
  invariant depends on the rows a routine has read, the components are verified by computing
  \<open>wp\<close> along the code (collection \<open>wp_simps\<close>) and closing each write with a rule.
\<close>

definition wp :: "('s, 'a) tx \<Rightarrow> ('a \<Rightarrow> 's \<Rightarrow> bool) \<Rightarrow> 's \<Rightarrow> bool" where
  "wp m Q s \<longleftrightarrow> (\<forall>x t. m s = Inr (x, t) \<longrightarrow> Q x t)"

lemma wpI: "(\<And>x t. m s = Inr (x, t) \<Longrightarrow> Q x t) \<Longrightarrow> wp m Q s"
  by (simp add: wp_def)

lemma wpD: "wp m Q s \<Longrightarrow> m s = Inr (x, t) \<Longrightarrow> Q x t"
  by (simp add: wp_def)

lemma wp_mono: "wp m Q s \<Longrightarrow> (\<And>x t. Q x t \<Longrightarrow> R x t) \<Longrightarrow> wp m R s"
  by (simp add: wp_def)

lemma preserves_wp: "preserves I m \<longleftrightarrow> (\<forall>s. I s \<longrightarrow> wp m (\<lambda>_. I) s)"
  by (auto simp: preserves_def wp_def)

lemma preserves_wpI: "(\<And>s. I s \<Longrightarrow> wp m (\<lambda>_. I) s) \<Longrightarrow> preserves I m"
  by (simp add: preserves_wp)

lemma wp_simps_base [wp_simps]:
  "wp (tx_ok x) Q s = Q x s"
  "wp (tx_fail e) Q s"
  "wp (tx_gets f) Q s = Q (f s) s"
  "wp (tx_lift r) Q s = (\<forall>x. r = Inr x \<longrightarrow> Q x s)"
  "wp (tx_modify g) R s = R () (g s)"
  by (auto simp: wp_def)

lemma wp_tx_ok: "wp (tx_ok x) Q = Q x"
  by (rule ext) (simp add: wp_def)

lemma wp_bind [wp_simps]: "wp (tx_bind m f) Q s = wp m (\<lambda>x. wp (f x) Q) s"
  by (auto simp: wp_def tx_bind_Inr)

lemma wp_if [wp_simps]: "wp (if b then m else m') Q s = (if b then wp m Q s else wp m' Q s)"
  by simp

lemma wp_case_option [wp_simps]:
  "wp (case y of None \<Rightarrow> m | Some x \<Rightarrow> f x) Q s = (case y of None \<Rightarrow> wp m Q s | Some x \<Rightarrow> wp (f x) Q s)"
  by (simp split: option.split)

lemma wp_let [wp_simps]: "wp (let x = e in f x) Q s = (let x = e in wp (f x) Q s)"
  by simp

text \<open>Sequencing with the intermediate assertion \<open>R\<close> given.\<close>

lemma wp_seq: "wp m R s \<Longrightarrow> (\<And>x t. R x t \<Longrightarrow> wp (f x) Q t) \<Longrightarrow> wp (tx_bind m f) Q s"
  by (auto simp: wp_bind intro: wp_mono)

lemma wp_preserves: "preserves I m \<Longrightarrow> I s \<Longrightarrow> wp m (\<lambda>_. I) s"
  by (simp add: preserves_wp)

text \<open>A loop: what holds of the rows still to come and of the state, before every round.\<close>

lemma wp_tx_each:
  assumes "J xs s"
    and "\<And>x xs s. J (x # xs) s \<Longrightarrow> wp (f x) (\<lambda>_. J xs) s"
    and "\<And>s. J [] s \<Longrightarrow> Q () s"
  shows "wp (tx_each f xs) Q s"
  using assms(1)
proof (induction xs arbitrary: s)
  case Nil
  then show ?case by (simp add: wp_simps assms(3))
next
  case (Cons x xs)
  have "wp (f x) (\<lambda>_. J xs) s" by (rule assms(2) [OF Cons.prems])
  then show ?case using Cons.IH by (auto simp: wp_simps intro: wp_mono)
qed

subsection \<open>Lists\<close>

lemma map_filter_append: "List.map_filter f (xs @ ys) = List.map_filter f xs @ List.map_filter f ys"
  by (simp add: List.map_filter_def)

lemma map_filter_cong: "(\<And>x. x \<in> set xs \<Longrightarrow> f x = g x) \<Longrightarrow> List.map_filter f xs = List.map_filter g xs"
  by (induction xs) (auto simp: List.map_filter_simps split: option.split)

lemma filter_not_dropped:
  assumes "distinct (map f xs)"
  shows "filter (\<lambda>x. f x \<notin> f ` set (drop n xs)) xs = take n xs"
proof -
  have "distinct (map f (take n xs @ drop n xs))" using assms by simp
  then have "filter (\<lambda>x. f x \<notin> f ` set (drop n xs)) (take n xs) = take n xs"
    "filter (\<lambda>x. f x \<notin> f ` set (drop n xs)) (drop n xs) = []"
    unfolding map_append distinct_append by (auto simp: filter_id_conv filter_empty_conv)
  then have "filter (\<lambda>x. f x \<notin> f ` set (drop n xs)) (take n xs @ drop n xs) = take n xs" by (simp only: filter_append) simp
  then show ?thesis by (simp only: append_take_drop_id)
qed

subsection \<open>Machine integers\<close>

text \<open>\<^verbatim>\<open>x as i32\<close> keeps the low 32 bits; \<^verbatim>\<open>x as usize\<close> of an \<^verbatim>\<open>i32\<close> extends the sign to 64.\<close>

definition as_i32 :: "int \<Rightarrow> int" where
  "as_i32 n = sint (word_of_int n :: 32 word)"

definition as_usize :: "int \<Rightarrow> nat" where
  "as_usize n = unat (word_of_int n :: 64 word)"

lemma as_i32_id: "- (2 ^ 31) \<le> n \<Longrightarrow> n < 2 ^ 31 \<Longrightarrow> as_i32 n = n"
  by (simp add: as_i32_def sint_sbintrunc' signed_take_bit_int_eq_self)

lemma as_i32_range: "- (2 ^ 31) \<le> as_i32 n" "as_i32 n < 2 ^ 31"
proof -
  have "sint (word_of_int n :: 32 word) = signed_take_bit 31 n"
    by (simp add: sint_sbintrunc')
  then show "- (2 ^ 31) \<le> as_i32 n" "as_i32 n < 2 ^ 31"
    using signed_take_bit_int_greater_eq_minus_exp [of 31 n] signed_take_bit_int_less_exp [of 31 n]
    by (simp_all add: as_i32_def)
qed

lemma as_usize_id: "0 \<le> n \<Longrightarrow> n < 2 ^ 64 \<Longrightarrow> as_usize n = nat n"
  by (simp add: as_usize_def unat_eq_nat_uint take_bit_int_eq_self uint_word_of_int)

text \<open>The definitions above, for running the model on concrete input.\<close>

lemmas prelude_run [run_defs] = lit_def refuse_if_def tx_run tx_bind_run as_i32_def as_usize_def
  is_illegal_argument_def error_message_def Let_def

end
