(* ===== verification/Jstr.thy ===== *)
theory Jstr
  imports Rekall_Prelude "HOL-Library.Sublist"
begin

section \<open>The text rules of the kernel\<close>

text \<open>
  \<^verbatim>\<open>rekall-kernel/src/jstr.rs\<close> and \<^verbatim>\<open>rekall-core/src/text_rule.rs\<close>: lengths and
  indices in UTF-16 code units over a text of Unicode scalar values, whitespace, line
  splitting, and comparison without case.

  The source works on byte offsets that always sit on character boundaries; the model uses the
  number of characters before that boundary. The Unicode tables of the standard library
  are the parameter \<open>unicode_case\<close>; \<open>ascii_case\<close> is its restriction to ASCII.
\<close>

subsection \<open>Whitespace\<close>

definition is_whitespace :: "uchar \<Rightarrow> bool" where
  "is_whitespace c =
     (if c \<in> {9, 10, 11, 12, 13} \<or> (28 \<le> c \<and> c \<le> 31) then True
      else if c \<in> {0xA0, 0x2007, 0x202F} then False
      else if c \<in> {32, 0x1680, 0x205F, 0x3000} \<or> (0x2000 \<le> c \<and> c \<le> 0x2006)
              \<or> (0x2008 \<le> c \<and> c \<le> 0x200A) then True
      else c \<in> {0x2028, 0x2029})"

definition trim_end_matches :: "(uchar \<Rightarrow> bool) \<Rightarrow> str \<Rightarrow> str" where
  "trim_end_matches p t = rev (dropWhile p (rev t))"

definition trim_matches :: "(uchar \<Rightarrow> bool) \<Rightarrow> str \<Rightarrow> str" where
  "trim_matches p t = trim_end_matches p (dropWhile p t)"

definition strip :: "str \<Rightarrow> str" where
  "strip t = trim_matches is_whitespace t"

definition strip_trailing :: "str \<Rightarrow> str" where
  "strip_trailing t = trim_end_matches is_whitespace t"

definition strip_leading :: "str \<Rightarrow> str" where
  "strip_leading t = dropWhile is_whitespace t"

definition is_blank :: "str \<Rightarrow> bool" where
  "is_blank t = list_all is_whitespace t"

definition is_null_or_blank :: "str option \<Rightarrow> bool" where
  "is_null_or_blank t = (case t of None \<Rightarrow> True | Some x \<Rightarrow> is_blank x)"

definition jtrim :: "str \<Rightarrow> str" where
  "jtrim t = trim_matches (\<lambda>c. c \<le> 32) t"

subsection \<open>Lengths and indices in UTF-16 code units\<close>

definition len_utf16 :: "uchar \<Rightarrow> nat" where
  "len_utf16 c = (if c < 0x10000 then 1 else 2)"

definition jlen :: "str \<Rightarrow> nat" where
  "jlen t = sum_list (map len_utf16 t)"

fun offset_from :: "nat \<Rightarrow> nat \<Rightarrow> nat \<Rightarrow> str \<Rightarrow> nat" where
  "offset_from units offset index [] = offset"
| "offset_from units offset index (c # cs) =
     (if units + len_utf16 c > index then offset
      else offset_from (units + len_utf16 c) (Suc offset) index cs)"

definition char_offset :: "str \<Rightarrow> nat \<Rightarrow> nat" where
  "char_offset t index = offset_from 0 0 index t"

definition substring :: "str \<Rightarrow> nat \<Rightarrow> nat \<Rightarrow> str" where
  "substring t start stop =
     (let from = char_offset t start; to = max (char_offset t stop) from
      in drop from (take to t))"

definition jprefix :: "str \<Rightarrow> nat \<Rightarrow> str" where
  "jprefix t stop = substring t 0 stop"

definition jsuffix :: "str \<Rightarrow> nat \<Rightarrow> str" where
  "jsuffix t start = drop (char_offset t start) t"

subsection \<open>Searching\<close>

fun find_from :: "str \<Rightarrow> nat \<Rightarrow> str \<Rightarrow> nat option" where
  "find_from needle i [] = (if needle = [] then Some i else None)"
| "find_from needle i (c # cs) =
     (if prefix needle (c # cs) then Some i else find_from needle (Suc i) cs)"

text \<open>\<^verbatim>\<open>str::match_indices\<close>: matches do not overlap; an empty needle matches at every boundary.\<close>

fun match_indices :: "str \<Rightarrow> nat \<Rightarrow> str \<Rightarrow> nat list" where
  "match_indices needle i [] = (if needle = [] then [i] else [])"
| "match_indices needle i (c # cs) =
     (if prefix needle (c # cs)
      then i # (if needle = [] then match_indices needle (Suc i) cs
                else match_indices needle (i + length needle) (drop (length needle - 1) cs))
      else match_indices needle (Suc i) cs)"

definition index_of :: "str \<Rightarrow> str \<Rightarrow> nat option" where
  "index_of t needle = map_option (\<lambda>i. jlen (take i t)) (find_from needle 0 t)"

definition index_of_from :: "str \<Rightarrow> str \<Rightarrow> nat \<Rightarrow> nat option" where
  "index_of_from t needle from =
     (let start = char_offset t from
      in map_option (\<lambda>i. jlen (take (start + i) t)) (find_from needle 0 (drop start t)))"

fun last_match :: "str \<Rightarrow> nat \<Rightarrow> nat option \<Rightarrow> nat list \<Rightarrow> nat option" where
  "last_match t limit best [] = best"
| "last_match t limit best (i # is) =
     (if i > limit then best else last_match t limit (Some (jlen (take i t))) is)"

definition last_index_of_from :: "str \<Rightarrow> str \<Rightarrow> nat \<Rightarrow> nat option" where
  "last_index_of_from t needle from =
     last_match t (char_offset t from) None (match_indices needle 0 t)"

subsection \<open>Runs of whitespace and lines\<close>

definition is_ascii_space :: "uchar \<Rightarrow> bool" where
  "is_ascii_space c = (c \<in> {32, 9, 10, 11, 12, 13})"

fun collapse :: "bool \<Rightarrow> str \<Rightarrow> str" where
  "collapse in_run [] = []"
| "collapse in_run (c # cs) =
     (if is_ascii_space c then (if in_run then collapse True cs else 32 # collapse True cs)
      else c # collapse False cs)"

definition collapse_whitespace :: "str \<Rightarrow> str" where
  "collapse_whitespace t = collapse False t"

text \<open>\<open>acc\<close> is the line being read, reversed: the source keeps its start offset instead.\<close>

fun lines_from :: "str \<Rightarrow> str \<Rightarrow> str list" where
  "lines_from acc [] = (if acc = [] then [] else [rev acc])"
| "lines_from acc (c # cs) =
     (if c = 10 then rev acc # lines_from [] cs
      else if c = 13 then rev acc # (case cs of d # ds \<Rightarrow> if d = 10 then lines_from [] ds
                                                       else lines_from [] cs
                                            | [] \<Rightarrow> lines_from [] cs)
      else lines_from (c # acc) cs)"

definition jlines :: "str \<Rightarrow> str list" where
  "jlines t = lines_from [] t"

definition breaks_line :: "uchar \<Rightarrow> bool" where
  "breaks_line c = (c \<in> {10, 11, 12, 13, 0x85, 0x2028, 0x2029})"

fun split_breaks :: "str \<Rightarrow> str \<Rightarrow> str list" where
  "split_breaks acc [] = [rev acc]"
| "split_breaks acc (c # cs) =
     (if \<not> breaks_line c then split_breaks (c # acc) cs
      else rev acc # (case cs of d # ds \<Rightarrow> if c = 13 \<and> d = 10 then split_breaks [] ds
                                            else split_breaks [] cs
                              | [] \<Rightarrow> split_breaks [] cs))"

text \<open>\<open>drop_trailing\<close> pops empty parts off the end while more than one is left.\<close>

function drop_trailing :: "str list \<Rightarrow> str list" where
  "drop_trailing out =
     (if length out > 1 \<and> last out = [] then drop_trailing (butlast out) else out)"
  by pat_completeness auto
termination
  by (relation "measure length") auto

declare drop_trailing.simps [simp del]

definition split_linebreaks :: "str \<Rightarrow> bool \<Rightarrow> str list" where
  "split_linebreaks t keep_trailing =
     (let out = split_breaks [] t
      in if keep_trailing then out
         else let kept = drop_trailing out
              in if length kept = 1 \<and> hd kept = [] \<and> t \<noteq> [] then [] else kept)"

subsection \<open>Comparison without case\<close>

text \<open>
  \<open>upper_of\<close> and \<open>lower_of\<close> are \<^verbatim>\<open>char::to_uppercase\<close> and \<^verbatim>\<open>char::to_lowercase\<close> (one
  character may map to several); \<open>lowered\<close> is \<^verbatim>\<open>str::to_lowercase\<close>, which is not the
  characterwise map (a final sigma); \<open>decimal_digit\<close> is the class \<^verbatim>\<open>\d\<close> of a regular
  expression, which holds for the digits of every script; \<open>alphanumeric\<close> is
  \<^verbatim>\<open>char::is_alphanumeric\<close>.
\<close>

record unicode_case =
  upper_of :: "uchar \<Rightarrow> str"
  lower_of :: "uchar \<Rightarrow> str"
  lowered :: "str \<Rightarrow> str"
  decimal_digit :: "uchar \<Rightarrow> bool"
  alphanumeric :: "uchar \<Rightarrow> bool"

definition single_upper :: "unicode_case \<Rightarrow> uchar \<Rightarrow> uchar" where
  "single_upper u c = (case upper_of u c of [x] \<Rightarrow> x | _ \<Rightarrow> c)"

definition single_lower :: "unicode_case \<Rightarrow> uchar \<Rightarrow> uchar" where
  "single_lower u c = (case lower_of u c of [x] \<Rightarrow> x | _ \<Rightarrow> c)"

fun equals_ignore_case :: "unicode_case \<Rightarrow> str \<Rightarrow> str \<Rightarrow> bool" where
  "equals_ignore_case u [] [] = True"
| "equals_ignore_case u (x # xs) (y # ys) =
     (if x = y then equals_ignore_case u xs ys
      else let ux = single_upper u x; uy = single_upper u y
           in if ux = uy then equals_ignore_case u xs ys
              else if single_lower u ux = single_lower u uy then equals_ignore_case u xs ys
              else False)"
| "equals_ignore_case u _ _ = False"

datatype ordering = Less | Equal | Greater

definition ord_of :: "'a::linorder \<Rightarrow> 'a \<Rightarrow> ordering" where
  "ord_of x y = (if x < y then Less else if x = y then Equal else Greater)"

fun compare_ignore_case :: "unicode_case \<Rightarrow> str \<Rightarrow> str \<Rightarrow> ordering" where
  "compare_ignore_case u [] [] = Equal"
| "compare_ignore_case u [] (y # ys) = Less"
| "compare_ignore_case u (x # xs) [] = Greater"
| "compare_ignore_case u (x # xs) (y # ys) =
     (if x = y then compare_ignore_case u xs ys
      else let lx = single_lower u (single_upper u x); ly = single_lower u (single_upper u y)
           in if lx \<noteq> ly then ord_of lx ly else compare_ignore_case u xs ys)"

definition jlower :: "unicode_case \<Rightarrow> str \<Rightarrow> str" where
  "jlower u t = lowered u t"

text \<open>The ASCII part of the case tables, for concrete inputs.\<close>

definition ascii_lower :: "uchar \<Rightarrow> uchar" where
  "ascii_lower c = (if 65 \<le> c \<and> c \<le> 90 then c + 32 else c)"

definition ascii_upper :: "uchar \<Rightarrow> uchar" where
  "ascii_upper c = (if 97 \<le> c \<and> c \<le> 122 then c - 32 else c)"

definition ascii_case :: unicode_case where
  "ascii_case = \<lparr>upper_of = (\<lambda>c. [ascii_upper c]), lower_of = (\<lambda>c. [ascii_lower c]),
                 lowered = map ascii_lower, decimal_digit = (\<lambda>c. 48 \<le> c \<and> c \<le> 57),
                 alphanumeric = (\<lambda>c. (48 \<le> c \<and> c \<le> 57) \<or> (65 \<le> c \<and> c \<le> 90) \<or> (97 \<le> c \<and> c \<le> 122))\<rparr>"

text \<open>\<^verbatim>\<open>char::is_whitespace\<close>, which \<^verbatim>\<open>str::trim\<close> uses: wider than the kernel's own rule.\<close>

definition rust_whitespace :: "uchar \<Rightarrow> bool" where
  "rust_whitespace c = ((9 \<le> c \<and> c \<le> 13) \<or> c \<in> {32, 0x85, 0xA0, 0x1680, 0x2028, 0x2029, 0x202F, 0x205F, 0x3000}
     \<or> (0x2000 \<le> c \<and> c \<le> 0x200A))"

definition rust_trim :: "str \<Rightarrow> str" where
  "rust_trim t = trim_matches rust_whitespace t"

text \<open>\<^verbatim>\<open>str::parse\<close> of an all-digit text into an unsigned 64-bit number.\<close>

definition ascii_digit :: "uchar \<Rightarrow> bool" where
  "ascii_digit c = (48 \<le> c \<and> c \<le> 57)"

definition digits_value :: "str \<Rightarrow> nat" where
  "digits_value t = fold (\<lambda>c n. n * 10 + (c - 48)) t 0"

definition parse_u64 :: "str \<Rightarrow> nat option" where
  "parse_u64 t = (if t \<noteq> [] \<and> list_all ascii_digit t \<and> digits_value t < 2 ^ 64
                  then Some (digits_value t) else None)"

subsection \<open>The rule every free text is held to\<close>

definition present :: "str option \<Rightarrow> str option" where
  "present t = (case t of None \<Rightarrow> None | Some x \<Rightarrow> if is_blank x then None else Some (strip x))"

definition within :: "str \<Rightarrow> nat \<Rightarrow> message \<Rightarrow> str result" where
  "within t cap too_long = (if jlen t > cap then Inl (IllegalArgument too_long) else Inr t)"

lemma within_Inr [simp]: "within t cap m = Inr x \<longleftrightarrow> x = t \<and> jlen t \<le> cap"
  by (auto simp: within_def)

subsection \<open>Stripping\<close>

lemma trim_end_matches_Nil: "trim_end_matches p t = [] \<longleftrightarrow> list_all p t"
  by (simp add: trim_end_matches_def dropWhile_eq_Nil_conv list_all_iff)

lemma trim_end_decomp: "\<exists>zs. t = trim_end_matches p t @ zs \<and> list_all p zs"
proof -
  have "t = rev (dropWhile p (rev t)) @ rev (takeWhile p (rev t))"
    by (metis rev_append rev_rev_ident takeWhile_dropWhile_id)
  moreover have "list_all p (rev (takeWhile p (rev t)))"
    by (auto simp: list_all_iff dest: set_takeWhileD)
  ultimately show ?thesis
    unfolding trim_end_matches_def by blast
qed

lemma strip_Nil: "strip t = [] \<longleftrightarrow> is_blank t"
proof -
  have "list_all p (dropWhile p t) \<longleftrightarrow> list_all p t" for p :: "uchar \<Rightarrow> bool"
    by (induction t) auto
  then show ?thesis
    by (simp add: strip_def trim_matches_def trim_end_matches_Nil is_blank_def)
qed

lemma trim_matches_ends:
  assumes "trim_matches p t \<noteq> []"
  shows "\<not> p (hd (trim_matches p t))" "\<not> p (last (trim_matches p t))"
proof -
  let ?d = "dropWhile p t"
  have nz: "dropWhile p (rev ?d) \<noteq> []"
    using assms by (simp add: trim_matches_def trim_end_matches_def)
  then show "\<not> p (last (trim_matches p t))"
    using hd_dropWhile [OF nz] by (simp add: trim_matches_def trim_end_matches_def last_rev)
  have d: "?d \<noteq> []" using nz by force
  obtain zs where "?d = trim_end_matches p ?d @ zs" using trim_end_decomp [of ?d p] by blast
  then have "hd ?d = hd (trim_matches p t)"
    using assms by (metis trim_matches_def hd_append2)
  then show "\<not> p (hd (trim_matches p t))"
    using hd_dropWhile [OF d] by simp
qed

lemma trim_matches_fixpoint:
  assumes "t = [] \<or> (\<not> p (hd t) \<and> \<not> p (last t))"
  shows "trim_matches p t = t"
proof (cases "t = []")
  case True
  then show ?thesis by (simp add: trim_matches_def trim_end_matches_def)
next
  case False
  then have "dropWhile p t = t" "dropWhile p (rev t) = rev t"
    using assms by (auto simp: dropWhile_eq_self_iff hd_rev)
  then show ?thesis by (simp add: trim_matches_def trim_end_matches_def)
qed

lemma strip_idem [simp]: "strip (strip t) = strip t"
  unfolding strip_def using trim_matches_fixpoint trim_matches_ends by metis

lemma present_Some:
  "present t = Some x \<Longrightarrow> x \<noteq> [] \<and> strip x = x \<and> \<not> is_blank x"
  by (auto simp: present_def strip_Nil split: option.splits if_splits)
    (metis strip_Nil strip_idem)

subsection \<open>UTF-16 indices\<close>

lemma len_utf16_pos: "0 < len_utf16 c"
  by (simp add: len_utf16_def)

lemma jlen_simps [simp]: "jlen [] = 0" "jlen (c # t) = len_utf16 c + jlen t"
  "jlen (t @ t') = jlen t + jlen t'"
  by (simp_all add: jlen_def)

lemma offset_from_spec:
  "\<exists>k. offset_from units off index t = off + k \<and> k \<le> length t
       \<and> (units \<le> index \<longrightarrow> units + jlen (take k t) \<le> index)
       \<and> (k < length t \<longrightarrow> units + jlen (take (Suc k) t) > index)"
proof (induction units off index t rule: offset_from.induct)
  case (1 units off index)
  then show ?case by simp
next
  case (2 units off index c cs)
  show ?case
  proof (cases "units + len_utf16 c > index")
    case True
    then show ?thesis by (intro exI [of _ 0]) simp
  next
    case False
    then obtain k where "offset_from (units + len_utf16 c) (Suc off) index cs = Suc off + k"
      "k \<le> length cs" "units + len_utf16 c + jlen (take k cs) \<le> index"
      "k < length cs \<longrightarrow> units + len_utf16 c + jlen (take (Suc k) cs) > index"
      using 2 by auto
    then show ?thesis using False by (intro exI [of _ "Suc k"]) (auto simp: add.assoc)
  qed
qed

lemma char_offset_spec:
  "char_offset t i \<le> length t" "jlen (take (char_offset t i) t) \<le> i"
  "char_offset t i < length t \<Longrightarrow> i < jlen (take (Suc (char_offset t i)) t)"
  using offset_from_spec [of 0 0 i t] by (auto simp: char_offset_def)

lemma char_offset_0 [simp]: "char_offset t 0 = 0"
  by (cases t) (simp_all add: char_offset_def len_utf16_pos)

lemma jprefix_take: "jprefix t n = take (char_offset t n) t"
  by (simp add: jprefix_def substring_def)

lemma jprefix_len: "jlen (jprefix t n) \<le> n"
  by (simp add: jprefix_take char_offset_spec)

lemma jprefix_all: "jlen t \<le> n \<Longrightarrow> jprefix t n = t"
proof -
  assume a: "jlen t \<le> n"
  have "\<not> char_offset t n < length t"
  proof
    assume lt: "char_offset t n < length t"
    have "jlen (take (Suc (char_offset t n)) t) \<le> jlen t"
      by (metis append_take_drop_id jlen_simps(3) le_add1)
    then show False using char_offset_spec(3) [OF lt] a by simp
  qed
  then show ?thesis by (simp add: jprefix_take)
qed

subsection \<open>Case folding as a key\<close>

definition fold_key :: "unicode_case \<Rightarrow> uchar \<Rightarrow> uchar" where
  "fold_key u c = single_lower u (single_upper u c)"

lemma equals_ignore_case_key:
  "equals_ignore_case u a b \<longleftrightarrow> map (fold_key u) a = map (fold_key u) b"
  by (induction u a b rule: equals_ignore_case.induct) (auto simp: fold_key_def Let_def)

lemma equals_ignore_case_refl [simp]: "equals_ignore_case u a a"
  by (simp add: equals_ignore_case_key)

lemma compare_ignore_case_Equal:
  "compare_ignore_case u a b = Equal \<longleftrightarrow> equals_ignore_case u a b"
  by (induction u a b rule: compare_ignore_case.induct)
    (auto simp: Let_def ord_of_def)

text \<open>The definitions above, for running the model on concrete input.\<close>

lemmas jstr_run [run_defs] = is_whitespace_def trim_end_matches_def trim_matches_def strip_def strip_trailing_def
  strip_leading_def is_blank_def is_null_or_blank_def jtrim_def len_utf16_def jlen_def
  char_offset_def substring_def jprefix_def jsuffix_def index_of_def index_of_from_def
  last_index_of_from_def is_ascii_space_def collapse_whitespace_def jlines_def breaks_line_def
  split_linebreaks_def single_upper_def single_lower_def ord_of_def jlower_def ascii_lower_def
  ascii_upper_def ascii_case_def rust_whitespace_def rust_trim_def ascii_digit_def
  digits_value_def parse_u64_def present_def within_def

end
