(* ===== verification/Slug.thy ===== *)
theory Slug
  imports Jstr
begin

section \<open>Labels and row constraints\<close>

text \<open>
  \<^verbatim>\<open>rekall-store/src/slug.rs\<close> (what an anchor or an outcome is normalised to) and
  \<^verbatim>\<open>rekall-store/src/constraints/violations.rs\<close> (the rules a row is checked against
  before it is written). The three regular expressions of \<^verbatim>\<open>Slug::of\<close> are written as the
  replacements they perform, the pattern of \<^verbatim>\<open>Slug::matches\<close> as its automaton.
\<close>

subsection \<open>Slugs\<close>

definition is_label_char :: "uchar \<Rightarrow> bool" where
  "is_label_char c = ((97 \<le> c \<and> c \<le> 122) \<or> (48 \<le> c \<and> c \<le> 57))"

definition is_separator :: "uchar \<Rightarrow> bool" where
  "is_separator c = (c \<in> {46, 95, 45})"

text \<open>\<^verbatim>\<open>OTHER.replace_all(_, "-")\<close>: every maximal run of other characters becomes one dash.\<close>

fun replace_other :: "bool \<Rightarrow> str \<Rightarrow> str" where
  "replace_other in_run [] = []"
| "replace_other in_run (c # cs) =
     (if is_label_char c \<or> is_separator c then c # replace_other False cs
      else if in_run then replace_other True cs else 45 # replace_other True cs)"

text \<open>\<^verbatim>\<open>RUNS.replace_all(_, "-")\<close>: every maximal run of two or more separators becomes one dash.\<close>

function fold_runs :: "str \<Rightarrow> str" where
  "fold_runs [] = []"
| "fold_runs (c # cs) =
     (if is_separator c
      then if takeWhile is_separator cs = [] then c # fold_runs cs
           else 45 # fold_runs (dropWhile is_separator cs)
      else c # fold_runs cs)"
  by pat_completeness auto
termination
  by (relation "measure length") (auto simp: le_imp_less_Suc length_dropWhile_le)

definition slug_of :: "unicode_case \<Rightarrow> str option \<Rightarrow> str result" where
  "slug_of u raw = (case raw of
       None \<Rightarrow> Inl (IllegalArgument (Msg ''a label is required'' []))
     | Some t \<Rightarrow>
         let low = jlower u (jtrim t);
             replaced = replace_other False low;
             folded = fold_runs replaced;
             slug = trim_matches is_separator folded
         in if slug = [] then Inl (IllegalArgument (Msg ''leaves no usable label'' [t]))
            else Inr slug)"

text \<open>\<^verbatim>\<open>^[a-z0-9]+([._-][a-z0-9]+)*$\<close>; the flag says the last character read was a label character.\<close>

fun slug_run :: "bool \<Rightarrow> str \<Rightarrow> bool" where
  "slug_run after_label [] = after_label"
| "slug_run after_label (c # cs) =
     (if is_label_char c then slug_run True cs
      else if is_separator c \<and> after_label then slug_run False cs
      else False)"

definition slug_matches :: "str \<Rightarrow> bool" where
  "slug_matches t = slug_run False t"

subsection \<open>Row constraints\<close>

text \<open>Numbers in a message are written in decimal.\<close>

fun show_nat :: "nat \<Rightarrow> str" where
  "show_nat n = (if n < 10 then [48 + n] else show_nat (n div 10) @ [48 + n mod 10])"

declare show_nat.simps [simp del]

record violations =
  entity :: string
  broken :: "str list"

definition violations_new :: "string \<Rightarrow> violations" where
  "violations_new e = \<lparr>entity = e, broken = []\<rparr>"

definition push_broken :: "str \<Rightarrow> violations \<Rightarrow> violations" where
  "push_broken b v = v\<lparr>broken := broken v @ [b]\<rparr>"

definition not_blank :: "string \<Rightarrow> str option \<Rightarrow> violations \<Rightarrow> violations" where
  "not_blank property value v =
     (if is_null_or_blank value then push_broken (lit property @ lit '' must not be blank'') v else v)"

definition max_length :: "string \<Rightarrow> str option \<Rightarrow> nat \<Rightarrow> violations \<Rightarrow> violations" where
  "max_length property value cap v =
     (case value of
        None \<Rightarrow> v
      | Some x \<Rightarrow> if jlen x > cap
          then push_broken (lit property @ lit '' is capped at '' @ show_nat cap
                 @ lit '' characters and this one is '' @ show_nat (jlen x)) v
          else v)"

definition in_range :: "string \<Rightarrow> int \<Rightarrow> int \<Rightarrow> int \<Rightarrow> violations \<Rightarrow> violations" where
  "in_range property value lo hi v =
     (if value < lo \<or> value > hi then push_broken (lit property @ lit '' is out of range'') v else v)"

definition require_holds :: "bool \<Rightarrow> str \<Rightarrow> violations \<Rightarrow> violations" where
  "require_holds holds msg v = (if \<not> holds then push_broken msg v else v)"

definition slug_rule :: "string \<Rightarrow> str option \<Rightarrow> violations \<Rightarrow> violations" where
  "slug_rule property value v =
     (case value of
        None \<Rightarrow> v
      | Some x \<Rightarrow> if \<not> slug_matches x then push_broken (lit property @ lit '' must be a slug'') v else v)"

definition violations_finish :: "violations \<Rightarrow> unit result" where
  "violations_finish v =
     (if broken v = [] then Inr () else Inl (IllegalArgument (Msg (entity v) (broken v))))"

text \<open>A chain of rules succeeds when every rule holds.\<close>

lemma violations_finish_Inr: "violations_finish v = Inr r \<longleftrightarrow> broken v = []"
  by (simp add: violations_finish_def)

lemma broken_new [simp]: "broken (violations_new e) = []"
  by (simp add: violations_new_def)

lemma broken_not_blank [simp]:
  "broken (not_blank p x v) = [] \<longleftrightarrow> broken v = [] \<and> \<not> is_null_or_blank x"
  by (simp add: not_blank_def push_broken_def)

lemma broken_max_length [simp]:
  "broken (max_length p x n v) = [] \<longleftrightarrow> broken v = [] \<and> (\<forall>t. x = Some t \<longrightarrow> jlen t \<le> n)"
  by (auto simp: max_length_def push_broken_def split: option.splits)

lemma broken_in_range [simp]:
  "broken (in_range p x lo hi v) = [] \<longleftrightarrow> broken v = [] \<and> lo \<le> x \<and> x \<le> hi"
  by (auto simp: in_range_def push_broken_def)

lemma broken_slug_rule [simp]:
  "broken (slug_rule p x v) = [] \<longleftrightarrow> broken v = [] \<and> (\<forall>t. x = Some t \<longrightarrow> slug_matches t)"
  by (auto simp: slug_rule_def push_broken_def split: option.splits)

lemma broken_require_holds [simp]:
  "broken (require_holds b m v) = [] \<longleftrightarrow> broken v = [] \<and> b"
  by (simp add: require_holds_def push_broken_def)

subsection \<open>Normalising gives a slug\<close>

lemma label_not_separator: "is_label_char c \<Longrightarrow> \<not> is_separator c"
  by (auto simp: is_label_char_def is_separator_def)

definition alternating :: "str \<Rightarrow> bool" where
  "alternating t \<longleftrightarrow> successively (\<lambda>a b. \<not> (is_separator a \<and> is_separator b)) t"

lemma slug_run_iff:
  "slug_run b t \<longleftrightarrow> list_all (\<lambda>c. is_label_char c \<or> is_separator c) t \<and> alternating t
     \<and> (t = [] \<longrightarrow> b) \<and> (t \<noteq> [] \<longrightarrow> is_label_char (last t) \<and> (b \<or> is_label_char (hd t)))"
proof (induction b t rule: slug_run.induct)
  case (1 b)
  then show ?case by (simp add: alternating_def)
next
  case (2 b c cs)
  then show ?case
    by (cases cs) (auto simp: alternating_def label_not_separator)
qed

lemma slug_matches_iff:
  "slug_matches t \<longleftrightarrow> list_all (\<lambda>c. is_label_char c \<or> is_separator c) t \<and> alternating t \<and> t \<noteq> []
     \<and> is_label_char (hd t) \<and> is_label_char (last t)"
  by (auto simp: slug_matches_def slug_run_iff)

lemma replace_other_chars: "list_all (\<lambda>c. is_label_char c \<or> is_separator c) (replace_other b t)"
  by (induction b t rule: replace_other.induct) (auto simp: is_separator_def)

lemma fold_runs_chars:
  "list_all (\<lambda>c. is_label_char c \<or> is_separator c) t
     \<Longrightarrow> list_all (\<lambda>c. is_label_char c \<or> is_separator c) (fold_runs t)"
proof (induction t rule: fold_runs.induct)
  case (2 c cs)
  moreover have "list_all P (dropWhile q cs)" if "list_all P cs" for P q :: "uchar \<Rightarrow> bool"
    using that by (auto simp: list_all_iff dest: set_dropWhileD)
  ultimately show ?case by (auto simp: is_separator_def)
qed simp

lemma fold_runs_hd:
  "t \<noteq> [] \<Longrightarrow> \<not> is_separator (hd t) \<Longrightarrow> fold_runs t \<noteq> [] \<and> hd (fold_runs t) = hd t"
  by (cases t) auto

lemma fold_runs_Nil [simp]: "fold_runs t = [] \<longleftrightarrow> t = []"
  by (cases t) auto

lemma fold_runs_alternating: "alternating (fold_runs t)"
proof (induction t rule: fold_runs.induct)
  case 1
  then show ?case by (simp add: alternating_def)
next
  case (2 c cs)
  have next_head: "d = [] \<or> \<not> is_separator (hd (fold_runs d))"
    if "d = [] \<or> \<not> is_separator (hd d)" for d
    using that fold_runs_hd [of d] by auto
  have heads: "dropWhile is_separator cs = [] \<or> \<not> is_separator (hd (dropWhile is_separator cs))"
    "takeWhile is_separator cs = [] \<Longrightarrow> cs = [] \<or> \<not> is_separator (hd cs)"
    using hd_dropWhile [of is_separator cs] by blast (cases cs, auto split: if_splits)
  show ?case
    using 2 next_head [OF heads(1)] next_head [OF heads(2)]
    by (auto simp: alternating_def successively_Cons)
qed

lemma trim_matches_decomp: "\<exists>ys zs. t = ys @ trim_matches p t @ zs"
proof -
  obtain zs where "dropWhile p t = trim_matches p t @ zs"
    using trim_end_decomp [of "dropWhile p t" p] by (auto simp: trim_matches_def)
  moreover have "t = takeWhile p t @ dropWhile p t" by simp
  ultimately show ?thesis by (metis append.assoc)
qed

lemma trim_matches_parts:
  "list_all P t \<Longrightarrow> list_all P (trim_matches p t)"
  "alternating t \<Longrightarrow> alternating (trim_matches p t)"
  using trim_matches_decomp [of t p]
  by (metis list_all_append) (metis alternating_def successively_append_iff trim_matches_decomp)

lemma slug_of_matches:
  assumes "slug_of u raw = Inr s"
  shows "slug_matches s"
proof -
  obtain t where raw: "raw = Some t" using assms by (auto simp: slug_of_def split: option.splits)
  define f where "f = fold_runs (replace_other False (jlower u (jtrim t)))"
  have s: "s = trim_matches is_separator f" and nz: "s \<noteq> []"
    using assms raw by (auto simp: slug_of_def f_def Let_def split: if_splits)
  have chars: "list_all (\<lambda>c. is_label_char c \<or> is_separator c) s" and alt: "alternating s"
    unfolding s f_def
    by (rule trim_matches_parts, rule fold_runs_chars, rule replace_other_chars)
      (rule trim_matches_parts, rule fold_runs_alternating)
  have "is_label_char (hd s)" "is_label_char (last s)"
    using trim_matches_ends [of is_separator f] nz chars s
    by (auto simp: list_all_iff)
  then show ?thesis using chars alt nz by (simp add: slug_matches_iff)
qed

lemma replace_other_id:
  "list_all (\<lambda>c. is_label_char c \<or> is_separator c) t \<Longrightarrow> replace_other b t = t"
  by (induction t arbitrary: b) auto

lemma fold_runs_id: "alternating t \<Longrightarrow> fold_runs t = t"
proof (induction t rule: fold_runs.induct)
  case (2 c cs)
  then show ?case by (cases cs) (auto simp: alternating_def)
qed simp

lemma slug_of_id:
  assumes "slug_matches s" and "lowered u s = s"
  shows "slug_of u (Some s) = Inr s"
proof -
  have c: "list_all (\<lambda>c. is_label_char c \<or> is_separator c) s" "alternating s" "s \<noteq> []"
    "is_label_char (hd s)" "is_label_char (last s)"
    using assms(1) by (auto simp: slug_matches_iff)
  then have "jtrim s = s" unfolding jtrim_def
    by (intro trim_matches_fixpoint) (auto simp: is_label_char_def)
  moreover have "trim_matches is_separator s = s"
    using c by (intro trim_matches_fixpoint) (auto simp: label_not_separator)
  ultimately show ?thesis
    using c assms(2) by (simp add: slug_of_def jlower_def replace_other_id fold_runs_id)
qed

text \<open>The definitions above, for running the model on concrete input.\<close>

lemmas slug_run [run_defs] = is_label_char_def is_separator_def slug_of_def slug_matches_def violations_new_def
  push_broken_def not_blank_def max_length_def in_range_def require_holds_def slug_rule_def
  violations_finish_def

end
