(* ===== verification/Rows.thy ===== *)
theory Rows
  imports Slug
begin

section \<open>The rows of the store and what they do on their own\<close>

text \<open>
  The entities of \<^verbatim>\<open>rekall-store/src\<close> that the services below write: one record per
  \<^verbatim>\<open>Model\<close> with its columns in the source's order, one datatype per enumeration, and the
  methods of the models. A method that reads the system clock takes that reading as its
  argument \<open>now\<close>.

  \<open>ts_passes\<close> stands for the column \<^verbatim>\<open>passes_json\<close>: \<open>Some\<close> of the passes it
  decodes to, \<open>None\<close> for text that does not decode.
\<close>

subsection \<open>Enumerations\<close>

datatype task_step_state = Draft | Open | Running | Claimed | Done

datatype task_status = Backlog | Todo | InProgress | Blocked | StatusDone

datatype task_kind = Task | Epic

datatype project_status = ProjectActive | ProjectPaused | ProjectDone | ProjectArchived

datatype document_context_mode = Full | Reference

datatype wrapup_author = ByClaude | ByHand

datatype run_queue_state = Idle | Scheduled | QRunning | Holding

datatype run_queue_item_state = Queued | IRunning | Finished | Skipped | Failed

datatype session_kind = Terminal | Chat

definition complete :: "task_step_state \<Rightarrow> bool" where
  "complete st = (st = Claimed \<or> st = Done)"

definition running :: "task_step_state \<Rightarrow> bool" where
  "running st = (st = Running)"

definition draft :: "task_step_state \<Rightarrow> bool" where
  "draft st = (st = Draft)"

definition unstarted :: "task_step_state \<Rightarrow> bool" where
  "unstarted st = (st = Draft \<or> st = Open)"

definition reachable_by_session :: "task_step_state \<Rightarrow> bool" where
  "reachable_by_session st = (\<not> (st = Draft \<or> st = Done))"

definition state_name :: "task_step_state \<Rightarrow> string" where
  "state_name st = (case st of Draft \<Rightarrow> ''DRAFT'' | Open \<Rightarrow> ''OPEN'' | Running \<Rightarrow> ''RUNNING''
                    | Claimed \<Rightarrow> ''CLAIMED'' | Done \<Rightarrow> ''DONE'')"

definition state_value_of :: "string \<Rightarrow> task_step_state option" where
  "state_value_of n =
     (if n = ''DRAFT'' then Some Draft else if n = ''OPEN'' then Some Open
      else if n = ''RUNNING'' then Some Running else if n = ''CLAIMED'' then Some Claimed
      else if n = ''DONE'' then Some Done else None)"

definition settled :: "run_queue_item_state \<Rightarrow> bool" where
  "settled st = (st = Finished \<or> st = Skipped \<or> st = Failed)"

definition armed :: "run_queue_state \<Rightarrow> bool" where
  "armed st = (st \<noteq> Idle)"

subsection \<open>Rows\<close>

record project =
  pr_id :: id
  pr_label :: str
  pr_title :: str
  pr_status :: project_status
  pr_icon :: str
  pr_description :: "str option"
  pr_blueprint_markdown :: "str option"
  pr_repo_folder :: "str option"
  pr_auto_commit :: bool
  pr_company_id :: id
  pr_created_at :: instant
  pr_updated_at :: instant

record task =
  tk_id :: id
  tk_label :: str
  tk_title :: str
  tk_status :: task_status
  tk_description :: "str option"
  tk_review_state :: task_step_state
  tk_claimed_at :: "instant option"
  tk_accepted_at :: "instant option"
  tk_project_id :: id
  tk_tag_id :: "id option"
  tk_graph_laid_at :: "instant option"
  tk_release_skipped :: bool
  tk_kind :: task_kind
  tk_epic_id :: "id option"
  tk_quick :: bool
  tk_auto_accepted :: bool
  tk_worktree_folder :: "str option"
  tk_created_at :: instant
  tk_updated_at :: instant

record step_pass =
  sp_detail_markdown :: "str option"
  sp_sent_back_at :: instant

record task_step =
  ts_id :: id
  ts_task_id :: id
  ts_title :: str
  ts_body_markdown :: "str option"
  ts_state :: task_step_state
  ts_running_at :: "instant option"
  ts_claimed_at :: "instant option"
  ts_done_at :: "instant option"
  ts_position :: int
  ts_passes :: "step_pass list option"
  ts_flow_x :: "int option"
  ts_flow_y :: "int option"
  ts_max_visits :: "int option"
  ts_starts_session :: bool
  ts_connection_id :: "id option"
  ts_created_at :: instant
  ts_updated_at :: instant

record step_link =
  sl_id :: id
  sl_task_id :: id
  sl_from_step_id :: id
  sl_to_step_id :: "id option"
  sl_outcome :: str
  sl_position :: int
  sl_created_at :: instant
  sl_updated_at :: instant

record step_visit =
  sv_id :: id
  sv_task_id :: id
  sv_step_id :: id
  sv_ordinal :: int
  sv_entered_at :: instant
  sv_left_at :: "instant option"
  sv_outcome :: "str option"
  sv_report :: "str option"

record time_entry =
  te_id :: id
  te_task_id :: id
  te_started_at :: instant
  te_stopped_at :: "instant option"
  te_created_at :: instant
  te_updated_at :: instant

record task_dependency =
  td_id :: id
  td_task_id :: id
  td_depends_on_task_id :: id
  td_created_at :: instant

record wrapup =
  wr_id :: id
  wr_task_id :: id
  wr_body_markdown :: str
  wr_written_by :: wrapup_author
  wr_created_at :: instant
  wr_updated_at :: instant

record wrapup_version =
  wn_id :: id
  wn_task_id :: id
  wn_number :: int
  wn_body_markdown :: str
  wn_written_by :: wrapup_author
  wn_written_at :: instant
  wn_commit_hash :: "str option"

record document =
  dc_id :: id
  dc_title :: str
  dc_kind :: str
  dc_body_markdown :: str
  dc_source_path :: "str option"
  dc_context_mode :: document_context_mode
  dc_scope_company_id :: "id option"
  dc_scope_project_id :: "id option"
  dc_created_at :: instant
  dc_updated_at :: instant

record document_task =
  dt_document_id :: id
  dt_task_id :: id
  dt_position :: int

datatype feedback_kind = Revision | Implementation | PlanFeedback
datatype feedback_state = FeedbackPending | FeedbackRunning | FeedbackApplied

record task_feedback =
  tf_id :: id
  tf_task_id :: id
  tf_seq :: int
  tf_kind :: feedback_kind
  tf_state :: feedback_state
  tf_quoted_markdown :: "str option"
  tf_body_markdown :: str
  tf_reply_markdown :: "str option"
  tf_created_at :: instant
  tf_updated_at :: instant
  tf_applied_at :: "instant option"
  tf_pass :: "int option"
  tf_taken_at :: "instant option"
  tf_follows_seq :: "int option"

record run_queue =
  rq_id :: id
  rq_state :: run_queue_state
  rq_start_at :: "instant option"
  rq_ceiling_percent :: "int option"
  rq_skip_permissions :: bool
  rq_model :: "str option"
  rq_effort :: "str option"
  rq_session_kind :: session_kind
  rq_parallel_sessions :: int
  rq_hold_until :: "instant option"
  rq_hold_reason :: "str option"
  rq_created_at :: instant
  rq_updated_at :: instant

record run_queue_item =
  qi_id :: id
  qi_task_id :: id
  qi_position :: int
  qi_state :: run_queue_item_state
  qi_detail :: "str option"
  qi_started_at :: "instant option"
  qi_finished_at :: "instant option"
  qi_created_at :: instant

subsection \<open>A checklist step\<close>

definition STEP_MAX_CHARACTERS :: nat where "STEP_MAX_CHARACTERS = 20000"
definition STEP_TITLE_MAX_CHARACTERS :: nat where "STEP_TITLE_MAX_CHARACTERS = 200"

definition task_step_new :: "id \<Rightarrow> id \<Rightarrow> str \<Rightarrow> int \<Rightarrow> instant \<Rightarrow> task_step" where
  "task_step_new i task_id title position now =
     \<lparr>ts_id = i, ts_task_id = task_id, ts_title = title, ts_body_markdown = None, ts_state = Draft,
      ts_running_at = None, ts_claimed_at = None, ts_done_at = None, ts_position = position,
      ts_passes = Some [], ts_flow_x = None, ts_flow_y = None, ts_max_visits = None,
      ts_starts_session = False, ts_connection_id = None, ts_created_at = now, ts_updated_at = now\<rparr>"

definition admits_visit :: "task_step \<Rightarrow> nat \<Rightarrow> bool" where
  "admits_visit step entered =
     (case ts_max_visits step of None \<Rightarrow> True | Some cap \<Rightarrow> entered < as_usize cap)"

definition is_done :: "task_step \<Rightarrow> bool" where
  "is_done step = (ts_state step = Done)"

definition completed_at :: "task_step \<Rightarrow> instant option" where
  "completed_at step =
     (case ts_claimed_at step of Some t \<Rightarrow> Some t | None \<Rightarrow> ts_done_at step)"

definition mark_state :: "instant \<Rightarrow> task_step_state \<Rightarrow> task_step \<Rightarrow> task_step" where
  "mark_state now next step =
     (if ts_state step = next then step
      else let moved = step\<lparr>ts_state := next\<rparr> in
        case next of
          Draft \<Rightarrow> moved\<lparr>ts_running_at := None, ts_claimed_at := None, ts_done_at := None\<rparr>
        | Open \<Rightarrow> moved\<lparr>ts_running_at := None, ts_claimed_at := None, ts_done_at := None\<rparr>
        | Running \<Rightarrow> moved\<lparr>ts_running_at := Some now, ts_claimed_at := None, ts_done_at := None\<rparr>
        | Claimed \<Rightarrow>
            (let begun = (if ts_running_at moved = None then moved\<lparr>ts_running_at := Some now\<rparr> else moved)
             in begun\<lparr>ts_claimed_at := Some now, ts_done_at := None\<rparr>)
        | Done \<Rightarrow> moved\<lparr>ts_done_at := Some now\<rparr>)"

definition step_passes :: "task_step \<Rightarrow> step_pass list result" where
  "step_passes step = (case ts_passes step of
       None \<Rightarrow> Inl (IllegalArgument (Msg ''step holds unreadable passes'' [ts_title step]))
     | Some ps \<Rightarrow> Inr ps)"

text \<open>\<open>clock\<close> is the reading \<open>mark_state\<close> takes; \<open>now\<close> the moment the caller passes.\<close>

definition step_send_back :: "instant \<Rightarrow> instant \<Rightarrow> task_step \<Rightarrow> task_step result" where
  "step_send_back clock now step =
     (if ts_state step \<noteq> Claimed
      then Inl (IllegalArgument (Msg ''only a claimed step is sent back for another pass''
                  [ts_title step, lit (state_name (ts_state step))]))
      else res_bind (step_passes step) (\<lambda>passes.
        let pass = \<lparr>sp_detail_markdown = ts_body_markdown step, sp_sent_back_at = now\<rparr>;
            kept = step\<lparr>ts_body_markdown := None, ts_passes := Some (passes @ [pass])\<rparr>
        in Inr (mark_state clock Open kept)))"

definition step_validate :: "task_step \<Rightarrow> unit result" where
  "step_validate step = violations_finish
     (max_length ''bodyMarkdown'' (ts_body_markdown step) STEP_MAX_CHARACTERS
     (max_length ''title'' (Some (ts_title step)) STEP_TITLE_MAX_CHARACTERS
     (not_blank ''title'' (Some (ts_title step))
     (violations_new ''TaskStep''))))"

subsection \<open>A route and a visit\<close>

definition OUTCOME_MAX_CHARACTERS :: nat where "OUTCOME_MAX_CHARACTERS = 60"
definition ROUTES_PER_STEP_MAX :: nat where "ROUTES_PER_STEP_MAX = 8"
definition REPORT_MAX_CHARACTERS :: nat where "REPORT_MAX_CHARACTERS = 4000"

definition step_link_new :: "id \<Rightarrow> id \<Rightarrow> id \<Rightarrow> id option \<Rightarrow> str \<Rightarrow> int \<Rightarrow> instant \<Rightarrow> step_link" where
  "step_link_new i task_id from to outcome position now =
     \<lparr>sl_id = i, sl_task_id = task_id, sl_from_step_id = from, sl_to_step_id = to,
      sl_outcome = outcome, sl_position = position, sl_created_at = now, sl_updated_at = now\<rparr>"

definition link_validate :: "step_link \<Rightarrow> unit result" where
  "link_validate link =
     (if sl_to_step_id link = Some (sl_from_step_id link)
      then Inl (IllegalArgument (Msg ''a step cannot route to itself'' []))
      else violations_finish
        (max_length ''outcome'' (Some (sl_outcome link)) OUTCOME_MAX_CHARACTERS
        (slug_rule ''outcome'' (Some (sl_outcome link))
        (not_blank ''outcome'' (Some (sl_outcome link))
        (violations_new ''StepLink'')))))"

definition normalise_outcome :: "unicode_case \<Rightarrow> str option \<Rightarrow> str result" where
  "normalise_outcome u raw = (case slug_of u raw of
       Inl _ \<Rightarrow> Inl (IllegalArgument (Msg ''leaves no usable outcome''
                    [case raw of None \<Rightarrow> [] | Some r \<Rightarrow> r]))
     | Inr s \<Rightarrow> Inr s)"

definition visit_enter :: "id \<Rightarrow> id \<Rightarrow> id \<Rightarrow> int \<Rightarrow> instant \<Rightarrow> step_visit" where
  "visit_enter i task_id step_id ordinal now =
     \<lparr>sv_id = i, sv_task_id = task_id, sv_step_id = step_id, sv_ordinal = ordinal,
      sv_entered_at = now, sv_left_at = None, sv_outcome = None, sv_report = None\<rparr>"

definition visit_is_open :: "step_visit \<Rightarrow> bool" where
  "visit_is_open v = (sv_left_at v = None)"

definition visit_leave :: "str option \<Rightarrow> str option \<Rightarrow> instant \<Rightarrow> step_visit \<Rightarrow> step_visit" where
  "visit_leave outcome report now v =
     (if \<not> visit_is_open v then v
      else v\<lparr>sv_left_at := Some now, sv_outcome := outcome, sv_report := report\<rparr>)"

subsection \<open>A task\<close>

definition TASK_TITLE_MAX_CHARACTERS :: nat where "TASK_TITLE_MAX_CHARACTERS = 200"

definition review_active :: "task_step_state list \<Rightarrow> bool" where
  "review_active states = list_all (\<lambda>st. st = Draft) states"

definition task_new :: "id \<Rightarrow> str \<Rightarrow> str \<Rightarrow> id \<Rightarrow> instant \<Rightarrow> task" where
  "task_new i label title project_id now =
     \<lparr>tk_id = i, tk_label = label, tk_title = title, tk_status = Todo, tk_description = None,
      tk_review_state = Open, tk_claimed_at = None, tk_accepted_at = None,
      tk_project_id = project_id, tk_tag_id = None, tk_graph_laid_at = None,
      tk_release_skipped = False, tk_kind = Task, tk_epic_id = None, tk_quick = False,
      tk_auto_accepted = False, tk_worktree_folder = None, tk_created_at = now, tk_updated_at = now\<rparr>"

definition mark_review_state :: "instant \<Rightarrow> task_step_state \<Rightarrow> task \<Rightarrow> task" where
  "mark_review_state now next t =
     (if tk_review_state t = next then t
      else let moved = t\<lparr>tk_review_state := next, tk_auto_accepted := False\<rparr> in
        case next of
          Open \<Rightarrow> moved\<lparr>tk_claimed_at := None, tk_accepted_at := None\<rparr>
        | Running \<Rightarrow> moved\<lparr>tk_claimed_at := None, tk_accepted_at := None\<rparr>
        | Claimed \<Rightarrow> moved\<lparr>tk_claimed_at := Some now, tk_accepted_at := None\<rparr>
        | Done \<Rightarrow>
            (let claimed = (if tk_claimed_at moved = None then moved\<lparr>tk_claimed_at := Some now\<rparr> else moved)
             in claimed\<lparr>tk_accepted_at := Some now\<rparr>)
        | Draft \<Rightarrow> moved)"

definition accept_automatically :: "instant \<Rightarrow> task \<Rightarrow> task" where
  "accept_automatically now t = (mark_review_state now Done t)\<lparr>tk_auto_accepted := True\<rparr>"

definition work_folder :: "task \<Rightarrow> project \<Rightarrow> str option" where
  "work_folder t p =
     (case tk_worktree_folder t of
        Some f \<Rightarrow> if \<not> is_blank f then Some f
                   else (case pr_repo_folder p of Some g \<Rightarrow> if is_blank g then None else Some g | None \<Rightarrow> None)
      | None \<Rightarrow> (case pr_repo_folder p of Some g \<Rightarrow> if is_blank g then None else Some g | None \<Rightarrow> None))"

definition is_epic :: "task \<Rightarrow> bool" where
  "is_epic t = (tk_kind t = Epic)"

definition require_workable :: "string \<Rightarrow> task \<Rightarrow> unit result" where
  "require_workable refused t =
     refuse_if (is_epic t) (IllegalArgument (Msg ''is an epic'' [tk_label t, lit refused]))"

definition require_joinable :: "task \<Rightarrow> task \<Rightarrow> unit result" where
  "require_joinable t epic =
     (if \<not> is_epic epic then Inl (IllegalArgument (Msg ''is not an epic'' [tk_label epic]))
      else if is_epic t then Inl (IllegalArgument (Msg ''an epic cannot belong to another epic'' []))
      else if tk_id epic = tk_id t then Inl (IllegalArgument (Msg ''a task cannot be its own epic'' []))
      else if tk_project_id epic \<noteq> tk_project_id t
        then Inl (IllegalArgument (Msg ''the epic is in another project'' [tk_label epic]))
      else Inr ())"

definition project_anchor :: "project \<Rightarrow> str" where
  "project_anchor p = lit ''project:'' @ pr_label p"

definition task_anchor :: "task \<Rightarrow> str \<Rightarrow> str" where
  "task_anchor t project_label = lit ''project:'' @ project_label @ lit '' task:'' @ tk_label t"

definition task_validate :: "task \<Rightarrow> unit result" where
  "task_validate t = violations_finish
     (max_length ''description'' (tk_description t) 100000
     (max_length ''title'' (Some (tk_title t)) TASK_TITLE_MAX_CHARACTERS
     (not_blank ''title'' (Some (tk_title t))
     (slug_rule ''label'' (Some (tk_label t))
     (max_length ''label'' (Some (tk_label t)) 160
     (not_blank ''label'' (Some (tk_label t))
     (violations_new ''Task'')))))))"

subsection \<open>The run queue\<close>

definition PARALLEL_SESSIONS_MIN :: int where "PARALLEL_SESSIONS_MIN = 1"
definition PARALLEL_SESSIONS_MAX :: int where "PARALLEL_SESSIONS_MAX = 4"
definition DETAIL_MAX :: nat where "DETAIL_MAX = 500"

definition run_queue_new :: "id \<Rightarrow> instant \<Rightarrow> run_queue" where
  "run_queue_new i now =
     \<lparr>rq_id = i, rq_state = Idle, rq_start_at = None, rq_ceiling_percent = None,
      rq_skip_permissions = False, rq_model = None, rq_effort = None, rq_session_kind = Terminal,
      rq_parallel_sessions = PARALLEL_SESSIONS_MIN, rq_hold_until = None, rq_hold_reason = None,
      rq_created_at = now, rq_updated_at = now\<rparr>"

definition queue_move_to :: "run_queue_state \<Rightarrow> run_queue \<Rightarrow> run_queue" where
  "queue_move_to next q =
     (let moved = q\<lparr>rq_state := next\<rparr>;
          unscheduled = (if next \<noteq> Scheduled then moved\<lparr>rq_start_at := None\<rparr> else moved)
      in if next \<noteq> Holding then unscheduled\<lparr>rq_hold_until := None, rq_hold_reason := None\<rparr>
         else unscheduled)"

definition queue_validate :: "run_queue \<Rightarrow> unit result" where
  "queue_validate q = violations_finish
     (max_length ''holdReason'' (rq_hold_reason q) 500
     (max_length ''effort'' (rq_effort q) 20
     (max_length ''model'' (rq_model q) 20
     (in_range ''parallelSessions'' (rq_parallel_sessions q) PARALLEL_SESSIONS_MIN PARALLEL_SESSIONS_MAX
     (violations_new ''RunQueue'')))))"

definition queue_item_new :: "id \<Rightarrow> id \<Rightarrow> int \<Rightarrow> instant \<Rightarrow> run_queue_item" where
  "queue_item_new i task_id position now =
     \<lparr>qi_id = i, qi_task_id = task_id, qi_position = position, qi_state = Queued, qi_detail = None,
      qi_started_at = None, qi_finished_at = None, qi_created_at = now\<rparr>"

text \<open>The ellipsis U+2026 marks a cut.\<close>

definition truncate_detail :: "str \<Rightarrow> str" where
  "truncate_detail t = (if jlen t \<le> DETAIL_MAX then t else jprefix t (DETAIL_MAX - 1) @ [0x2026])"

definition item_move_to :: "instant \<Rightarrow> run_queue_item_state \<Rightarrow> str option \<Rightarrow> run_queue_item \<Rightarrow> run_queue_item" where
  "item_move_to now next reason item =
     (let moved = item\<lparr>qi_state := next, qi_detail := map_option (\<lambda>r. truncate_detail (strip r)) reason\<rparr>;
          started = (if next = IRunning \<and> qi_started_at moved = None
                     then moved\<lparr>qi_started_at := Some now\<rparr> else moved)
      in started\<lparr>qi_finished_at := (if settled next then Some now else None)\<rparr>)"

subsection \<open>The state line\<close>

text \<open>
  A step and a stepless task carry the same line of states, each move with its moment. The
  contract the services rely on: a move lands where it was asked to, and asking for the state a
  row is already in changes nothing.
\<close>

locale state_line =
  fixes state :: "'r \<Rightarrow> task_step_state"
    and mark :: "instant \<Rightarrow> task_step_state \<Rightarrow> 'r \<Rightarrow> 'r"
    and moments_ok :: "'r \<Rightarrow> bool"
  assumes state_mark: "state (mark now st r) = st"
    and mark_same: "state r = st \<Longrightarrow> mark now st r = r"
    and moments_mark: "moments_ok r \<Longrightarrow> st \<noteq> Draft \<Longrightarrow> moments_ok (mark now st r)"
begin

lemma mark_again: "mark now' st (mark now st r) = mark now st r"
  by (simp add: mark_same state_mark)

lemma mark_changes_iff: "mark now st r \<noteq> r \<Longrightarrow> state r \<noteq> st"
  using mark_same by blast

lemma moments_marks:
  "moments_ok r \<Longrightarrow> Draft \<notin> snd ` set moves \<Longrightarrow> moments_ok (fold (\<lambda>(now, st). mark now st) moves r)"
  by (induction moves arbitrary: r) (auto simp: moments_mark)

end

text \<open>The moments that belong to each state of a step, and of a task's own review line.\<close>

definition step_moments_ok :: "task_step \<Rightarrow> bool" where
  "step_moments_ok step = (case ts_state step of
       Draft \<Rightarrow> ts_running_at step = None \<and> ts_claimed_at step = None \<and> ts_done_at step = None
     | Open \<Rightarrow> ts_running_at step = None \<and> ts_claimed_at step = None \<and> ts_done_at step = None
     | Running \<Rightarrow> ts_running_at step \<noteq> None \<and> ts_claimed_at step = None \<and> ts_done_at step = None
     | Claimed \<Rightarrow> ts_running_at step \<noteq> None \<and> ts_claimed_at step \<noteq> None \<and> ts_done_at step = None
     | Done \<Rightarrow> ts_done_at step \<noteq> None)"

definition task_moments_ok :: "task \<Rightarrow> bool" where
  "task_moments_ok t = (case tk_review_state t of
       Draft \<Rightarrow> False
     | Open \<Rightarrow> tk_claimed_at t = None \<and> tk_accepted_at t = None \<and> \<not> tk_auto_accepted t
     | Running \<Rightarrow> tk_claimed_at t = None \<and> tk_accepted_at t = None \<and> \<not> tk_auto_accepted t
     | Claimed \<Rightarrow> tk_claimed_at t \<noteq> None \<and> tk_accepted_at t = None \<and> \<not> tk_auto_accepted t
     | Done \<Rightarrow> tk_claimed_at t \<noteq> None \<and> tk_accepted_at t \<noteq> None)"

lemma mark_state_state [simp]: "ts_state (mark_state now st step) = st"
  by (cases st) (auto simp: mark_state_def Let_def)

lemma mark_state_moments:
  "step_moments_ok step \<Longrightarrow> step_moments_ok (mark_state now st step)"
  by (cases st; cases "ts_state step") (auto simp: mark_state_def step_moments_ok_def Let_def)

lemma mark_state_frame [simp]:
  "ts_id (mark_state now st step) = ts_id step"
  "ts_task_id (mark_state now st step) = ts_task_id step"
  "ts_title (mark_state now st step) = ts_title step"
  "ts_body_markdown (mark_state now st step) = ts_body_markdown step"
  "ts_position (mark_state now st step) = ts_position step"
  "ts_passes (mark_state now st step) = ts_passes step"
  "ts_max_visits (mark_state now st step) = ts_max_visits step"
  by (simp_all add: mark_state_def Let_def split: task_step_state.split)

lemma mark_review_state_state [simp]: "tk_review_state (mark_review_state now st t) = st"
  by (cases st) (auto simp: mark_review_state_def Let_def)

lemma mark_review_state_moments:
  "task_moments_ok t \<Longrightarrow> st \<noteq> Draft \<Longrightarrow> task_moments_ok (mark_review_state now st t)"
  by (cases st; cases "tk_review_state t")
    (auto simp: mark_review_state_def task_moments_ok_def Let_def)

lemma mark_review_state_frame [simp]:
  "tk_id (mark_review_state now st t) = tk_id t"
  "tk_project_id (mark_review_state now st t) = tk_project_id t"
  "tk_kind (mark_review_state now st t) = tk_kind t"
  "tk_label (mark_review_state now st t) = tk_label t"
  by (simp_all add: mark_review_state_def Let_def split: task_step_state.split)

lemma mark_state_same: "ts_state step = st \<Longrightarrow> mark_state now st step = step"
  by (simp add: mark_state_def)

lemma mark_review_state_same: "tk_review_state t = st \<Longrightarrow> mark_review_state now st t = t"
  by (simp add: mark_review_state_def)

interpretation step_line: state_line ts_state mark_state step_moments_ok
  by unfold_locales (simp_all add: mark_state_moments mark_state_same)

interpretation review_line: state_line tk_review_state mark_review_state task_moments_ok
  by unfold_locales (simp_all add: mark_review_state_moments mark_review_state_same)

lemma accept_automatically_moments:
  "task_moments_ok t \<Longrightarrow> task_moments_ok (accept_automatically now t)"
  using mark_review_state_moments [of t Done now]
  by (simp add: accept_automatically_def task_moments_ok_def)

lemma step_send_back_Inr:
  assumes "step_send_back clock now step = Inr back"
  shows "ts_state step = Claimed" "ts_state back = Open" "ts_body_markdown back = None"
    "ts_passes back = map_option (\<lambda>ps. ps @ [\<lparr>sp_detail_markdown = ts_body_markdown step, sp_sent_back_at = now\<rparr>]) (ts_passes step)"
    "ts_id back = ts_id step" "ts_task_id back = ts_task_id step" "ts_position back = ts_position step"
    "ts_title back = ts_title step" "step_moments_ok back"
  using assms
  by (auto simp: step_send_back_def step_passes_def step_moments_ok_def Let_def mark_state_def
      split: if_splits option.splits)

lemma state_value_of_name [simp]: "state_value_of (state_name st) = Some st"
  by (cases st) (simp_all add: state_value_of_def state_name_def)

lemma item_move_to_simps [simp]:
  "qi_id (item_move_to now st r item) = qi_id item"
  "qi_task_id (item_move_to now st r item) = qi_task_id item"
  "qi_position (item_move_to now st r item) = qi_position item"
  "qi_state (item_move_to now st r item) = st"
  by (simp_all add: item_move_to_def Let_def)

lemma queue_move_to_simps [simp]:
  "rq_id (queue_move_to st q) = rq_id q" "rq_state (queue_move_to st q) = st"
  "rq_parallel_sessions (queue_move_to st q) = rq_parallel_sessions q"
  "rq_ceiling_percent (queue_move_to st q) = rq_ceiling_percent q"
  by (simp_all add: queue_move_to_def Let_def)

lemma truncate_detail_len: "jlen (truncate_detail t) \<le> DETAIL_MAX"
  using jprefix_len [of t "DETAIL_MAX - 1"]
  by (simp add: truncate_detail_def len_utf16_def DETAIL_MAX_def)

text \<open>The definitions above, for running the model on concrete input.\<close>

lemmas rows_run [run_defs] = complete_def running_def draft_def unstarted_def reachable_by_session_def state_name_def
  state_value_of_def settled_def armed_def STEP_MAX_CHARACTERS_def STEP_TITLE_MAX_CHARACTERS_def
  task_step_new_def admits_visit_def is_done_def completed_at_def mark_state_def step_passes_def
  step_send_back_def step_validate_def OUTCOME_MAX_CHARACTERS_def ROUTES_PER_STEP_MAX_def
  REPORT_MAX_CHARACTERS_def step_link_new_def link_validate_def normalise_outcome_def
  visit_enter_def visit_is_open_def visit_leave_def TASK_TITLE_MAX_CHARACTERS_def
  review_active_def task_new_def mark_review_state_def accept_automatically_def work_folder_def
  is_epic_def require_workable_def require_joinable_def project_anchor_def task_anchor_def
  task_validate_def PARALLEL_SESSIONS_MIN_def PARALLEL_SESSIONS_MAX_def DETAIL_MAX_def
  run_queue_new_def queue_move_to_def queue_validate_def queue_item_new_def truncate_detail_def
  item_move_to_def

end
