(* ===== verification/Views.thy ===== *)
theory Views
  imports Rows
begin

section \<open>Views and events\<close>

text \<open>
  What the services answer and announce: the views of \<^verbatim>\<open>rekall-core/src/*/view\<close> and the
  events of \<^verbatim>\<open>rekall-core/src/*/event\<close>, built from rows by the same \<^verbatim>\<open>of\<close> functions.
\<close>

subsection \<open>Steps\<close>

record step_link_view =
  lv_id :: id
  lv_from_step_id :: id
  lv_to_step_id :: "id option"
  lv_outcome :: str
  lv_position :: int

definition link_view_of :: "step_link \<Rightarrow> step_link_view" where
  "link_view_of link = \<lparr>lv_id = sl_id link, lv_from_step_id = sl_from_step_id link,
     lv_to_step_id = sl_to_step_id link, lv_outcome = sl_outcome link, lv_position = sl_position link\<rparr>"

record step_visit_view =
  vv_id :: id
  vv_step_id :: id
  vv_ordinal :: int
  vv_entered_at :: instant
  vv_left_at :: "instant option"
  vv_outcome :: "str option"
  vv_report :: "str option"

definition visit_view_of :: "step_visit \<Rightarrow> step_visit_view" where
  "visit_view_of v = \<lparr>vv_id = sv_id v, vv_step_id = sv_step_id v, vv_ordinal = sv_ordinal v,
     vv_entered_at = sv_entered_at v, vv_left_at = sv_left_at v, vv_outcome = sv_outcome v,
     vv_report = sv_report v\<rparr>"

definition visit_view_is_open :: "step_visit_view \<Rightarrow> bool" where
  "visit_view_is_open v = (vv_left_at v = None)"

record step_flow_rows =
  fr_links :: "step_link list"
  fr_visits :: "step_visit list"

definition links_from :: "step_flow_rows \<Rightarrow> id \<Rightarrow> step_link list" where
  "links_from flow step_id = filter (\<lambda>l. sl_from_step_id l = step_id) (fr_links flow)"

definition visits_of :: "step_flow_rows \<Rightarrow> id \<Rightarrow> step_visit list" where
  "visits_of flow step_id = filter (\<lambda>v. sv_step_id v = step_id) (fr_visits flow)"

record task_step_view =
  tv_id :: id
  tv_task_id :: id
  tv_title :: str
  tv_body_markdown :: "str option"
  tv_state :: task_step_state
  tv_done :: bool
  tv_running_at :: "instant option"
  tv_claimed_at :: "instant option"
  tv_done_at :: "instant option"
  tv_position :: int
  tv_flow_x :: "int option"
  tv_flow_y :: "int option"
  tv_max_visits :: "int option"
  tv_starts_session :: bool
  tv_connection_id :: "id option"
  tv_passes :: "step_pass list"
  tv_links :: "step_link_view list"
  tv_visits :: "step_visit_view list"
  tv_created_at :: instant
  tv_updated_at :: instant

definition step_view_of :: "task_step \<Rightarrow> step_flow_rows \<Rightarrow> task_step_view result" where
  "step_view_of step flow = res_bind (step_passes step) (\<lambda>passes. Inr
     \<lparr>tv_id = ts_id step, tv_task_id = ts_task_id step, tv_title = ts_title step,
      tv_body_markdown = ts_body_markdown step, tv_state = ts_state step, tv_done = is_done step,
      tv_running_at = ts_running_at step, tv_claimed_at = ts_claimed_at step,
      tv_done_at = ts_done_at step, tv_position = ts_position step, tv_flow_x = ts_flow_x step,
      tv_flow_y = ts_flow_y step, tv_max_visits = ts_max_visits step,
      tv_starts_session = ts_starts_session step, tv_connection_id = ts_connection_id step,
      tv_passes = passes, tv_links = map link_view_of (links_from flow (ts_id step)),
      tv_visits = map visit_view_of (visits_of flow (ts_id step)),
      tv_created_at = ts_created_at step, tv_updated_at = ts_updated_at step\<rparr>)"

definition view_completed_at :: "task_step_view \<Rightarrow> instant option" where
  "view_completed_at v = (case tv_claimed_at v of Some t \<Rightarrow> Some t | None \<Rightarrow> tv_done_at v)"

definition view_is_current :: "task_step_view \<Rightarrow> bool" where
  "view_is_current v = list_ex visit_view_is_open (tv_visits v)"

lemma step_view_of_Inr:
  "step_view_of step flow = Inr v \<Longrightarrow>
     tv_id v = ts_id step \<and> tv_task_id v = ts_task_id step \<and> tv_title v = ts_title step
     \<and> tv_state v = ts_state step \<and> tv_position v = ts_position step"
  by (auto simp: step_view_of_def res_bind_Inr)

datatype step_progress_state = PRunning | PClaimed | PDone | PNotNeeded | POpen

record step_progress =
  sg_title :: str
  sg_state :: step_progress_state
  sg_current :: bool

subsection \<open>Review line and run queue\<close>

record task_review_view =
  rv_task_id :: id
  rv_review_state :: task_step_state
  rv_review_active :: bool
  rv_claimed_at :: "instant option"
  rv_accepted_at :: "instant option"
  rv_auto_accepted :: bool

definition review_view_of :: "task \<Rightarrow> bool \<Rightarrow> task_review_view" where
  "review_view_of t active = \<lparr>rv_task_id = tk_id t, rv_review_state = tk_review_state t,
     rv_review_active = active, rv_claimed_at = tk_claimed_at t, rv_accepted_at = tk_accepted_at t,
     rv_auto_accepted = tk_auto_accepted t\<rparr>"

record run_queue_wait_view =
  wv_anchor :: str
  wv_title :: str
  wv_awaiting_review :: bool
  wv_in_queue :: bool

record run_queue_item_view =
  iv_id :: id
  iv_task_id :: id
  iv_task_title :: str
  iv_task_label :: str
  iv_project_label :: str
  iv_anchor :: str
  iv_position :: int
  iv_state :: run_queue_item_state
  iv_detail :: "str option"
  iv_started_at :: "instant option"
  iv_finished_at :: "instant option"
  iv_steps :: "step_progress list"
  iv_waiting_for :: "run_queue_wait_view list"

definition item_view_of ::
  "run_queue_item \<Rightarrow> task \<Rightarrow> project \<Rightarrow> step_progress list \<Rightarrow> run_queue_wait_view list \<Rightarrow> run_queue_item_view" where
  "item_view_of item t p steps waiting_for =
     \<lparr>iv_id = qi_id item, iv_task_id = tk_id t, iv_task_title = tk_title t, iv_task_label = tk_label t,
      iv_project_label = pr_label p, iv_anchor = task_anchor t (pr_label p),
      iv_position = qi_position item, iv_state = qi_state item, iv_detail = qi_detail item,
      iv_started_at = qi_started_at item, iv_finished_at = qi_finished_at item, iv_steps = steps,
      iv_waiting_for = waiting_for\<rparr>"

record run_queue_view =
  qv_state :: run_queue_state
  qv_start_at :: "instant option"
  qv_ceiling_percent :: "int option"
  qv_skip_permissions :: bool
  qv_model :: "str option"
  qv_effort :: "str option"
  qv_session_kind :: session_kind
  qv_parallel_sessions :: int
  qv_hold_until :: "instant option"
  qv_hold_reason :: "str option"
  qv_items :: "run_queue_item_view list"
  qv_updated_at :: instant

definition queue_view_of :: "run_queue \<Rightarrow> run_queue_item_view list \<Rightarrow> run_queue_view" where
  "queue_view_of q items =
     \<lparr>qv_state = rq_state q, qv_start_at = rq_start_at q, qv_ceiling_percent = rq_ceiling_percent q,
      qv_skip_permissions = rq_skip_permissions q, qv_model = rq_model q, qv_effort = rq_effort q,
      qv_session_kind = rq_session_kind q, qv_parallel_sessions = rq_parallel_sessions q,
      qv_hold_until = rq_hold_until q, qv_hold_reason = rq_hold_reason q, qv_items = items,
      qv_updated_at = rq_updated_at q\<rparr>"

subsection \<open>Events\<close>

record wrapup_view =
  wu_wrapup_id :: id
  wu_task_id :: id
  wu_task_label :: str
  wu_task_title :: str
  wu_project_label :: str
  wu_task_anchor :: str
  wu_body_markdown :: str
  wu_written_by :: wrapup_author
  wu_created_at :: instant
  wu_updated_at :: instant

definition wrapup_view_of :: "wrapup \<Rightarrow> task \<Rightarrow> project \<Rightarrow> wrapup_view" where
  "wrapup_view_of w t p = \<lparr>wu_wrapup_id = wr_id w, wu_task_id = tk_id t, wu_task_label = tk_label t, wu_task_title = tk_title t,
     wu_project_label = pr_label p, wu_task_anchor = task_anchor t (pr_label p), wu_body_markdown = wr_body_markdown w,
     wu_written_by = wr_written_by w, wu_created_at = wr_created_at w, wu_updated_at = wr_updated_at w\<rparr>"

datatype event =
    StepStreamEvent id "task_step_view list"
  | TaskReviewEvent id task_review_view
  | RunQueueFrame run_queue_view
  | TaskStreamEvent id id
  | WrapupStreamEvent id "wrapup_view option" bool
  | NoteStreamEvent id id
  | FeedbackStreamEvent id

text \<open>The definitions above, for running the model on concrete input.\<close>

lemmas views_run [run_defs] = link_view_of_def visit_view_of_def visit_view_is_open_def links_from_def visits_of_def
  step_view_of_def view_completed_at_def view_is_current_def review_view_of_def item_view_of_def
  queue_view_of_def wrapup_view_of_def

end
