(* ===== verification/Store.thy ===== *)
theory Store
  imports Views
begin

section \<open>The store: tables, transactions, repositories\<close>

text \<open>
  The database is a record of tables, each the list of its rows in insertion order, together
  with what a transaction carries: the events it will announce, the readings the clock will
  give and the ids \<^verbatim>\<open>Id::random\<close> will draw (two arbitrary streams, so no theorem assumes that
  ids differ or that time moves forward). \<open>announced\<close> is what the event bus has received.

  Insertion and update check the constraints the schema declares (primary keys, unique
  indexes, foreign keys); deletion cascades as the schema says. A query that orders by a column
  is the stable sort of its rows. Failures of the database engine itself are not modelled.
\<close>

record db =
  projects :: "project list"
  tasks :: "task list"
  task_steps :: "task_step list"
  step_links :: "step_link list"
  step_visits :: "step_visit list"
  time_entries :: "time_entry list"
  task_dependencies :: "task_dependency list"
  wrapups :: "wrapup list"
  wrapup_versions :: "wrapup_version list"
  documents :: "document list"
  document_tasks :: "document_task list"
  task_feedbacks :: "task_feedback list"
  run_queues :: "run_queue list"
  run_queue_items :: "run_queue_item list"
  events :: "event list"
  announced :: "event list"
  clock :: "instant stream"
  entropy :: "id stream"

type_synonym 'a action = "(db, 'a) tx"

subsection \<open>Clock, ids, events, transactions\<close>

definition ctx_now :: "instant action" where
  "ctx_now = (\<lambda>s. Inr (shd (clock s), s\<lparr>clock := stl (clock s)\<rparr>))"

definition random_id :: "id action" where
  "random_id = (\<lambda>s. Inr (shd (entropy s), s\<lparr>entropy := stl (entropy s)\<rparr>))"

definition tx_publish :: "event \<Rightarrow> unit action" where
  "tx_publish e = tx_modify (\<lambda>s. s\<lparr>events := events s @ [e]\<rparr>)"

text \<open>\<^verbatim>\<open>Tx::begin\<close>, \<^verbatim>\<open>Tx::commit\<close> and \<^verbatim>\<open>Tx::finish\<close>: commit and announce on success, roll back on failure.\<close>

definition tx_begin :: "db \<Rightarrow> db" where
  "tx_begin s = s\<lparr>events := []\<rparr>"

definition tx_commit :: "db \<Rightarrow> db" where
  "tx_commit s = s\<lparr>events := [], announced := announced s @ events s\<rparr>"

definition in_write :: "'a action \<Rightarrow> db \<Rightarrow> 'a result \<times> db" where
  "in_write body s = (case body (tx_begin s) of
       Inl e \<Rightarrow> (Inl e, s)
     | Inr (x, t) \<Rightarrow> (Inr x, tx_commit t))"

definition in_read :: "'a action \<Rightarrow> db \<Rightarrow> 'a result" where
  "in_read body s = (case body (tx_begin s) of Inl e \<Rightarrow> Inl e | Inr (x, t) \<Rightarrow> Inr x)"

lemma in_write_Inl: "in_write m s = (Inl e, t) \<Longrightarrow> t = s"
  by (auto simp: in_write_def split: sum.splits)

lemma in_write_Inr:
  "in_write m s = (Inr x, t) \<longleftrightarrow> (\<exists>t'. m (tx_begin s) = Inr (x, t') \<and> t = tx_commit t')"
  by (auto simp: in_write_def split: sum.splits)

text \<open>An invariant of the tables does not look at the events, the clock or the ids.\<close>

definition table_invariant :: "(db \<Rightarrow> bool) \<Rightarrow> bool" where
  "table_invariant I \<longleftrightarrow> (\<forall>s ev an ck en.
     I (s\<lparr>events := ev, announced := an, clock := ck, entropy := en\<rparr>) = I s)"

lemma table_invariantD:
  assumes "table_invariant I"
  shows "I (s\<lparr>events := ev\<rparr>) = I s" "I (s\<lparr>clock := ck\<rparr>) = I s" "I (s\<lparr>entropy := en\<rparr>) = I s"
    "I (tx_begin s) = I s" "I (tx_commit s) = I s"
proof -
  have a: "I (s\<lparr>events := ev, announced := an, clock := ck, entropy := en\<rparr>) = I s" for s ev an ck en
    using assms by (simp add: table_invariant_def)
  show "I (s\<lparr>events := ev\<rparr>) = I s"
    using a [where s = s and ev = ev and an = "announced s" and ck = "clock s" and en = "entropy s"] by simp
  show "I (s\<lparr>clock := ck\<rparr>) = I s"
    using a [where s = s and ev = "events s" and an = "announced s" and ck = ck and en = "entropy s"] by simp
  show "I (s\<lparr>entropy := en\<rparr>) = I s"
    using a [where s = s and ev = "events s" and an = "announced s" and ck = "clock s" and en = en] by simp
  show "I (tx_begin s) = I s"
    using a [where s = s and ev = "[]" and an = "announced s" and ck = "clock s" and en = "entropy s"] by (simp add: tx_begin_def)
  show "I (tx_commit s) = I s"
    using a [where s = s and ev = "[]" and an = "announced s @ events s" and ck = "clock s" and en = "entropy s"] by (simp add: tx_commit_def)
qed

lemma preserves_ctx_now: "table_invariant I \<Longrightarrow> preserves I ctx_now"
  by (rule preservesI) (auto simp: ctx_now_def table_invariantD)

lemma preserves_random_id: "table_invariant I \<Longrightarrow> preserves I random_id"
  by (rule preservesI) (auto simp: random_id_def table_invariantD)

lemma preserves_tx_publish: "table_invariant I \<Longrightarrow> preserves I (tx_publish e)"
  by (rule preservesI) (auto simp: tx_publish_def table_invariantD)

text \<open>How the parts of a transaction that are not tables run.\<close>

lemma wp_ctx [wp_simps]:
  "wp ctx_now Q s = Q (shd (clock s)) (s\<lparr>clock := stl (clock s)\<rparr>)"
  "wp random_id R s = R (shd (entropy s)) (s\<lparr>entropy := stl (entropy s)\<rparr>)"
  "wp (tx_publish e) T s = T () (s\<lparr>events := events s @ [e]\<rparr>)"
  by (auto simp: wp_def ctx_now_def random_id_def tx_publish_def)

text \<open>An invariant the body keeps is an invariant of the whole transaction, committed or not.\<close>

lemma in_write_invariant:
  assumes "table_invariant I" and "preserves I m" and "I s"
  shows "I (snd (in_write m s))"
proof (cases "m (tx_begin s)")
  case (Inl e)
  then show ?thesis using assms(3) by (simp add: in_write_def)
next
  case (Inr r)
  then obtain x t where r: "m (tx_begin s) = Inr (x, t)" by (cases r) auto
  have "I t" using preservesD [OF assms(2) r] assms(1,3) by (simp add: table_invariantD)
  then show ?thesis using r assms(1) by (simp add: in_write_def table_invariantD)
qed

subsection \<open>Generic tables\<close>

definition find_row :: "('r \<Rightarrow> id) \<Rightarrow> id \<Rightarrow> 'r list \<Rightarrow> 'r option" where
  "find_row key i rs = List.find (\<lambda>r. key r = i) rs"

definition replace_row :: "('r \<Rightarrow> id) \<Rightarrow> 'r \<Rightarrow> 'r list \<Rightarrow> 'r list" where
  "replace_row key row rs = map (\<lambda>r. if key r = key row then row else r) rs"

definition insert_row ::
  "('s \<Rightarrow> 'r list) \<Rightarrow> (('r list \<Rightarrow> 'r list) \<Rightarrow> 's \<Rightarrow> 's) \<Rightarrow> ('r \<Rightarrow> id) \<Rightarrow> ('s \<Rightarrow> 'r \<Rightarrow> bool) \<Rightarrow> 'r \<Rightarrow> ('s, 'r) tx" where
  "insert_row rows upd key ok row = (\<lambda>s.
     if key row \<in> key ` set (rows s) \<or> \<not> ok s row
     then Inl (Integrity (Msg ''constraint failed'' []))
     else Inr (row, upd (\<lambda>rs. rs @ [row]) s))"

definition update_row ::
  "('s \<Rightarrow> 'r list) \<Rightarrow> (('r list \<Rightarrow> 'r list) \<Rightarrow> 's \<Rightarrow> 's) \<Rightarrow> ('r \<Rightarrow> id) \<Rightarrow> ('s \<Rightarrow> 'r \<Rightarrow> bool) \<Rightarrow> 'r \<Rightarrow> ('s, 'r) tx" where
  "update_row rows upd key ok row = (\<lambda>s.
     if key row \<notin> key ` set (rows s)
     then Inl (Internal (Msg ''none of the records are updated'' []))
     else if \<not> ok s row then Inl (Integrity (Msg ''constraint failed'' []))
     else Inr (row, upd (replace_row key row) s))"

lemma find_row_Some: "find_row key i rs = Some r \<Longrightarrow> r \<in> set rs \<and> key r = i"
  by (auto simp: find_row_def find_Some_iff)

lemma find_row_None: "find_row key i rs = None \<longleftrightarrow> i \<notin> key ` set rs"
  by (auto simp: find_row_def find_None_iff)

lemma find_row_key:
  "distinct (map key rs) \<Longrightarrow> r \<in> set rs \<Longrightarrow> find_row key (key r) rs = Some r"
  by (induction rs) (force simp: find_row_def)+

lemma find_row_append:
  "find_row key i (rs @ rs') = (case find_row key i rs of Some r \<Rightarrow> Some r | None \<Rightarrow> find_row key i rs')"
  by (induction rs) (auto simp: find_row_def)

lemma replace_row_keys [simp]: "map key (replace_row key row rs) = map key rs"
  by (simp add: replace_row_def)

lemma replace_row_key_set [simp]: "key ` set (replace_row key row rs) = key ` set rs"
  by (metis list.set_map replace_row_keys)

lemma length_replace_row [simp]: "length (replace_row key row rs) = length rs"
  by (simp add: replace_row_def)

lemma find_replace_row:
  "find_row key i (replace_row key row rs) =
     (if i = key row then map_option (\<lambda>_. row) (find_row key i rs) else find_row key i rs)"
  by (induction rs) (auto simp: find_row_def replace_row_def)

lemma set_replace_row:
  "r \<in> set (replace_row key row rs) \<longleftrightarrow>
     (r = row \<and> key row \<in> key ` set rs) \<or> (r \<in> set rs \<and> key r \<noteq> key row)"
  by (auto simp: replace_row_def image_iff split: if_splits) metis+

lemma replace_row_id:
  "distinct (map key rs) \<Longrightarrow> row \<in> set rs \<Longrightarrow> replace_row key row rs = rs"
  unfolding replace_row_def by (rule map_idI) (auto simp: distinct_map inj_on_def)

text \<open>
  The contract of a table: \<open>rows\<close> reads it out of the state, \<open>upd\<close> writes it back and
  touches nothing else. What a client relies on follows once for every table.
\<close>

locale keyed_table =
  fixes rows :: "'s \<Rightarrow> 'r list"
    and upd :: "('r list \<Rightarrow> 'r list) \<Rightarrow> 's \<Rightarrow> 's"
    and key :: "'r \<Rightarrow> id"
    and ok :: "'s \<Rightarrow> 'r \<Rightarrow> bool"
  assumes rows_upd: "rows (upd f s) = f (rows s)"
begin

lemma insert_Inr:
  "insert_row rows upd key ok row s = Inr (x, t) \<longleftrightarrow>
     x = row \<and> key row \<notin> key ` set (rows s) \<and> ok s row \<and> t = upd (\<lambda>rs. rs @ [row]) s"
  by (auto simp: insert_row_def)

lemma update_Inr:
  "update_row rows upd key ok row s = Inr (x, t) \<longleftrightarrow>
     x = row \<and> key row \<in> key ` set (rows s) \<and> ok s row \<and> t = upd (replace_row key row) s"
  by (auto simp: update_row_def)

lemma find_after_insert:
  "insert_row rows upd key ok row s = Inr (x, t) \<Longrightarrow>
     find_row key i (rows t) = (if i = key row then Some row else find_row key i (rows s))"
  using find_row_None [of key "key row" "rows s"]
  by (auto simp: insert_Inr rows_upd find_row_append split: option.splits)
    (auto simp: find_row_def)

lemma find_after_update:
  "update_row rows upd key ok row s = Inr (x, t) \<Longrightarrow>
     find_row key i (rows t) = (if i = key row then Some row else find_row key i (rows s))"
  using find_row_None [of key "key row" "rows s"]
  by (auto simp: update_Inr rows_upd find_replace_row)

lemma distinct_insert: "preserves (\<lambda>s. distinct (map key (rows s))) (insert_row rows upd key ok row)"
  by (rule preservesI) (auto simp: insert_Inr rows_upd)

lemma distinct_update: "preserves (\<lambda>s. distinct (map key (rows s))) (update_row rows upd key ok row)"
  by (rule preservesI) (simp add: update_Inr rows_upd)

end

subsection \<open>The constraints of each table\<close>

definition task_exists :: "db \<Rightarrow> id \<Rightarrow> bool" where
  "task_exists s i = (i \<in> tk_id ` set (tasks s))"

definition step_exists :: "db \<Rightarrow> id \<Rightarrow> bool" where
  "step_exists s i = (i \<in> ts_id ` set (task_steps s))"

definition task_ok :: "db \<Rightarrow> task \<Rightarrow> bool" where
  "task_ok s t = (tk_project_id t \<in> pr_id ` set (projects s))"

definition step_ok :: "db \<Rightarrow> task_step \<Rightarrow> bool" where
  "step_ok s step = task_exists s (ts_task_id step)"

definition link_ok :: "db \<Rightarrow> step_link \<Rightarrow> bool" where
  "link_ok s link =
     (task_exists s (sl_task_id link) \<and> step_exists s (sl_from_step_id link)
      \<and> (case sl_to_step_id link of None \<Rightarrow> True | Some to \<Rightarrow> step_exists s to)
      \<and> list_all (\<lambda>l. sl_id l = sl_id link \<or> \<not> (sl_from_step_id l = sl_from_step_id link \<and> sl_outcome l = sl_outcome link))
          (step_links s))"

definition visit_ok :: "db \<Rightarrow> step_visit \<Rightarrow> bool" where
  "visit_ok s v =
     (task_exists s (sv_task_id v) \<and> step_exists s (sv_step_id v)
      \<and> list_all (\<lambda>w. sv_id w = sv_id v \<or> \<not> (sv_task_id w = sv_task_id v \<and> sv_ordinal w = sv_ordinal v))
          (step_visits s))"

definition entry_ok :: "db \<Rightarrow> time_entry \<Rightarrow> bool" where
  "entry_ok s e = task_exists s (te_task_id e)"

definition dependency_ok :: "db \<Rightarrow> task_dependency \<Rightarrow> bool" where
  "dependency_ok s d =
     (task_exists s (td_task_id d) \<and> task_exists s (td_depends_on_task_id d)
      \<and> list_all (\<lambda>e. td_id e = td_id d \<or> \<not> (td_task_id e = td_task_id d \<and> td_depends_on_task_id e = td_depends_on_task_id d))
          (task_dependencies s))"

definition item_ok :: "db \<Rightarrow> run_queue_item \<Rightarrow> bool" where
  "item_ok s item = task_exists s (qi_task_id item)"

definition queue_ok :: "db \<Rightarrow> run_queue \<Rightarrow> bool" where
  "queue_ok s q = True"

definition insert_task :: "task \<Rightarrow> task action" where
  "insert_task = insert_row tasks tasks_update tk_id task_ok"
definition update_task :: "task \<Rightarrow> task action" where
  "update_task = update_row tasks tasks_update tk_id task_ok"
definition insert_step :: "task_step \<Rightarrow> task_step action" where
  "insert_step = insert_row task_steps task_steps_update ts_id step_ok"
definition update_step :: "task_step \<Rightarrow> task_step action" where
  "update_step = update_row task_steps task_steps_update ts_id step_ok"
definition insert_link :: "step_link \<Rightarrow> step_link action" where
  "insert_link = insert_row step_links step_links_update sl_id link_ok"
definition update_link :: "step_link \<Rightarrow> step_link action" where
  "update_link = update_row step_links step_links_update sl_id link_ok"
definition insert_visit :: "step_visit \<Rightarrow> step_visit action" where
  "insert_visit = insert_row step_visits step_visits_update sv_id visit_ok"
definition update_visit :: "step_visit \<Rightarrow> step_visit action" where
  "update_visit = update_row step_visits step_visits_update sv_id visit_ok"
definition insert_entry :: "time_entry \<Rightarrow> time_entry action" where
  "insert_entry = insert_row time_entries time_entries_update te_id entry_ok"
definition update_entry :: "time_entry \<Rightarrow> time_entry action" where
  "update_entry = update_row time_entries time_entries_update te_id entry_ok"
definition insert_dependency :: "task_dependency \<Rightarrow> task_dependency action" where
  "insert_dependency = insert_row task_dependencies task_dependencies_update td_id dependency_ok"
definition insert_queue :: "run_queue \<Rightarrow> run_queue action" where
  "insert_queue = insert_row run_queues run_queues_update rq_id queue_ok"
definition update_queue :: "run_queue \<Rightarrow> run_queue action" where
  "update_queue = update_row run_queues run_queues_update rq_id queue_ok"
definition insert_item :: "run_queue_item \<Rightarrow> run_queue_item action" where
  "insert_item = insert_row run_queue_items run_queue_items_update qi_id item_ok"
definition update_item :: "run_queue_item \<Rightarrow> run_queue_item action" where
  "update_item = update_row run_queue_items run_queue_items_update qi_id item_ok"

interpretation task_table: keyed_table tasks tasks_update tk_id task_ok
  by unfold_locales simp
interpretation step_table: keyed_table task_steps task_steps_update ts_id step_ok
  by unfold_locales simp
interpretation link_table: keyed_table step_links step_links_update sl_id link_ok
  by unfold_locales simp
interpretation visit_table: keyed_table step_visits step_visits_update sv_id visit_ok
  by unfold_locales simp
interpretation entry_table: keyed_table time_entries time_entries_update te_id entry_ok
  by unfold_locales simp
interpretation dependency_table: keyed_table task_dependencies task_dependencies_update td_id dependency_ok
  by unfold_locales simp
interpretation queue_table: keyed_table run_queues run_queues_update rq_id queue_ok
  by unfold_locales simp
interpretation item_table: keyed_table run_queue_items run_queue_items_update qi_id item_ok
  by unfold_locales simp

lemmas insert_defs = insert_task_def insert_step_def insert_link_def insert_visit_def insert_entry_def
  insert_dependency_def insert_queue_def insert_item_def
lemmas update_defs = update_task_def update_step_def update_link_def update_visit_def update_entry_def
  update_queue_def update_item_def
lemmas insert_Inr = task_table.insert_Inr step_table.insert_Inr link_table.insert_Inr
  visit_table.insert_Inr entry_table.insert_Inr dependency_table.insert_Inr queue_table.insert_Inr
  item_table.insert_Inr
lemmas update_Inr = task_table.update_Inr step_table.update_Inr link_table.update_Inr
  visit_table.update_Inr entry_table.update_Inr queue_table.update_Inr item_table.update_Inr

text \<open>Deleting a step takes the routes at either end of it and its visits along.\<close>

definition delete_step_row :: "id \<Rightarrow> unit action" where
  "delete_step_row i = tx_modify (\<lambda>s. s\<lparr>
     task_steps := filter (\<lambda>r. ts_id r \<noteq> i) (task_steps s),
     step_links := filter (\<lambda>l. sl_from_step_id l \<noteq> i \<and> sl_to_step_id l \<noteq> Some i) (step_links s),
     step_visits := filter (\<lambda>v. sv_step_id v \<noteq> i) (step_visits s)\<rparr>)"

definition delete_link :: "id \<Rightarrow> unit action" where
  "delete_link i = tx_modify (\<lambda>s. s\<lparr>step_links := filter (\<lambda>l. sl_id l \<noteq> i) (step_links s)\<rparr>)"

subsection \<open>Writing only what changed\<close>

definition update_if_changed ::
  "('r \<Rightarrow> 'r action) \<Rightarrow> (instant \<Rightarrow> 'r \<Rightarrow> 'r) \<Rightarrow> ('r \<Rightarrow> unit result) \<Rightarrow> 'r \<Rightarrow> 'r \<Rightarrow> 'r action" where
  "update_if_changed update stamp validate before after = tx_bind ctx_now (\<lambda>now.
     if after = before then tx_ok after
     else let stamped = stamp now after
          in tx_bind (tx_lift (validate stamped)) (\<lambda>_.
             tx_bind (update stamped) (\<lambda>_. tx_ok stamped)))"

definition save_step :: "task_step \<Rightarrow> task_step \<Rightarrow> task_step action" where
  "save_step = update_if_changed update_step (\<lambda>now r. r\<lparr>ts_updated_at := now\<rparr>) step_validate"

definition save_link :: "step_link \<Rightarrow> step_link \<Rightarrow> step_link action" where
  "save_link = update_if_changed update_link (\<lambda>now r. r\<lparr>sl_updated_at := now\<rparr>) link_validate"

definition save_task :: "task \<Rightarrow> task \<Rightarrow> task action" where
  "save_task = update_if_changed update_task (\<lambda>now r. r\<lparr>tk_updated_at := now\<rparr>) task_validate"

subsection \<open>Repositories\<close>

definition find_project :: "id \<Rightarrow> db \<Rightarrow> project option" where
  "find_project i s = find_row pr_id i (projects s)"

definition projects_by_label :: "unicode_case \<Rightarrow> str \<Rightarrow> db \<Rightarrow> project list" where
  "projects_by_label u label s =
     sort_key pr_created_at (sort_key pr_id (filter (\<lambda>p. pr_label p = lowered u label) (projects s)))"

definition find_task :: "id \<Rightarrow> db \<Rightarrow> task option" where
  "find_task i s = find_row tk_id i (tasks s)"

definition require_task :: "id \<Rightarrow> task action" where
  "require_task i = tx_bind (tx_gets (find_task i)) (\<lambda>found. case found of
       None \<Rightarrow> tx_fail (NotFound (Msg ''no task with id'' [])) | Some t \<Rightarrow> tx_ok t)"

definition tasks_by_label :: "unicode_case \<Rightarrow> str \<Rightarrow> db \<Rightarrow> task list" where
  "tasks_by_label u label s =
     sort_key tk_created_at (sort_key tk_id (filter (\<lambda>t. tk_label t = lowered u label) (tasks s)))"

definition at_most_one :: "'r list \<Rightarrow> 'r option result" where
  "at_most_one rows = (case rows of [] \<Rightarrow> Inr None | [r] \<Rightarrow> Inr (Some r)
     | _ \<Rightarrow> Inl (Internal (Msg ''query did not return a unique result'' [])))"

definition tasks_by_anchor :: "unicode_case \<Rightarrow> str \<Rightarrow> str \<Rightarrow> db \<Rightarrow> task list" where
  "tasks_by_anchor u project_label label s =
     filter (\<lambda>t. tk_label t = lowered u label
         \<and> list_ex (\<lambda>p. pr_id p = tk_project_id t \<and> pr_label p = lowered u project_label) (projects s))
       (tasks s)"

definition find_task_by_anchor :: "unicode_case \<Rightarrow> str \<Rightarrow> str \<Rightarrow> task option action" where
  "find_task_by_anchor u project_label label =
     tx_bind (tx_gets (tasks_by_anchor u project_label label)) (\<lambda>found. tx_lift (at_most_one found))"

definition tasks_of_project :: "id \<Rightarrow> db \<Rightarrow> task list" where
  "tasks_of_project i s = filter (\<lambda>t. tk_project_id t = i) (tasks s)"

definition label_taken :: "unicode_case \<Rightarrow> id \<Rightarrow> str \<Rightarrow> id option \<Rightarrow> db \<Rightarrow> bool" where
  "label_taken u project_id label except s =
     list_ex (\<lambda>t. tk_project_id t = project_id \<and> tk_label t = lowered u label \<and> except \<noteq> Some (tk_id t)) (tasks s)"

definition find_step :: "id \<Rightarrow> db \<Rightarrow> task_step option" where
  "find_step i s = find_row ts_id i (task_steps s)"

definition require_step :: "id \<Rightarrow> task_step action" where
  "require_step i = tx_bind (tx_gets (find_step i)) (\<lambda>found. case found of
       None \<Rightarrow> tx_fail (NotFound (Msg ''no step with id'' [])) | Some r \<Rightarrow> tx_ok r)"

definition steps_of :: "id \<Rightarrow> db \<Rightarrow> task_step list" where
  "steps_of i s = sort_key ts_position (filter (\<lambda>r. ts_task_id r = i) (task_steps s))"

definition find_link :: "id \<Rightarrow> db \<Rightarrow> step_link option" where
  "find_link i s = find_row sl_id i (step_links s)"

definition require_link :: "id \<Rightarrow> step_link action" where
  "require_link i = tx_bind (tx_gets (find_link i)) (\<lambda>found. case found of
       None \<Rightarrow> tx_fail (NotFound (Msg ''no route with id'' [])) | Some r \<Rightarrow> tx_ok r)"

definition links_of_task :: "id \<Rightarrow> db \<Rightarrow> step_link list" where
  "links_of_task i s =
     sort_key sl_position (sort_key sl_created_at (filter (\<lambda>l. sl_task_id l = i) (step_links s)))"

definition links_list_from :: "id \<Rightarrow> db \<Rightarrow> step_link list" where
  "links_list_from i s =
     sort_key sl_position (sort_key sl_created_at (filter (\<lambda>l. sl_from_step_id l = i) (step_links s)))"

definition visits_of_task :: "id \<Rightarrow> db \<Rightarrow> step_visit list" where
  "visits_of_task i s = sort_key sv_ordinal (filter (\<lambda>v. sv_task_id v = i) (step_visits s))"

definition find_open_visit :: "id \<Rightarrow> db \<Rightarrow> step_visit option" where
  "find_open_visit i s =
     (case rev (filter (\<lambda>v. sv_left_at v = None) (visits_of_task i s)) of [] \<Rightarrow> None | v # _ \<Rightarrow> Some v)"

definition count_visits_of_step :: "id \<Rightarrow> db \<Rightarrow> nat" where
  "count_visits_of_step i s = length (filter (\<lambda>v. sv_step_id v = i) (step_visits s))"

definition last_ordinal :: "id \<Rightarrow> db \<Rightarrow> int" where
  "last_ordinal i s = (case rev (visits_of_task i s) of [] \<Rightarrow> 0 | v # _ \<Rightarrow> sv_ordinal v)"

definition delete_visits_of_task :: "id \<Rightarrow> nat action" where
  "delete_visits_of_task i = (\<lambda>s. Inr (length (filter (\<lambda>v. sv_task_id v = i) (step_visits s)),
     s\<lparr>step_visits := filter (\<lambda>v. sv_task_id v \<noteq> i) (step_visits s)\<rparr>))"

definition running_entry_of_task :: "id \<Rightarrow> time_entry option action" where
  "running_entry_of_task i = tx_bind
     (tx_gets (\<lambda>s. filter (\<lambda>e. te_task_id e = i \<and> te_stopped_at e = None) (time_entries s)))
     (\<lambda>found. tx_lift (at_most_one found))"

definition running_entries :: "db \<Rightarrow> time_entry list" where
  "running_entries s = filter (\<lambda>e. te_stopped_at e = None) (time_entries s)"

definition find_entry :: "id \<Rightarrow> db \<Rightarrow> time_entry option" where
  "find_entry i s = find_row te_id i (time_entries s)"

definition wrapup_of :: "id \<Rightarrow> db \<Rightarrow> wrapup option" where
  "wrapup_of i s = List.find (\<lambda>w. wr_task_id w = i) (wrapups s)"

definition documents_of_task :: "id \<Rightarrow> db \<Rightarrow> document list" where
  "documents_of_task i s =
     List.map_filter (\<lambda>l. find_row dc_id (dt_document_id l) (documents s))
       (sort_key dt_position (filter (\<lambda>l. dt_task_id l = i) (document_tasks s)))"

definition dependencies_of_task :: "id \<Rightarrow> db \<Rightarrow> task_dependency list" where
  "dependencies_of_task i s = sort_key td_created_at (filter (\<lambda>d. td_task_id d = i) (task_dependencies s))"

definition dependencies_of_project :: "id \<Rightarrow> db \<Rightarrow> task_dependency list" where
  "dependencies_of_project i s =
     sort_key td_created_at
       (filter (\<lambda>d. td_task_id d \<in> tk_id ` set (tasks_of_project i s)) (task_dependencies s))"

definition find_pair :: "id \<Rightarrow> id \<Rightarrow> db \<Rightarrow> task_dependency option" where
  "find_pair i j s = List.find (\<lambda>d. td_task_id d = i \<and> td_depends_on_task_id d = j) (task_dependencies s)"

definition oldest_queue :: "db \<Rightarrow> run_queue option" where
  "oldest_queue s = (case sort_key rq_created_at (run_queues s) of [] \<Rightarrow> None | q # _ \<Rightarrow> Some q)"

definition items_in_order :: "db \<Rightarrow> run_queue_item list" where
  "items_in_order s = sort_key qi_position (run_queue_items s)"

definition find_item :: "id \<Rightarrow> db \<Rightarrow> run_queue_item option" where
  "find_item i s = find_row qi_id i (run_queue_items s)"

text \<open>The definitions above, for running the model on concrete input.\<close>

lemmas store_run [run_defs] = ctx_now_def random_id_def tx_publish_def tx_begin_def tx_commit_def in_write_def in_read_def
  find_row_def replace_row_def insert_row_def update_row_def task_exists_def step_exists_def
  task_ok_def step_ok_def link_ok_def visit_ok_def entry_ok_def dependency_ok_def item_ok_def
  queue_ok_def insert_task_def update_task_def insert_step_def update_step_def insert_link_def
  update_link_def insert_visit_def update_visit_def insert_entry_def update_entry_def
  insert_dependency_def insert_queue_def update_queue_def insert_item_def update_item_def
  delete_step_row_def delete_link_def update_if_changed_def save_step_def save_link_def
  save_task_def find_project_def projects_by_label_def find_task_def require_task_def
  tasks_by_label_def at_most_one_def tasks_by_anchor_def find_task_by_anchor_def
  tasks_of_project_def label_taken_def find_step_def require_step_def steps_of_def find_link_def
  require_link_def links_of_task_def links_list_from_def visits_of_task_def find_open_visit_def
  count_visits_of_step_def last_ordinal_def delete_visits_of_task_def running_entry_of_task_def
  running_entries_def find_entry_def wrapup_of_def documents_of_task_def
  dependencies_of_task_def dependencies_of_project_def find_pair_def oldest_queue_def
  items_in_order_def find_item_def

end
