(* ===== verification/Load.thy ===== *)
theory Load
  imports Store
begin

section \<open>Reads the services share\<close>

text \<open>
  \<^verbatim>\<open>rekall-core/src/load.rs\<close>: a task by id or by its anchors, a project by its label, a
  step by its number or title.
\<close>

definition task_or_unknown :: "id \<Rightarrow> task action" where
  "task_or_unknown i = tx_bind (tx_gets (find_task i)) (\<lambda>found. case found of
       None \<Rightarrow> tx_fail (UnknownAnchor (Msg ''no task with id'' [])) | Some t \<Rightarrow> tx_ok t)"

definition project_of :: "task \<Rightarrow> project action" where
  "project_of t = tx_bind (tx_gets (find_project (tk_project_id t))) (\<lambda>found. case found of
       None \<Rightarrow> tx_fail (Internal (Msg ''Integrity: task has no project'' [])) | Some p \<Rightarrow> tx_ok p)"

definition review_active_of :: "id \<Rightarrow> db \<Rightarrow> bool" where
  "review_active_of i s = review_active (map ts_state (steps_of i s))"

definition resolve_task :: "unicode_case \<Rightarrow> str option \<Rightarrow> str \<Rightarrow> task action" where
  "resolve_task u project_label task_label = (case project_label of
       Some pl \<Rightarrow> tx_bind (find_task_by_anchor u pl task_label) (\<lambda>found. case found of
           None \<Rightarrow> tx_fail (UnknownAnchor (Msg ''no task on project'' [task_label, pl]))
         | Some t \<Rightarrow> tx_ok t)
     | None \<Rightarrow> tx_bind (tx_gets (tasks_by_label u task_label)) (\<lambda>found.
         if found = [] then tx_fail (UnknownAnchor (Msg ''no task matches'' [task_label]))
         else if length found > 1
         then tx_bind (tx_map (\<lambda>t. tx_bind (project_of t) (\<lambda>p. tx_ok (project_anchor p))) found) (\<lambda>candidates.
              tx_fail (AmbiguousAnchor (Msg ''matches several records'' (task_label # candidates)) candidates))
         else tx_ok (hd found)))"

definition resolve_project :: "unicode_case \<Rightarrow> str \<Rightarrow> project action" where
  "resolve_project u label = tx_bind (tx_gets (projects_by_label u label)) (\<lambda>found. case found of
       [] \<Rightarrow> tx_fail (UnknownAnchor (Msg ''no project matches'' [label]))
     | [p] \<Rightarrow> tx_ok p
     | _ \<Rightarrow> (let candidates = map (\<lambda>p. project_anchor p @ lit '' ('' @ pr_title p @ lit '')'') found
             in tx_fail (AmbiguousAnchor (Msg ''matches several records'' (label # candidates)) candidates)))"

definition step_by_number :: "task_step list \<Rightarrow> str \<Rightarrow> task_step result" where
  "step_by_number ordered number = (case parse_u64 number of
       Some n \<Rightarrow> if 1 \<le> n \<and> n \<le> length ordered then Inr (ordered ! (n - 1))
                  else Inl (IllegalArgument (Msg ''there is no such step number'' [number]))
     | None \<Rightarrow> Inl (IllegalArgument (Msg ''there is no such step number'' [number])))"

text \<open>The step \<open>reference\<close> names in the checklist \<open>ordered\<close>.\<close>

definition pick_step :: "unicode_case \<Rightarrow> task_step list \<Rightarrow> str option \<Rightarrow> task_step result" where
  "pick_step u ordered reference =
     (if ordered = [] then Inl (IllegalArgument (Msg ''that task has no steps to move'' []))
      else let trimmed = (case reference of None \<Rightarrow> [] | Some r \<Rightarrow> strip r) in
        if trimmed \<noteq> [] \<and> list_all (decimal_digit u) trimmed then step_by_number ordered trimmed
        else case filter (\<lambda>step. equals_ignore_case u (strip (ts_title step)) trimmed) ordered of
               [step] \<Rightarrow> Inr step
             | _ \<Rightarrow> Inl (IllegalArgument (Msg ''no step matches'' (trimmed # map ts_title ordered))))"

definition resolve_step :: "unicode_case \<Rightarrow> id \<Rightarrow> str option \<Rightarrow> task_step action" where
  "resolve_step u task_id reference =
     tx_bind (tx_gets (steps_of task_id)) (\<lambda>ordered. tx_lift (pick_step u ordered reference))"

subsection \<open>What a successful read answers\<close>

lemma task_or_unknown_Inr:
  "task_or_unknown i s = Inr (t, s') \<longleftrightarrow> find_task i s = Some t \<and> s' = s"
  by (auto simp: task_or_unknown_def tx_bind_Inr split: option.splits)

lemma require_task_Inr: "require_task i s = Inr (t, s') \<longleftrightarrow> find_task i s = Some t \<and> s' = s"
  by (auto simp: require_task_def tx_bind_Inr split: option.splits)

lemma require_step_Inr: "require_step i s = Inr (r, s') \<longleftrightarrow> find_step i s = Some r \<and> s' = s"
  by (auto simp: require_step_def tx_bind_Inr split: option.splits)

lemma require_link_Inr: "require_link i s = Inr (r, s') \<longleftrightarrow> find_link i s = Some r \<and> s' = s"
  by (auto simp: require_link_def tx_bind_Inr split: option.splits)

lemma project_of_Inr: "project_of t s = Inr (p, s') \<longleftrightarrow> find_project (tk_project_id t) s = Some p \<and> s' = s"
  by (auto simp: project_of_def tx_bind_Inr split: option.splits)

lemma at_most_one_Inr: "at_most_one rs = Inr (Some r) \<longleftrightarrow> rs = [r]"
  by (auto simp: at_most_one_def split: list.splits)

lemma resolve_task_Inr:
  assumes "resolve_task u pl label s = Inr (t, s')"
  shows "s' = s" "t \<in> set (tasks s)" "tk_label t = lowered u label"
proof -
  have "s' = s \<and> t \<in> set (tasks s) \<and> tk_label t = lowered u label"
  proof (cases pl)
    case None
    then have "s' = s" "t = hd (tasks_by_label u label s)" "tasks_by_label u label s \<noteq> []"
      using assms by (auto simp: resolve_task_def tx_bind_Inr split: if_splits)
    then have "t \<in> set (tasks_by_label u label s)" by simp
    then show ?thesis using \<open>s' = s\<close> by (simp add: tasks_by_label_def)
  next
    case (Some p)
    then have "s' = s" "tasks_by_anchor u p label s = [t]"
      using assms
      by (auto simp: resolve_task_def find_task_by_anchor_def tx_bind_Inr at_most_one_Inr split: option.splits)
    then have "t \<in> set (tasks_by_anchor u p label s)" by simp
    then show ?thesis using \<open>s' = s\<close> by (simp add: tasks_by_anchor_def)
  qed
  then show "s' = s" "t \<in> set (tasks s)" "tk_label t = lowered u label" by auto
qed

lemma pick_step_Inr: "pick_step u ordered reference = Inr step \<Longrightarrow> step \<in> set ordered"
proof -
  assume "pick_step u ordered reference = Inr step"
  moreover have "step_by_number ordered n = Inr step \<Longrightarrow> step \<in> set ordered" for n
    by (auto simp: step_by_number_def split: option.splits if_splits)
  moreover have "filter p ordered = [step] \<Longrightarrow> step \<in> set ordered" for p
    by (drule arg_cong [where f = set]) auto
  ultimately show ?thesis
    by (auto simp: pick_step_def Let_def split: if_splits list.splits option.splits)
qed

lemma resolve_step_Inr:
  assumes "resolve_step u task_id reference s = Inr (step, s')"
  shows "s' = s" "step \<in> set (task_steps s)" "ts_task_id step = task_id"
  using assms by (auto simp: resolve_step_def tx_bind_Inr steps_of_def dest!: pick_step_Inr)

lemma preserves_require [preserves_intro]:
  "preserves I (task_or_unknown i)" "preserves I (require_task i)" "preserves I (require_step i)"
  "preserves I (require_link i)" "preserves I (project_of t)"
  by (auto intro!: preservesI
      simp: task_or_unknown_Inr require_task_Inr require_step_Inr require_link_Inr project_of_Inr)

lemma preserves_resolve [preserves_intro]:
  "preserves I (resolve_task u pl label)" "preserves I (resolve_step u i reference)"
  by (auto intro!: preservesI dest: resolve_task_Inr resolve_step_Inr)

text \<open>The definitions above, for running the model on concrete input.\<close>

lemmas load_run [run_defs] = task_or_unknown_def project_of_def review_active_of_def resolve_task_def resolve_project_def
  step_by_number_def pick_step_def resolve_step_def

end
