(* ===== verification/Positions.thy ===== *)
theory Positions
  imports Store "HOL-Library.Multiset"
begin

section \<open>Lists kept in order by a position column\<close>

text \<open>
  The checklist of a task and the run queue both keep their order in an integer column and
  rewrite it with a routine called \<^verbatim>\<open>renumber\<close>. What such a routine promises is stated once, in
  the locale \<open>renumbering\<close>: after it, reading the rows back by position gives exactly the
  order it was handed, with the positions dense from zero.
\<close>

subsection \<open>Rows written over a table\<close>

definition overlay :: "('r \<Rightarrow> id) \<Rightarrow> 'r list \<Rightarrow> 'r list \<Rightarrow> 'r list" where
  "overlay key written rs =
     map (\<lambda>r. case find_row key (key r) written of Some r' \<Rightarrow> r' | None \<Rightarrow> r) rs"

lemma find_row_Nil [simp]: "find_row key i [] = None"
  by (simp add: find_row_def)

lemma find_row_Cons: "find_row key i (r # rs) = (if key r = i then Some r else find_row key i rs)"
  by (simp add: find_row_def)

lemma overlay_Nil [simp]: "overlay key [] rs = rs"
  by (simp add: overlay_def)

lemma overlay_Cons:
  "key x \<notin> key ` set written \<Longrightarrow>
     overlay key (x # written) rs = overlay key written (replace_row key x rs)"
  using find_row_None [of key "key x" written]
  by (auto simp: overlay_def replace_row_def find_row_Cons)

lemma overlay_keys [simp]: "map key (overlay key written rs) = map key rs"
  by (auto simp: overlay_def dest!: find_row_Some split: option.splits)

lemma set_overlay:
  assumes "distinct (map key written)" and "key ` set written \<subseteq> key ` set rs"
  shows "set (overlay key written rs) = set written \<union> {r \<in> set rs. key r \<notin> key ` set written}"
    (is "?L = ?R")
proof
  show "?L \<subseteq> ?R"
  proof
    fix r assume "r \<in> ?L"
    then obtain r0 where r0: "r0 \<in> set rs"
      and r: "r = (case find_row key (key r0) written of Some r' \<Rightarrow> r' | None \<Rightarrow> r0)"
      by (auto simp: overlay_def)
    show "r \<in> ?R"
    proof (cases "find_row key (key r0) written")
      case None
      then have "r = r0" "key r0 \<notin> key ` set written" using r by (simp_all add: find_row_None [symmetric])
      then show ?thesis using r0 by simp
    next
      case (Some r')
      then show ?thesis using r find_row_Some [OF Some] by simp
    qed
  qed
  show "?R \<subseteq> ?L"
  proof
    fix r assume "r \<in> ?R"
    then consider "r \<in> set written" | "r \<in> set rs" "key r \<notin> key ` set written" by auto
    then show "r \<in> ?L"
    proof cases
      case 1
      then obtain r0 where r0: "r0 \<in> set rs" "key r0 = key r" using assms(2) by force
      then have "find_row key (key r0) written = Some r" using find_row_key [OF assms(1) 1] by simp
      then show ?thesis using r0(1) by (force simp: overlay_def)
    next
      case 2
      then have "find_row key (key r) written = None" by (simp add: find_row_None)
      then show ?thesis using 2(1) by (force simp: overlay_def)
    qed
  qed
qed

subsection \<open>The contract of a renumbering routine\<close>

text \<open>\<open>place n r\<close>: the rows \<open>r\<close> may become when it is moved to position \<open>n\<close>.\<close>

locale renumbering =
  fixes rows :: "'s \<Rightarrow> 'r list"
    and key :: "'r \<Rightarrow> id"
    and pos :: "'r \<Rightarrow> int"
    and place :: "int \<Rightarrow> 'r \<Rightarrow> 'r set"
    and renum :: "'r list \<Rightarrow> ('s, 'x) tx"
  assumes place_key: "r' \<in> place n r \<Longrightarrow> key r' = key r"
    and place_pos: "r' \<in> place n r \<Longrightarrow> pos r' = n"
    and renum_rows: "\<lbrakk>renum ordered s = Inr (x, t); distinct (map key (rows s));
      distinct (map key ordered); set ordered \<subseteq> set (rows s)\<rbrakk> \<Longrightarrow>
      \<exists>written. rows t = overlay key written (rows s)
        \<and> list_all2 (\<lambda>(at, r) r'. r' \<in> place (as_i32 (int at)) r) (enumerate 0 ordered) written"
begin

lemma placed_keys:
  "list_all2 (\<lambda>(at, r) r'. r' \<in> place (as_i32 (int at)) r) (enumerate n ordered) written \<Longrightarrow>
     map key written = map key ordered"
  by (induction ordered arbitrary: n written) (auto simp: list_all2_Cons1 place_key)

lemma placed_positions:
  "list_all2 (\<lambda>(at, r) r'. r' \<in> place (as_i32 (int at)) r) (enumerate n ordered) written \<Longrightarrow>
     n + length ordered \<le> 2 ^ 31 \<Longrightarrow> map pos written = map int [n..<n + length ordered]"
proof (induction ordered arbitrary: n written)
  case (Cons r ordered)
  then obtain r' rest where w: "written = r' # rest" and r': "r' \<in> place (as_i32 (int n)) r"
    and rest: "list_all2 (\<lambda>(at, r) r'. r' \<in> place (as_i32 (int at)) r) (enumerate (Suc n) ordered) rest"
    by (auto simp: list_all2_Cons1)
  have "map pos rest = map int [Suc n..<Suc n + length ordered]"
    using Cons.IH [OF rest] Cons.prems(2) by simp
  moreover have "pos r' = int n"
    using place_pos [OF r'] Cons.prems(2) by (simp add: as_i32_id)
  ultimately show ?case by (simp add: w upt_rec)
qed simp

text \<open>
  Reading the rows of one list (those that satisfy \<open>P\<close>) back by position after the whole
  list was renumbered.
\<close>

lemma listing_after_renum:
  assumes run: "renum ordered s = Inr (x, t)" and keys: "distinct (map key (rows s))"
    and ord: "distinct (map key ordered)" and P: "set ordered = {r \<in> set (rows s). P r}"
    and resp: "\<And>n r r'. r' \<in> place n r \<Longrightarrow> P r' = P r"
    and size: "length ordered \<le> 2 ^ 31"
  shows "list_all2 (\<lambda>(at, r) r'. r' \<in> place (int at) r) (enumerate 0 ordered) (sort_key pos (filter P (rows t)))"
    and "map pos (sort_key pos (filter P (rows t))) = map int [0..<length ordered]"
    and "map key (sort_key pos (filter P (rows t))) = map key ordered"
    and "{r \<in> set (rows t). \<not> P r} = {r \<in> set (rows s). \<not> P r}"
    and "map key (rows t) = map key (rows s)"
proof -
  obtain written where t: "rows t = overlay key written (rows s)"
    and placed: "list_all2 (\<lambda>(at, r) r'. r' \<in> place (as_i32 (int at)) r) (enumerate 0 ordered) written"
    using renum_rows [OF run keys ord] P by auto
  have kw: "map key written = map key ordered" by (rule placed_keys [OF placed])
  have pw: "map pos written = map int [0..<length ordered]"
    using placed_positions [OF placed] size by simp
  have dw: "distinct (map key written)" using ord kw by simp
  have kset: "key ` set written = key ` set ordered" using kw by (metis list.set_map)
  have Pw: "P r" if "r \<in> set written" for r
  proof -
    obtain k where k: "k < length written" "r = written ! k" using \<open>r \<in> set written\<close> by (metis in_set_conv_nth)
    have len: "length ordered = length written" using kw by (metis length_map)
    then have "r \<in> place (as_i32 (int k)) (ordered ! k)"
      using list_all2_nthD2 [OF placed, of k] k by (simp add: nth_enumerate_eq)
    moreover have "P (ordered ! k)" using P k(1) len nth_mem by fastforce
    ultimately show ?thesis using resp by simp
  qed
  have st: "set (rows t) = set written \<union> {r \<in> set (rows s). key r \<notin> key ` set ordered}"
    unfolding t using set_overlay [OF dw, of "rows s"] P kset by auto
  have notP: "\<not> P r" if "r \<in> set (rows s)" "key r \<notin> key ` set ordered" for r
    using that P by auto
  have inj: "inj_on key (set (rows s))" using keys by (simp add: distinct_map)
  have out: "key r \<notin> key ` set ordered" if "r \<in> set (rows s)" "\<not> P r" for r
    using that P inj by (auto simp: inj_on_def)
  have "set (filter P (rows t)) = set written"
    using st Pw notP by auto
  moreover have "distinct (filter P (rows t))"
    using keys t overlay_keys [of key written "rows s"] by (metis distinct_filter distinct_map)
  moreover have "distinct written" using dw by (simp add: distinct_map)
  ultimately have "mset (filter P (rows t)) = mset written"
    by (metis set_eq_iff_mset_eq_distinct)
  moreover have "inj_on pos (set (filter P (rows t)))"
  proof -
    have "distinct (map pos written)" by (simp add: pw distinct_map inj_on_def)
    then show ?thesis using \<open>set (filter P (rows t)) = set written\<close> by (simp add: distinct_map)
  qed
  moreover have "sorted (map pos written)" by (simp add: pw sorted_map sorted_wrt_upt sorted_wrt_iff_nth_less)
  ultimately have eq: "sort_key pos (filter P (rows t)) = written"
    by (rule sort_key_inj_key_eq)
  show "map pos (sort_key pos (filter P (rows t))) = map int [0..<length ordered]"
    by (simp add: eq pw)
  show "map key (sort_key pos (filter P (rows t))) = map key ordered"
    by (simp add: eq kw)
  show "{r \<in> set (rows t). \<not> P r} = {r \<in> set (rows s). \<not> P r}"
    using st Pw out by auto
  show "map key (rows t) = map key (rows s)" by (simp add: t)
  show "list_all2 (\<lambda>(at, r) r'. r' \<in> place (int at) r) (enumerate 0 ordered) (sort_key pos (filter P (rows t)))"
    unfolding eq
  proof (rule list_all2_all_nthI)
    show len: "length (enumerate 0 ordered) = length written" using kw by (metis length_enumerate length_map)
    fix k assume k: "k < length (enumerate 0 ordered)"
    then have "as_i32 (int k) = int k" using size by (simp add: as_i32_id)
    then show "(case enumerate 0 ordered ! k of (at, r) \<Rightarrow> \<lambda>r'. r' \<in> place (int at) r) (written ! k)"
      using list_all2_nthD [OF placed, of k] k by (simp add: nth_enumerate_eq)
  qed
qed

end

subsection \<open>A row sorted to one end\<close>

lemma sort_key_largest:
  assumes "\<And>y. y \<in> set xs \<Longrightarrow> f y \<le> (f x :: 'b::linorder)"
  shows "sort_key f (xs @ [x]) = sort_key f xs @ [x]"
proof (rule properties_for_sort_key)
  show "mset (sort_key f xs @ [x]) = mset (xs @ [x])" by simp
  show "sorted (map f (sort_key f xs @ [x]))" using assms by (auto simp: sorted_append)
  fix k assume "k \<in> set (sort_key f xs @ [x])"
  have "filter (\<lambda>y. f k = f y) (sort_key f xs) = filter (\<lambda>y. f k = f y) xs" using sort_key_stable [of f "f k" xs] by (simp add: eq_commute)
  then show "filter (\<lambda>y. f k = f y) (sort_key f xs @ [x]) = filter (\<lambda>y. f k = f y) (xs @ [x])" by simp
qed

lemma sort_key_smallest:
  assumes "\<And>y. y \<in> set xs \<Longrightarrow> f x < (f y :: 'b::linorder)"
  shows "sort_key f (xs @ [x]) = x # sort_key f xs"
proof (rule properties_for_sort_key)
  show "mset (x # sort_key f xs) = mset (xs @ [x])" by simp
  show "sorted (map f (x # sort_key f xs))" using assms by (auto intro: less_imp_le)
  fix k assume k: "k \<in> set (x # sort_key f xs)"
  have "filter (\<lambda>y. f k = f y) (sort_key f xs) = filter (\<lambda>y. f k = f y) xs" using sort_key_stable [of f "f k" xs] by (simp add: eq_commute)
  moreover have "filter (\<lambda>y. f k = f y) xs = []" if "f k = f x" using assms that by (fastforce simp: filter_empty_conv)
  ultimately show "filter (\<lambda>y. f k = f y) (x # sort_key f xs) = filter (\<lambda>y. f k = f y) (xs @ [x])" by auto
qed

end
