(* ===== verification/Steps.thy ===== *)
theory Steps
  imports Load Positions
begin

section \<open>The checklist of a task\<close>

text \<open>
  \<^verbatim>\<open>rekall-core/src/step/service/task_step_service.rs\<close> and \<^verbatim>\<open>step/model\<close>: the
  console's and a session's writes to a task's steps. A method \<^verbatim>\<open>f\<close> that opens its own
  transaction is \<open>in_write\<close> of its body; \<^verbatim>\<open>f_in\<close> runs inside the caller's. Every reading of
  the clock, the one inside \<^verbatim>\<open>mark_state\<close> included, draws from the same stream.
\<close>

subsection \<open>Values the callers pass\<close>

definition PROPOSED_DRAFTS_MAX :: nat where "PROPOSED_DRAFTS_MAX = 20"

datatype staging = Ready | Drafted

datatype visit_budget = VisitBudget int

definition visit_budget_new :: "int \<Rightarrow> visit_budget result" where
  "visit_budget_new visits =
     (if \<not> (1 \<le> visits \<and> visits \<le> 99)
      then Inl (IllegalArgument (Msg ''a visit budget runs from 1 to 99'' []))
      else Inr (VisitBudget visits))"

definition budget_visits :: "visit_budget \<Rightarrow> int" where
  "budget_visits b = (case b of VisitBudget n \<Rightarrow> n)"

record flow_place =
  fp_x :: int
  fp_y :: int

text \<open>
  \<^verbatim>\<open>i32::abs\<close> of the least \<^verbatim>\<open>i32\<close> overflows: a release build wraps it to itself, which
  is negative and so passes the test.
\<close>

definition i32_abs :: "int \<Rightarrow> int" where
  "i32_abs x = as_i32 \<bar>x\<bar>"

definition flow_place_new :: "int \<Rightarrow> int \<Rightarrow> flow_place result" where
  "flow_place_new x y =
     (if i32_abs x > 20000 \<or> i32_abs y > 20000
      then Inl (IllegalArgument (Msg ''a step cannot be placed that far from the origin'' []))
      else Inr \<lparr>fp_x = x, fp_y = y\<rparr>)"

record proposed =
  pp_step :: task_step_view
  pp_draft_count :: nat

record removed =
  rm_title :: str
  rm_remaining :: nat

definition validated_title :: "str option \<Rightarrow> str result" where
  "validated_title title = (case present title of
       None \<Rightarrow> Inl (IllegalArgument (Msg ''a step needs a title'' []))
     | Some t \<Rightarrow> within t STEP_TITLE_MAX_CHARACTERS (Msg ''a step title is capped'' []))"

definition validated_body :: "str option \<Rightarrow> str option result" where
  "validated_body body = (case present body of
       None \<Rightarrow> Inr None
     | Some b \<Rightarrow> res_bind (within b STEP_MAX_CHARACTERS (Msg ''a step detail is capped'' [])) (\<lambda>x. Inr (Some x)))"

definition require_unstarted :: "task_step \<Rightarrow> unit result" where
  "require_unstarted step =
     (if unstarted (ts_state step) then Inr ()
      else Inl (IllegalArgument (Msg ''a session deletes a draft or an open step only''
                 [ts_title step, lit (state_name (ts_state step))])))"

definition apply_draft :: "instant \<Rightarrow> bool \<Rightarrow> task_step \<Rightarrow> task_step result" where
  "apply_draft now d step =
     (if d \<and> ts_state step = Open then Inr (mark_state now Draft step)
      else if \<not> d \<and> ts_state step = Draft then Inr (mark_state now Open step)
      else if d \<noteq> (ts_state step = Draft)
      then Inl (IllegalArgument (Msg ''cannot change its draft state''
                 [ts_title step, lit (state_name (ts_state step))]))
      else Inr step)"

subsection \<open>Reading and announcing\<close>

definition flow_rows_of_task :: "id \<Rightarrow> db \<Rightarrow> step_flow_rows" where
  "flow_rows_of_task i s = \<lparr>fr_links = links_of_task i s, fr_visits = visits_of_task i s\<rparr>"

definition find_by_task_in :: "id \<Rightarrow> task_step_view list action" where
  "find_by_task_in task_id =
     tx_bind (tx_gets (steps_of task_id)) (\<lambda>steps.
     tx_bind (tx_gets (flow_rows_of_task task_id)) (\<lambda>flow.
     tx_map (\<lambda>step. tx_lift (step_view_of step flow)) steps))"

definition publish_steps_in :: "id \<Rightarrow> unit action" where
  "publish_steps_in task_id =
     tx_bind (find_by_task_in task_id) (\<lambda>current. tx_publish (StepStreamEvent task_id current))"

definition view_in :: "task_step \<Rightarrow> task_step_view action" where
  "view_in step = tx_bind (tx_gets (flow_rows_of_task (ts_task_id step))) (\<lambda>flow.
     tx_lift (step_view_of step flow))"

text \<open>The service's own lookup reports a missing step as an anchor that resolves to nothing.\<close>

definition step_require :: "id \<Rightarrow> task_step action" where
  "step_require i = tx_bind (tx_gets (find_step i)) (\<lambda>found. case found of
       None \<Rightarrow> tx_fail (UnknownAnchor (Msg ''no step with id'' [])) | Some r \<Rightarrow> tx_ok r)"

text \<open>A state move saved over the row it was read from, as every caller below does it.\<close>

definition save_marked :: "task_step_state \<Rightarrow> task_step \<Rightarrow> task_step action" where
  "save_marked st before =
     tx_bind ctx_now (\<lambda>moment. save_step before (mark_state moment st before))"

subsection \<open>Order\<close>

definition renumber :: "task_step list \<Rightarrow> task_step list action" where
  "renumber ordered = tx_map (\<lambda>(at, before). save_step before (before\<lparr>ts_position := as_i32 (int at)\<rparr>))
     (enumerate 0 ordered)"

definition settle_drafts_at_tail :: "task_step list \<Rightarrow> unit action" where
  "settle_drafts_at_tail ordered =
     (let drafts = filter (\<lambda>r. draft (ts_state r)) ordered;
          work = filter (\<lambda>r. \<not> draft (ts_state r)) ordered
      in tx_bind (renumber (work @ drafts)) (\<lambda>_. tx_ok ()))"

subsection \<open>Adding\<close>

definition step_insert_in :: "id \<Rightarrow> str option \<Rightarrow> str option \<Rightarrow> task_step_state \<Rightarrow> task_step_view action" where
  "step_insert_in task_id title body st =
     tx_bind (task_or_unknown task_id) (\<lambda>t.
     tx_bind (tx_lift (require_workable ''holds no steps'' t)) (\<lambda>_.
     tx_bind (tx_gets (steps_of task_id)) (\<lambda>siblings.
     tx_bind (tx_lift (validated_title title)) (\<lambda>name.
     tx_bind ctx_now (\<lambda>now.
     tx_bind random_id (\<lambda>i.
     tx_bind ctx_now (\<lambda>moment.
     tx_bind (tx_lift (validated_body body)) (\<lambda>detail.
     let step = (mark_state moment st
                  (task_step_new i task_id name (as_i32 (int (length siblings))) now))
                \<lparr>ts_body_markdown := detail\<rparr>
     in tx_bind (tx_lift (step_validate step)) (\<lambda>_.
        tx_bind (insert_step step) (\<lambda>saved.
        tx_bind (view_in saved) (\<lambda>view.
        tx_bind (publish_steps_in task_id) (\<lambda>_. tx_ok view))))))))))))"

definition step_add_in :: "id \<Rightarrow> str option \<Rightarrow> str option \<Rightarrow> task_step_view action" where
  "step_add_in task_id title body = step_insert_in task_id title body Draft"

definition step_add_open_in :: "id \<Rightarrow> str option \<Rightarrow> str option \<Rightarrow> task_step_view action" where
  "step_add_open_in task_id title body = step_insert_in task_id title body Open"

definition step_add :: "id \<Rightarrow> str option \<Rightarrow> str option \<Rightarrow> db \<Rightarrow> task_step_view result \<times> db" where
  "step_add task_id title body = in_write (step_add_in task_id title body)"

definition open_in :: "task_step \<Rightarrow> task_step action" where
  "open_in before = save_marked Open before"

definition release_drafts_in :: "id \<Rightarrow> unit action" where
  "release_drafts_in task_id = tx_bind (tx_gets (steps_of task_id)) (\<lambda>steps.
     tx_each (\<lambda>d. tx_bind (open_in d) (\<lambda>_. tx_ok ())) (filter (\<lambda>r. draft (ts_state r)) steps))"

definition release_in :: "id \<Rightarrow> unit action" where
  "release_in i =
     tx_bind (step_require i) (\<lambda>d.
     tx_bind (open_in d) (\<lambda>_.
     tx_bind (tx_gets (steps_of (ts_task_id d))) (\<lambda>ordered.
     settle_drafts_at_tail ordered)))"

definition begin_session_in :: "id \<Rightarrow> bool \<Rightarrow> task_step action" where
  "begin_session_in i starts = tx_bind (step_require i) (\<lambda>before.
     save_step before (before\<lparr>ts_starts_session := starts\<rparr>))"

definition step_propose_in ::
  "unicode_case \<Rightarrow> str option \<Rightarrow> str \<Rightarrow> str option \<Rightarrow> str option \<Rightarrow> bool \<Rightarrow> staging \<Rightarrow> proposed action" where
  "step_propose_in u project_label task_label title body starts_session staging =
     tx_bind (resolve_task u project_label task_label) (\<lambda>t.
     tx_bind (tx_lift (validated_title title)) (\<lambda>wanted.
     tx_bind (tx_gets (steps_of (tk_id t))) (\<lambda>siblings.
     case List.find (\<lambda>step. equals_ignore_case u (strip (ts_title step)) wanted) siblings of
       Some existing \<Rightarrow> tx_fail (IllegalArgument (Msg ''this task already has a step titled''
                          [ts_title existing, lit (state_name (ts_state existing))]))
     | None \<Rightarrow>
       (let drafts = length (filter (\<lambda>step. ts_state step = Draft) siblings) in
        if staging = Drafted \<and> drafts \<ge> PROPOSED_DRAFTS_MAX
        then tx_fail (IllegalArgument (Msg ''this task already holds the most drafts'' []))
        else
          tx_bind (step_add_in (tk_id t) (Some wanted) body) (\<lambda>added.
          tx_bind (if starts_session
                   then tx_bind (begin_session_in (tv_id added) True) (\<lambda>_. tx_ok ())
                   else tx_ok ()) (\<lambda>_.
          tx_bind (if staging = Ready
                   then tx_bind (release_in (tv_id added)) (\<lambda>_. publish_steps_in (tk_id t))
                   else tx_ok ()) (\<lambda>_.
          tx_bind (step_require (tv_id added)) (\<lambda>row.
          tx_bind (view_in row) (\<lambda>step.
          tx_ok \<lparr>pp_step = step,
                 pp_draft_count = (if staging = Drafted then drafts + 1 else drafts)\<rparr>)))))))))"

definition step_propose where
  "step_propose u project_label task_label title body starts_session staging =
     in_write (step_propose_in u project_label task_label title body starts_session staging)"

subsection \<open>The console's edits\<close>

definition stop_timer :: "id \<Rightarrow> unit action" where
  "stop_timer task_id = tx_bind (running_entry_of_task task_id) (\<lambda>found. case found of
       None \<Rightarrow> tx_ok ()
     | Some entry \<Rightarrow>
         tx_bind ctx_now (\<lambda>now.
         tx_bind (update_entry (entry\<lparr>te_stopped_at := Some now, te_updated_at := now\<rparr>)) (\<lambda>stopped.
         tx_bind (task_or_unknown (te_task_id stopped)) (\<lambda>t.
         tx_bind (project_of t) (\<lambda>_. tx_ok ())))))"

definition step_edit_in ::
  "id \<Rightarrow> str option \<Rightarrow> str option \<Rightarrow> bool option \<Rightarrow> bool option \<Rightarrow> task_step_view action" where
  "step_edit_in i title body don dr =
     tx_bind (step_require i) (\<lambda>before.
     tx_bind (case title of None \<Rightarrow> tx_ok before
        | Some _ \<Rightarrow> tx_bind (tx_lift (validated_title title)) (\<lambda>x. tx_ok (before\<lparr>ts_title := x\<rparr>))) (\<lambda>titled.
     tx_bind (case body of None \<Rightarrow> tx_ok titled
        | Some _ \<Rightarrow> tx_bind (tx_lift (validated_body body)) (\<lambda>x. tx_ok (titled\<lparr>ts_body_markdown := x\<rparr>))) (\<lambda>detailed.
     tx_bind (case dr of None \<Rightarrow> tx_ok detailed
        | Some d \<Rightarrow> tx_bind ctx_now (\<lambda>moment. tx_lift (apply_draft moment d detailed))) (\<lambda>staged.
     tx_bind (case don of None \<Rightarrow> tx_ok staged
        | Some d \<Rightarrow> tx_bind ctx_now (\<lambda>moment. tx_ok (mark_state moment (if d then Done else Open) staged))) (\<lambda>step.
     let task_id = ts_task_id step;
         accepts_claim = (ts_state before = Claimed \<and> ts_state step = Done)
     in tx_bind (save_step before step) (\<lambda>_.
        tx_bind (if accepts_claim then stop_timer task_id else tx_ok ()) (\<lambda>_.
        tx_bind (if dr \<noteq> None
                 then tx_bind (tx_gets (steps_of task_id)) settle_drafts_at_tail
                 else tx_ok ()) (\<lambda>_.
        tx_bind (step_require i) (\<lambda>row.
        tx_bind (view_in row) (\<lambda>saved.
        tx_bind (publish_steps_in task_id) (\<lambda>_. tx_ok saved)))))))))))"

definition step_edit where
  "step_edit i title body don dr = in_write (step_edit_in i title body don dr)"

definition step_send_back_in :: "id \<Rightarrow> task_step_view action" where
  "step_send_back_in i =
     tx_bind (step_require i) (\<lambda>before.
     tx_bind ctx_now (\<lambda>now.
     tx_bind ctx_now (\<lambda>moment.
     tx_bind (tx_lift (step_send_back moment now before)) (\<lambda>step.
     tx_bind (save_step before step) (\<lambda>saved.
     tx_bind (view_in saved) (\<lambda>view.
     tx_bind (publish_steps_in (ts_task_id saved)) (\<lambda>_. tx_ok view)))))))"

definition send_back where
  "send_back i = in_write (step_send_back_in i)"

subsection \<open>A session's moves\<close>

definition transition_in :: "unicode_case \<Rightarrow> task \<Rightarrow> str option \<Rightarrow> task_step_state \<Rightarrow> task_step action" where
  "transition_in u t step_ref target =
     (if target = Done
      then tx_fail (IllegalArgument (Msg ''a step is marked done in the console'' []))
      else tx_bind (resolve_step u (tk_id t) step_ref) (\<lambda>before.
        if ts_state before = Draft
        then tx_fail (IllegalArgument (Msg ''is still a draft'' [ts_title before]))
        else if ts_state before = Done
        then tx_fail (IllegalArgument (Msg ''is already done'' [ts_title before]))
        else save_marked target before))"

definition step_transition_in ::
  "unicode_case \<Rightarrow> str option \<Rightarrow> str \<Rightarrow> str option \<Rightarrow> task_step_state \<Rightarrow> task_step_view action" where
  "step_transition_in u project_label task_label step_ref target =
     tx_bind (resolve_task u project_label task_label) (\<lambda>t.
     tx_bind (transition_in u t step_ref target) (\<lambda>saved.
     tx_bind (view_in saved) (\<lambda>view.
     tx_bind (publish_steps_in (tk_id t)) (\<lambda>_. tx_ok view))))"

definition step_transition where
  "step_transition u project_label task_label step_ref target =
     in_write (step_transition_in u project_label task_label step_ref target)"

definition reopen_for_route_in :: "id \<Rightarrow> task_step action" where
  "reopen_for_route_in i = tx_bind (require_step i) (\<lambda>before.
     if ts_state before = Draft
     then tx_fail (IllegalArgument (Msg ''the route leads to a draft'' [ts_title before]))
     else if \<not> complete (ts_state before) then tx_ok before
     else save_marked Open before)"

definition title_of :: "id option \<Rightarrow> db \<Rightarrow> str option result" where
  "title_of step_id s = (case step_id of
       None \<Rightarrow> Inr None
     | Some i \<Rightarrow> in_read (tx_gets (\<lambda>s. map_option ts_title (find_step i s))) s)"

definition move_if_in :: "id \<Rightarrow> task_step_state \<Rightarrow> task_step_state \<Rightarrow> bool action" where
  "move_if_in i from to = tx_bind (tx_gets (find_step i)) (\<lambda>found. case found of
       None \<Rightarrow> tx_ok False
     | Some before \<Rightarrow>
         if ts_state before \<noteq> from then tx_ok False
         else tx_bind (save_marked to before) (\<lambda>_.
              tx_bind (publish_steps_in (ts_task_id before)) (\<lambda>_. tx_ok True)))"

definition move_if :: "id option \<Rightarrow> task_step_state \<Rightarrow> task_step_state \<Rightarrow> db \<Rightarrow> bool result \<times> db" where
  "move_if step_id from to s = (case step_id of
       None \<Rightarrow> (Inr False, s)
     | Some i \<Rightarrow> in_write (move_if_in i from to) s)"

definition mark_running :: "id option \<Rightarrow> db \<Rightarrow> bool result \<times> db" where
  "mark_running step_id = move_if step_id Open Running"

definition release_running :: "id option \<Rightarrow> db \<Rightarrow> unit result \<times> db" where
  "release_running step_id s = (case move_if step_id Running Open s of
       (Inl e, t) \<Rightarrow> (Inl e, t) | (Inr _, t) \<Rightarrow> (Inr (), t))"

subsection \<open>Moving, placing, limiting\<close>

definition insert_at :: "nat \<Rightarrow> 'a \<Rightarrow> 'a list \<Rightarrow> 'a list" where
  "insert_at k x xs = take k xs @ x # drop k xs"

text \<open>\<^verbatim>\<open>position.clamp(0, len as i32) as usize\<close>.\<close>

definition clamp_index :: "int \<Rightarrow> nat \<Rightarrow> nat" where
  "clamp_index position len = as_usize (min (max position 0) (as_i32 (int len)))"

definition step_move_to_in :: "id \<Rightarrow> int \<Rightarrow> task_step_view list action" where
  "step_move_to_in i position =
     tx_bind (step_require i) (\<lambda>step.
     tx_bind (tx_gets (steps_of (ts_task_id step))) (\<lambda>all.
     let ordered = filter (\<lambda>c. ts_id c \<noteq> i) all;
         at = clamp_index position (length ordered)
     in tx_bind (settle_drafts_at_tail (insert_at at step ordered)) (\<lambda>_.
        tx_bind (find_by_task_in (ts_task_id step)) (\<lambda>settled.
        tx_bind (publish_steps_in (ts_task_id step)) (\<lambda>_. tx_ok settled)))))"

definition step_move_to where
  "step_move_to i position = in_write (step_move_to_in i position)"

text \<open>Three settings answer the whole checklist after they saved the row.\<close>

definition answer_checklist :: "id \<Rightarrow> task_step_view list action" where
  "answer_checklist task_id = tx_bind (publish_steps_in task_id) (\<lambda>_. find_by_task_in task_id)"

definition place_in_flow_in :: "id \<Rightarrow> flow_place option \<Rightarrow> task_step_view list action" where
  "place_in_flow_in i place =
     tx_bind (step_require i) (\<lambda>before.
     tx_bind (save_step before (before\<lparr>ts_flow_x := map_option fp_x place, ts_flow_y := map_option fp_y place\<rparr>)) (\<lambda>_.
     answer_checklist (ts_task_id before)))"

definition place_in_flow where
  "place_in_flow i place = in_write (place_in_flow_in i place)"

definition limit_visits_in :: "id \<Rightarrow> visit_budget option \<Rightarrow> task_step action" where
  "limit_visits_in i budget = tx_bind (step_require i) (\<lambda>before.
     save_step before (before\<lparr>ts_max_visits := map_option budget_visits budget\<rparr>))"

definition limit_visits where
  "limit_visits i budget = in_write
     (tx_bind (limit_visits_in i budget) (\<lambda>saved. answer_checklist (ts_task_id saved)))"

definition begin_session where
  "begin_session i starts = in_write
     (tx_bind (begin_session_in i starts) (\<lambda>saved. answer_checklist (ts_task_id saved)))"

definition reach_connection_in :: "id \<Rightarrow> id option \<Rightarrow> task_step action" where
  "reach_connection_in i connection = tx_bind (step_require i) (\<lambda>before.
     save_step before (before\<lparr>ts_connection_id := connection\<rparr>))"

definition clear_flow_places_in :: "id \<Rightarrow> task_step_view list action" where
  "clear_flow_places_in task_id =
     tx_bind (task_or_unknown task_id) (\<lambda>_.
     tx_bind (tx_gets (steps_of task_id)) (\<lambda>steps.
     tx_bind (tx_each (\<lambda>before. tx_bind (save_step before (before\<lparr>ts_flow_x := None, ts_flow_y := None\<rparr>))
                                  (\<lambda>_. tx_ok ())) steps) (\<lambda>_.
     answer_checklist task_id)))"

definition clear_flow_places where
  "clear_flow_places task_id = in_write (clear_flow_places_in task_id)"

subsection \<open>Deleting\<close>

definition delete_in :: "task_step \<Rightarrow> unit action" where
  "delete_in step =
     tx_bind (delete_step_row (ts_id step)) (\<lambda>_.
     tx_bind (tx_gets (steps_of (ts_task_id step))) (\<lambda>remaining.
     tx_bind (renumber remaining) (\<lambda>_. tx_ok ())))"

definition step_delete_in :: "id \<Rightarrow> unit action" where
  "step_delete_in i = tx_bind (tx_gets (find_step i)) (\<lambda>found. case found of
       None \<Rightarrow> tx_ok ()
     | Some step \<Rightarrow> tx_bind (delete_in step) (\<lambda>_. publish_steps_in (ts_task_id step)))"

definition step_delete where
  "step_delete i = in_write (step_delete_in i)"

definition step_remove_in :: "unicode_case \<Rightarrow> str option \<Rightarrow> str \<Rightarrow> str option \<Rightarrow> removed action" where
  "step_remove_in u project_label task_label step_ref =
     tx_bind (resolve_task u project_label task_label) (\<lambda>t.
     tx_bind (resolve_step u (tk_id t) step_ref) (\<lambda>step.
     tx_bind (tx_lift (require_unstarted step)) (\<lambda>_.
     tx_bind (delete_in step) (\<lambda>_.
     tx_bind (publish_steps_in (tk_id t)) (\<lambda>_.
     tx_bind (tx_gets (steps_of (tk_id t))) (\<lambda>left.
     tx_ok \<lparr>rm_title = ts_title step, rm_remaining = length left\<rparr>))))))"

definition step_remove where
  "step_remove u project_label task_label step_ref =
     in_write (step_remove_in u project_label task_label step_ref)"

definition clear_unstarted_in :: "id \<Rightarrow> nat action" where
  "clear_unstarted_in task_id =
     tx_bind (tx_gets (\<lambda>s. filter (\<lambda>r. unstarted (ts_state r)) (steps_of task_id s))) (\<lambda>gone.
     tx_bind (tx_each (\<lambda>r. delete_step_row (ts_id r)) gone) (\<lambda>_.
     tx_bind (tx_gets (steps_of task_id)) (\<lambda>remaining.
     tx_bind (renumber remaining) (\<lambda>_. tx_ok (length gone)))))"

text \<open>The definitions above, for running the model on concrete input.\<close>

lemmas steps_run [run_defs] = PROPOSED_DRAFTS_MAX_def visit_budget_new_def budget_visits_def i32_abs_def flow_place_new_def
  validated_title_def validated_body_def require_unstarted_def apply_draft_def
  flow_rows_of_task_def find_by_task_in_def publish_steps_in_def view_in_def step_require_def
  save_marked_def renumber_def settle_drafts_at_tail_def step_insert_in_def step_add_in_def
  step_add_open_in_def step_add_def open_in_def release_drafts_in_def release_in_def
  begin_session_in_def step_propose_in_def step_propose_def stop_timer_def step_edit_in_def
  step_edit_def step_send_back_in_def send_back_def transition_in_def step_transition_in_def
  step_transition_def reopen_for_route_in_def title_of_def move_if_in_def move_if_def
  mark_running_def release_running_def insert_at_def clamp_index_def step_move_to_in_def
  step_move_to_def answer_checklist_def place_in_flow_in_def place_in_flow_def
  limit_visits_in_def limit_visits_def begin_session_def reach_connection_in_def
  clear_flow_places_in_def clear_flow_places_def delete_in_def step_delete_in_def
  step_delete_def step_remove_in_def step_remove_def clear_unstarted_in_def

end
