(* ===== verification/Graph_Search.thy ===== *)
theory Graph_Search
  imports Main
begin

section \<open>Searching a graph with a stack\<close>

text \<open>
  Two parts of the program walk a graph with the same loop: take the last pending node, skip it
  if it was seen, otherwise mark it and push its successors. The locale states the loop
  invariant once, over any representation \<open>seen\<close> of the marked nodes; \<open>Flow_Plan\<close> uses it with a
  vector of flags and \<open>Dependency\<close> with a set of ids.
\<close>

locale graph_search =
  fixes succs :: "'n \<Rightarrow> 'n list"
    and nodes :: "'n set"
    and ok :: "'q \<Rightarrow> bool"
    and seen :: "'q \<Rightarrow> 'n set"
    and mark :: "'n \<Rightarrow> 'q \<Rightarrow> 'q"
  assumes seen_mark: "ok q \<Longrightarrow> x \<in> nodes \<Longrightarrow> seen (mark x q) = insert x (seen q)"
    and ok_mark: "ok q \<Longrightarrow> x \<in> nodes \<Longrightarrow> ok (mark x q)"
begin

definition edges :: "('n \<times> 'n) set" where
  "edges = {(x, y). y \<in> set (succs x)}"

definition searching :: "'n \<Rightarrow> 'q \<Rightarrow> 'n list \<Rightarrow> bool" where
  "searching start q pending \<longleftrightarrow> ok q \<and> set pending \<subseteq> nodes
     \<and> start \<in> seen q \<union> set pending
     \<and> seen q \<union> set pending \<subseteq> edges\<^sup>* `` {start}
     \<and> (\<forall>x \<in> seen q. set (succs x) \<subseteq> seen q \<union> set pending)"

lemma searching_init: "ok q \<Longrightarrow> seen q = {} \<Longrightarrow> start \<in> nodes \<Longrightarrow> searching start q [start]"
  by (simp add: searching_def)

lemma searching_skip:
  "searching start q (rest @ [x]) \<Longrightarrow> x \<in> seen q \<Longrightarrow> searching start q rest"
  by (auto simp: searching_def)

lemma searching_take:
  assumes "searching start q (rest @ [x])" and "set (succs x) \<subseteq> nodes"
  shows "searching start (mark x q) (rest @ succs x)"
proof -
  have x: "x \<in> nodes" "ok q" and reach: "(start, x) \<in> edges\<^sup>*"
    using assms by (auto simp: searching_def)
  have "(start, y) \<in> edges\<^sup>*" if "y \<in> set (succs x)" for y
    using reach that by (rule_tac rtrancl_into_rtrancl) (auto simp: edges_def)
  then show ?thesis
    using assms x by (auto simp: searching_def seen_mark ok_mark)
qed

text \<open>Once nothing is pending, the marked nodes are exactly those the start leads to.\<close>

lemma searching_done:
  assumes "searching start q []"
  shows "seen q = edges\<^sup>* `` {start}"
proof
  show "seen q \<subseteq> edges\<^sup>* `` {start}" using assms by (simp add: searching_def)
  have "y \<in> seen q" if "(start, y) \<in> edges\<^sup>*" for y
    using that by induction (use assms in \<open>auto simp: searching_def edges_def\<close>)
  then show "edges\<^sup>* `` {start} \<subseteq> seen q" by auto
qed

lemma searching_reached: "searching start q (rest @ [x]) \<Longrightarrow> (start, x) \<in> edges\<^sup>*"
  by (auto simp: searching_def)

end

end
