(* ===== verification/Flow_Plan.thy ===== *)
theory Flow_Plan
  imports Steps Graph_Search
begin

section \<open>A flow proposed whole\<close>

text \<open>
  \<^verbatim>\<open>rekall-core/src/flow/model/flow_plan.rs\<close>, \<^verbatim>\<open>planned_step.rs\<close> and \<^verbatim>\<open>planned_route.rs\<close>:
  the plan a session proposes and the rules it must pass before anything is written. An index
  outside the plan would panic; \<open>None\<close> stands for that, and \<open>plan_check_iff\<close> shows it never
  happens because the shape is checked first.
\<close>

record planned_route =
  pl_outcome :: str
  pl_to :: "nat option"

record planned_step =
  pl_title :: str
  pl_detail :: "str option"
  pl_routes :: "planned_route list"
  pl_max_visits :: "visit_budget option"
  pl_starts_session :: bool

type_synonym flow_plan = "planned_step list"

definition route_count :: "flow_plan \<Rightarrow> nat" where
  "route_count plan = sum_list (map (\<lambda>step. length (pl_routes step)) plan)"

subsection \<open>Shape\<close>

definition require_size :: "flow_plan \<Rightarrow> unit result" where
  "require_size plan =
     (if plan = [] then Inl (IllegalArgument (Msg ''a flow needs at least one step'' []))
      else if length plan > PROPOSED_DRAFTS_MAX
      then Inl (IllegalArgument (Msg ''a session writes at most so many steps at once'' []))
      else Inr ())"

definition require_distinct_titles :: "unicode_case \<Rightarrow> flow_plan \<Rightarrow> unit result" where
  "require_distinct_titles u plan = res_each (\<lambda>(at, step).
     refuse_if (list_ex (\<lambda>earlier. equals_ignore_case u (strip (pl_title earlier)) (strip (pl_title step))) (take at plan))
       (IllegalArgument (Msg ''the step appears twice'' [pl_title step])))
     (enumerate 0 plan)"

fun routes_fit :: "unicode_case \<Rightarrow> nat \<Rightarrow> nat \<Rightarrow> str \<Rightarrow> str list \<Rightarrow> planned_route list \<Rightarrow> unit result" where
  "routes_fit u len at title outcomes [] = Inr ()"
| "routes_fit u len at title outcomes (route # routes) =
     res_bind (normalise_outcome u (Some (pl_outcome route))) (\<lambda>outcome.
       if outcome \<in> set outcomes
       then Inl (IllegalArgument (Msg ''one outcome names one route'' [title, outcome]))
       else case pl_to route of
         Some to \<Rightarrow>
           if to = at then Inl (IllegalArgument (Msg ''routes to itself'' [title, outcome]))
           else if to \<ge> len then Inl (IllegalArgument (Msg ''routes outside the flow'' [title, outcome]))
           else routes_fit u len at title (outcome # outcomes) routes
       | None \<Rightarrow> routes_fit u len at title (outcome # outcomes) routes)"

definition require_routes_fit :: "unicode_case \<Rightarrow> flow_plan \<Rightarrow> nat \<Rightarrow> planned_step \<Rightarrow> unit result" where
  "require_routes_fit u plan at step =
     (if length (pl_routes step) > ROUTES_PER_STEP_MAX
      then Inl (IllegalArgument (Msg ''too many routes out'' [pl_title step]))
      else routes_fit u (length plan) at (pl_title step) [] (pl_routes step))"

definition check_shape :: "unicode_case \<Rightarrow> flow_plan \<Rightarrow> unit result" where
  "check_shape u plan =
     res_bind (require_size plan) (\<lambda>_.
     res_bind (require_distinct_titles u plan) (\<lambda>_.
     res_each (\<lambda>(at, step). require_routes_fit u plan at step) (enumerate 0 plan)))"

definition require_a_route :: "flow_plan \<Rightarrow> unit result" where
  "require_a_route plan =
     refuse_if (route_count plan = 0) (IllegalArgument (Msg ''no step routes anywhere'' []))"

subsection \<open>Reaching every step, and an end from every step\<close>

definition route_targets :: "planned_step \<Rightarrow> nat list" where
  "route_targets step = List.map_filter pl_to (pl_routes step)"

definition plan_succs :: "flow_plan \<Rightarrow> nat \<Rightarrow> nat list" where
  "plan_succs plan at = (if at < length plan then route_targets (plan ! at) else [])"

lemma count_marked: "at < length reached \<Longrightarrow> \<not> reached ! at \<Longrightarrow>
    length (filter Not (reached[at := True])) < length (filter Not reached)"
proof (induction reached arbitrary: at)
  case (Cons b reached)
  then show ?case by (cases at) auto
qed simp

function mark_reached :: "flow_plan \<Rightarrow> bool list \<Rightarrow> nat list \<Rightarrow> bool list option" where
  "mark_reached plan reached pending =
     (if pending = [] then Some reached
      else let at = last pending; rest = butlast pending in
        if at \<ge> length reached then None
        else if reached ! at then mark_reached plan reached rest
        else mark_reached plan (reached[at := True]) (rest @ plan_succs plan at))"
  by pat_completeness auto
termination
  by (relation "(\<lambda>(plan, reached, pending). length (filter Not reached)) <*mlex*> measure (\<lambda>(plan, reached, pending). length pending)")
    (auto simp: mlex_iff count_marked wf_mlex)

declare mark_reached.simps [simp del]

definition refuse_unless_all :: "flow_plan \<Rightarrow> bool list \<Rightarrow> string \<Rightarrow> unit result" where
  "refuse_unless_all plan holds problem =
     (let failing = map (\<lambda>(step, _). pl_title step) (filter (\<lambda>(_, h). \<not> h) (zip plan holds))
      in if failing = [] then Inr () else Inl (IllegalArgument (Msg problem failing)))"

definition panicked :: "'a result" where
  "panicked = Inl (Internal (Msg ''index out of bounds'' []))"

definition require_every_step_reached :: "flow_plan \<Rightarrow> unit result" where
  "require_every_step_reached plan =
     (case mark_reached plan (replicate (length plan) False) [0] of
        None \<Rightarrow> panicked
      | Some reached \<Rightarrow> refuse_unless_all plan reached ''the flow never reaches'')"

definition ends_flow :: "planned_step \<Rightarrow> bool" where
  "ends_flow step = (pl_routes step = [] \<or> list_ex (\<lambda>route. pl_to route = None) (pl_routes step))"

fun leads_to_end :: "bool list \<Rightarrow> planned_route list \<Rightarrow> bool option" where
  "leads_to_end ends [] = Some False"
| "leads_to_end ends (route # routes) = (case pl_to route of
       None \<Rightarrow> leads_to_end ends routes
     | Some to \<Rightarrow> if to \<ge> length ends then None
                  else if ends ! to then Some True else leads_to_end ends routes)"

text \<open>One round of the loop over the steps, from position \<open>at\<close> on.\<close>

fun sweep :: "nat \<Rightarrow> planned_step list \<Rightarrow> bool list \<Rightarrow> bool \<Rightarrow> (bool list \<times> bool) option" where
  "sweep at [] ends changed = Some (ends, changed)"
| "sweep at (step # steps) ends changed =
     (if at \<ge> length ends then None
      else if ends ! at then sweep (Suc at) steps ends changed
      else case leads_to_end ends (pl_routes step) of
        None \<Rightarrow> None
      | Some True \<Rightarrow> sweep (Suc at) steps (ends[at := True]) True
      | Some False \<Rightarrow> sweep (Suc at) steps ends changed)"

lemma sweep_grows:
  "sweep at steps ends changed = Some (ends', changed') \<Longrightarrow>
     length (filter Not ends') \<le> length (filter Not ends)
     \<and> (changed' \<longrightarrow> changed \<or> length (filter Not ends') < length (filter Not ends))"
proof (induction steps arbitrary: at ends changed)
  case (Cons step steps)
  show ?case
  proof (cases "\<not> ends ! at \<and> leads_to_end ends (pl_routes step) = Some True")
    case True
    then have "at < length ends" "sweep (Suc at) steps (ends[at := True]) True = Some (ends', changed')"
      using Cons.prems by (auto split: if_splits)
    then show ?thesis using Cons.IH True count_marked [of at ends] by fastforce
  next
    case False
    then have "sweep (Suc at) steps ends changed = Some (ends', changed')"
      using Cons.prems by (auto split: if_splits option.splits bool.splits)
    then show ?thesis by (rule Cons.IH)
  qed
qed simp

function settle_ends :: "flow_plan \<Rightarrow> bool list \<Rightarrow> bool list option" where
  "settle_ends plan ends = (case sweep 0 plan ends False of
       None \<Rightarrow> None
     | Some (ends', changed) \<Rightarrow> if changed then settle_ends plan ends' else Some ends')"
  by pat_completeness auto
termination
  by (relation "measure (\<lambda>(plan, ends). length (filter Not ends))") (auto dest: sweep_grows)

declare settle_ends.simps [simp del]

definition require_every_step_can_end :: "flow_plan \<Rightarrow> unit result" where
  "require_every_step_can_end plan =
     (case settle_ends plan (map ends_flow plan) of
        None \<Rightarrow> panicked
      | Some ends \<Rightarrow> refuse_unless_all plan ends ''the flow can loop forever through'')"

definition plan_check :: "unicode_case \<Rightarrow> flow_plan \<Rightarrow> unit result" where
  "plan_check u plan =
     res_bind (check_shape u plan) (\<lambda>_.
     res_bind (require_a_route plan) (\<lambda>_.
     res_bind (require_every_step_reached plan) (\<lambda>_.
     require_every_step_can_end plan)))"

definition check_as_written :: "unicode_case \<Rightarrow> flow_plan \<Rightarrow> unit result" where
  "check_as_written u plan = (if route_count plan = 0 then check_shape u plan else plan_check u plan)"

subsection \<open>What the check decides\<close>

definition plan_edges :: "flow_plan \<Rightarrow> (nat \<times> nat) set" where
  "plan_edges plan = {(a, b). a < length plan \<and> (\<exists>r \<in> set (pl_routes (plan ! a)). pl_to r = Some b)}"

text \<open>Every step is reached from the first, and from every step an ending step can be reached.\<close>

definition runs_unattended :: "flow_plan \<Rightarrow> bool" where
  "runs_unattended plan \<longleftrightarrow>
     (\<forall>k < length plan. (0, k) \<in> (plan_edges plan)\<^sup>*)
     \<and> (\<forall>k < length plan. \<exists>m < length plan. (k, m) \<in> (plan_edges plan)\<^sup>*
          \<and> (pl_routes (plan ! m) = [] \<or> (\<exists>r \<in> set (pl_routes (plan ! m)). pl_to r = None)))"

definition targets_ok :: "flow_plan \<Rightarrow> bool" where
  "targets_ok plan \<longleftrightarrow> (\<forall>k < length plan. \<forall>r \<in> set (pl_routes (plan ! k)). \<forall>to. pl_to r = Some to \<longrightarrow> to \<noteq> k \<and> to < length plan)"

definition outcomes_ok :: "unicode_case \<Rightarrow> planned_step \<Rightarrow> bool" where
  "outcomes_ok u step \<longleftrightarrow> (\<exists>os. distinct os \<and>
     map (\<lambda>r. normalise_outcome u (Some (pl_outcome r))) (pl_routes step) = map Inr os)"

definition shape_ok :: "unicode_case \<Rightarrow> flow_plan \<Rightarrow> bool" where
  "shape_ok u plan \<longleftrightarrow> plan \<noteq> [] \<and> length plan \<le> PROPOSED_DRAFTS_MAX
     \<and> (\<forall>i j. i < j \<and> j < length plan \<longrightarrow>
          \<not> equals_ignore_case u (strip (pl_title (plan ! i))) (strip (pl_title (plan ! j))))
     \<and> (\<forall>step \<in> set plan. length (pl_routes step) \<le> ROUTES_PER_STEP_MAX \<and> outcomes_ok u step)
     \<and> targets_ok plan"

lemma in_route_targets: "b \<in> set (route_targets step) \<longleftrightarrow> (\<exists>r \<in> set (pl_routes step). pl_to r = Some b)"
  by (induction "pl_routes step" arbitrary: step) (auto simp: route_targets_def List.map_filter_def image_iff)

lemma plan_succs_edges: "b \<in> set (plan_succs plan a) \<longleftrightarrow> (a, b) \<in> plan_edges plan"
  by (simp add: plan_succs_def plan_edges_def in_route_targets)

interpretation plan_search: graph_search "plan_succs plan" "{..<length plan}" "\<lambda>q. length q = length plan"
  "\<lambda>q. {k. k < length q \<and> q ! k}" "\<lambda>x q. q[x := True]" for plan
  by unfold_locales (auto simp: nth_list_update)

lemma targets_ok_succs: "targets_ok plan \<Longrightarrow> set (plan_succs plan a) \<subseteq> {..<length plan}"
proof
  fix b assume ok: "targets_ok plan" and "b \<in> set (plan_succs plan a)"
  then obtain r where "a < length plan" "r \<in> set (pl_routes (plan ! a))" "pl_to r = Some b"
    unfolding plan_succs_edges plan_edges_def by blast
  then show "b \<in> {..<length plan}" using ok unfolding targets_ok_def by blast
qed

lemma plan_search_edges: "plan_search.edges plan = plan_edges plan"
  by (auto simp: plan_search.edges_def plan_succs_edges)

lemma mark_reached_finds:
  assumes "targets_ok plan" and "plan_search.searching plan start reached pending"
  shows "\<exists>q. mark_reached plan reached pending = Some q \<and> length q = length plan
    \<and> {k. k < length q \<and> q ! k} = (plan_edges plan)\<^sup>* `` {start}"
  using assms
proof (induction plan reached pending rule: mark_reached.induct)
  case (1 plan reached pending)
  show ?case
  proof (cases "pending = []")
    case True
    then have "mark_reached plan reached pending = Some reached" by (subst mark_reached.simps) simp
    moreover have "length reached = length plan" using "1.prems"(2) by (simp add: plan_search.searching_def)
    ultimately show ?thesis
      using plan_search.searching_done [of plan start reached] "1.prems"(2) True by (simp add: plan_search_edges)
  next
    case False
    let ?at = "last pending" and ?rest = "butlast pending"
    have p: "pending = ?rest @ [?at]" using False by simp
    then have S: "plan_search.searching plan start reached (?rest @ [?at])" using 1 by simp
    then have at: "?at < length reached" "length reached = length plan"
      by (auto simp: plan_search.searching_def)
    have succs: "set (plan_succs plan ?at) \<subseteq> {..<length plan}"
      using targets_ok_succs [OF "1.prems"(1)] .
    show ?thesis
    proof (cases "reached ! ?at")
      case True
      then have "plan_search.searching plan start reached ?rest"
        using plan_search.searching_skip [OF S] at by simp
      then have "\<exists>q. mark_reached plan reached ?rest = Some q \<and> length q = length plan
          \<and> {k. k < length q \<and> q ! k} = (plan_edges plan)\<^sup>* `` {start}"
        using "1.IH"(1) [OF False refl refl] True at \<open>targets_ok plan\<close> by simp
      moreover have "mark_reached plan reached pending = mark_reached plan reached ?rest"
        using False True at by (subst mark_reached.simps) (simp add: Let_def)
      ultimately show ?thesis by simp
    next
      case unseen: False
      have "\<exists>q. mark_reached plan (reached[?at := True]) (?rest @ plan_succs plan ?at) = Some q \<and> length q = length plan
          \<and> {k. k < length q \<and> q ! k} = (plan_edges plan)\<^sup>* `` {start}"
        using "1.IH"(2) [OF False refl refl] unseen at \<open>targets_ok plan\<close> plan_search.searching_take [OF S succs]
        by simp
      moreover have "mark_reached plan reached pending =
          mark_reached plan (reached[?at := True]) (?rest @ plan_succs plan ?at)"
        using False unseen at by (subst mark_reached.simps) (simp add: Let_def)
      ultimately show ?thesis by simp
    qed
  qed
qed

lemma refuse_unless_all_Inr:
  "length holds = length plan \<Longrightarrow> refuse_unless_all plan holds problem = Inr () \<longleftrightarrow> (\<forall>k < length plan. holds ! k)"
  by (auto simp: refuse_unless_all_def Let_def filter_empty_conv set_zip)

lemma require_every_step_reached_iff:
  assumes "targets_ok plan" and "plan \<noteq> []"
  shows "require_every_step_reached plan = Inr () \<longleftrightarrow> (\<forall>k < length plan. (0, k) \<in> (plan_edges plan)\<^sup>*)"
proof -
  have "plan_search.searching plan 0 (replicate (length plan) False) [0]"
    using plan_search.searching_init [of "replicate (length plan) False" plan 0] assms(2) by simp
  from mark_reached_finds [OF assms(1) this] obtain q
    where q: "mark_reached plan (replicate (length plan) False) [0] = Some q" "length q = length plan"
      and set: "{k. k < length q \<and> q ! k} = (plan_edges plan)\<^sup>* `` {0}" by blast
  have "q ! k \<longleftrightarrow> (0, k) \<in> (plan_edges plan)\<^sup>*" if "k < length plan" for k
    using set [THEN eqset_imp_iff, of k] that q(2) by simp
  then show ?thesis using q by (simp add: require_every_step_reached_def refuse_unless_all_Inr)
qed

definition can_end :: "flow_plan \<Rightarrow> nat \<Rightarrow> bool" where
  "can_end plan k \<longleftrightarrow> (\<exists>m < length plan. (k, m) \<in> (plan_edges plan)\<^sup>* \<and> ends_flow (plan ! m))"

lemma can_end_step: "(a, b) \<in> plan_edges plan \<Longrightarrow> can_end plan b \<Longrightarrow> can_end plan a"
  unfolding can_end_def by (meson converse_rtrancl_into_rtrancl)

lemma leads_to_end_Some:
  assumes "\<forall>r \<in> set routes. \<forall>to. pl_to r = Some to \<longrightarrow> to < length ends"
  shows "leads_to_end ends routes = Some (\<exists>r \<in> set routes. \<exists>to. pl_to r = Some to \<and> ends ! to)"
  using assms by (induction routes) (auto split: option.splits)

text \<open>Flags that are sound: only steps an end can be reached from carry one.\<close>

definition ends_sound :: "flow_plan \<Rightarrow> bool list \<Rightarrow> bool" where
  "ends_sound plan ends \<longleftrightarrow> length ends = length plan
     \<and> (\<forall>k < length plan. ends ! k \<longrightarrow> can_end plan k)
     \<and> (\<forall>k < length plan. ends_flow (plan ! k) \<longrightarrow> ends ! k)"

lemma leads_to_end_edge:
  assumes "targets_ok plan" and "ends_sound plan ends" and "at < length plan"
  shows "leads_to_end ends (pl_routes (plan ! at)) = Some (\<exists>b < length plan. (at, b) \<in> plan_edges plan \<and> ends ! b)"
proof -
  have "\<forall>r \<in> set (pl_routes (plan ! at)). \<forall>to. pl_to r = Some to \<longrightarrow> to < length ends"
    using assms unfolding targets_ok_def ends_sound_def by metis
  note run = leads_to_end_Some [OF this]
  have "(\<exists>r \<in> set (pl_routes (plan ! at)). \<exists>to. pl_to r = Some to \<and> ends ! to)
      \<longleftrightarrow> (\<exists>b < length plan. (at, b) \<in> plan_edges plan \<and> ends ! b)"
    using assms unfolding targets_ok_def plan_edges_def by blast
  then show ?thesis using run by simp
qed

lemma ends_sound_mark:
  assumes "ends_sound plan ends" "at < length plan" "(at, b) \<in> plan_edges plan" "b < length plan" "ends ! b"
  shows "ends_sound plan (ends[at := True])"
proof -
  have "can_end plan at" using assms can_end_step unfolding ends_sound_def by blast
  then show ?thesis using assms by (auto simp: ends_sound_def nth_list_update)
qed

lemma sweep_sound:
  assumes "targets_ok plan" and "ends_sound plan ends" and "steps = drop at plan"
  shows "\<exists>ends' changed'. sweep at steps ends changed = Some (ends', changed') \<and> ends_sound plan ends'
    \<and> (\<not> changed' \<longrightarrow> \<not> changed \<and> ends' = ends
         \<and> (\<forall>k. at \<le> k \<and> k < length plan \<and> \<not> ends ! k \<longrightarrow> \<not> (\<exists>b < length plan. (k, b) \<in> plan_edges plan \<and> ends ! b)))"
  using assms(2,3)
proof (induction steps arbitrary: at ends changed)
  case Nil
  then show ?case by auto
next
  case (Cons step steps)
  then have at: "at < length plan" and step: "step = plan ! at" and steps: "steps = drop (Suc at) plan"
    by (metis drop_eq_Nil list.distinct(1) not_le, metis nth_via_drop, metis drop_Suc list.sel(3) tl_drop)
  have len: "length ends = length plan" using Cons.prems(1) by (simp add: ends_sound_def)
  let ?leads = "\<exists>b < length plan. (at, b) \<in> plan_edges plan \<and> ends ! b"
  have leads: "leads_to_end ends (pl_routes step) = Some ?leads"
    unfolding step by (rule leads_to_end_edge [OF assms(1) Cons.prems(1) at])
  show ?case
  proof (cases "\<not> ends ! at \<and> ?leads")
    case True
    then have "ends_sound plan (ends[at := True])" using ends_sound_mark [OF Cons.prems(1) at] by blast
    from Cons.IH [OF this steps, of True] True show ?thesis using leads len at by auto
  next
    case False
    have "sweep at (step # steps) ends changed = sweep (Suc at) steps ends changed"
    proof (cases "ends ! at")
      case unmarked: False
      then have "leads_to_end ends (pl_routes step) = Some False" using False leads by simp
      then show ?thesis using unmarked len at by simp
    qed (use len at in simp)
    moreover have "k = at \<or> Suc at \<le> k" if "at \<le> k" for k using that by auto
    ultimately show ?thesis using Cons.IH [OF Cons.prems(1) steps, of changed] False by (metis (no_types, lifting))
  qed
qed

lemma settle_ends_finds:
  assumes "targets_ok plan" and "ends_sound plan ends"
  shows "\<exists>q. settle_ends plan ends = Some q \<and> length q = length plan \<and> (\<forall>k < length plan. q ! k \<longleftrightarrow> can_end plan k)"
  using assms
proof (induction plan ends rule: settle_ends.induct)
  case (1 plan ends)
  obtain ends' changed where sw: "sweep 0 plan ends False = Some (ends', changed)" and sound: "ends_sound plan ends'"
    and fix_point: "\<not> changed \<Longrightarrow> ends' = ends \<and>
      (\<forall>k. k < length plan \<and> \<not> ends ! k \<longrightarrow> \<not> (\<exists>b < length plan. (k, b) \<in> plan_edges plan \<and> ends ! b))"
    using sweep_sound [OF "1.prems", of plan 0 False] by auto
  show ?case
  proof (cases changed)
    case True
    then have "settle_ends plan ends = settle_ends plan ends'" using sw by (subst settle_ends.simps) simp
    then show ?thesis using "1.IH" [OF sw refl True] sound "1.prems"(1) by simp
  next
    case False
    then have run: "settle_ends plan ends = Some ends" using sw fix_point by (subst settle_ends.simps) simp
    have "ends ! k" if k: "k < length plan" "can_end plan k" for k
    proof -
      obtain m where m: "m < length plan" "(k, m) \<in> (plan_edges plan)\<^sup>*" "ends_flow (plan ! m)"
        using k(2) by (auto simp: can_end_def)
      from m(2) k(1) show ?thesis
      proof (induction rule: converse_rtrancl_induct)
        case base
        then show ?case using "1.prems"(2) m by (simp add: ends_sound_def)
      next
        case (step a b)
        have "b < length plan"
          using targets_ok_succs [OF "1.prems"(1), of a] step(1) by (auto simp: plan_succs_edges [symmetric])
        then show ?case using step fix_point False by blast
      qed
    qed
    then show ?thesis using run "1.prems"(2) by (auto simp: ends_sound_def)
  qed
qed

lemma require_every_step_can_end_iff:
  assumes "targets_ok plan"
  shows "require_every_step_can_end plan = Inr () \<longleftrightarrow> (\<forall>k < length plan. can_end plan k)"
proof -
  have "ends_sound plan (map ends_flow plan)" by (auto simp: ends_sound_def can_end_def)
  from settle_ends_finds [OF assms this] show ?thesis
    by (auto simp: require_every_step_can_end_def refuse_unless_all_Inr)
qed

lemma routes_fit_Inr:
  "routes_fit u len at title outcomes routes = Inr () \<longleftrightarrow>
     (\<exists>os. distinct os \<and> set os \<inter> set outcomes = {}
        \<and> map (\<lambda>r. normalise_outcome u (Some (pl_outcome r))) routes = map Inr os)
     \<and> (\<forall>r \<in> set routes. \<forall>to. pl_to r = Some to \<longrightarrow> to \<noteq> at \<and> to < len)"
proof (induction routes arbitrary: outcomes)
  case (Cons r routes)
  show ?case
  proof (cases "normalise_outcome u (Some (pl_outcome r))")
    case (Inr outcome)
    have split: "(\<exists>os. distinct os \<and> set os \<inter> set outcomes = {} \<and> Inr outcome # xs = map Inr os) \<longleftrightarrow>
        outcome \<notin> set outcomes \<and> (\<exists>os. distinct os \<and> set os \<inter> set (outcome # outcomes) = {} \<and> xs = map Inr os)"
      for xs :: "(rekall_error + str) list"
      by (auto simp: Cons_eq_map_conv)
    show ?thesis
      using Inr Cons.IH [of "outcome # outcomes"] by (auto simp: split split: option.splits)
  qed (simp add: Cons_eq_map_conv)
qed simp

lemma res_each_enumerate:
  "res_each f (enumerate 0 xs) = Inr () \<longleftrightarrow> (\<forall>k < length xs. f (k, xs ! k) = Inr ())"
  by (auto simp: res_each_Inr in_set_enumerate_eq Ball_def)

lemma check_shape_iff: "check_shape u plan = Inr () \<longleftrightarrow> shape_ok u plan"
proof -
  have "require_distinct_titles u plan = Inr () \<longleftrightarrow> (\<forall>i j. i < j \<and> j < length plan \<longrightarrow>
      \<not> equals_ignore_case u (strip (pl_title (plan ! i))) (strip (pl_title (plan ! j))))"
    by (auto simp: require_distinct_titles_def res_each_enumerate list_ex_length)
  moreover have "res_each (\<lambda>(at, step). require_routes_fit u plan at step) (enumerate 0 plan) = Inr () \<longleftrightarrow>
      (\<forall>step \<in> set plan. length (pl_routes step) \<le> ROUTES_PER_STEP_MAX \<and> outcomes_ok u step) \<and> targets_ok plan"
    by (auto simp: res_each_enumerate require_routes_fit_def routes_fit_Inr outcomes_ok_def targets_ok_def
        all_set_conv_all_nth split: if_splits)
  ultimately show ?thesis
    by (auto simp: check_shape_def res_bind_Inr shape_ok_def require_size_def)
qed

text \<open>
  C3. The check of a proposed flow, decided exactly: a plan passes if and only if it has between
  1 and 20 steps with pairwise different titles, each with at most 8 routes under different
  usable outcomes to other steps of the plan; some step has a route; every step can be reached
  from the first; and from every step the flow can reach its end. In particular both graph
  searches end and never index outside the plan.
\<close>

theorem plan_check_iff:
  "plan_check u plan = Inr () \<longleftrightarrow>
     shape_ok u plan \<and> list_ex (\<lambda>step. pl_routes step \<noteq> []) plan \<and> runs_unattended plan"
proof -
  have "require_a_route plan = Inr () \<longleftrightarrow> list_ex (\<lambda>step. pl_routes step \<noteq> []) plan"
    by (auto simp: require_a_route_def route_count_def list_ex_iff)
  moreover have "require_every_step_reached plan = Inr () \<and> require_every_step_can_end plan = Inr () \<longleftrightarrow> runs_unattended plan"
    if "shape_ok u plan"
    using that require_every_step_reached_iff [of plan] require_every_step_can_end_iff [of plan]
    by (simp add: shape_ok_def runs_unattended_def can_end_def ends_flow_def list_ex_iff)
  ultimately show ?thesis
    by (auto simp: plan_check_def res_bind_Inr check_shape_iff)
qed

text \<open>
  A plan written without a route is a checklist: it is only checked for shape. One with a
  route must pass the whole flow check.
\<close>

theorem check_as_written_iff:
  "check_as_written u plan = Inr () \<longleftrightarrow>
     shape_ok u plan \<and> (list_all (\<lambda>step. pl_routes step = []) plan \<or> runs_unattended plan)"
proof -
  have "route_count plan = 0 \<longleftrightarrow> list_all (\<lambda>step. pl_routes step = []) plan" by (auto simp: route_count_def list_all_iff)
  moreover have "plan_check u plan = Inr () \<longleftrightarrow> shape_ok u plan \<and> runs_unattended plan" if "route_count plan \<noteq> 0"
  proof -
    have "require_a_route plan = Inr ()" using that by (simp add: require_a_route_def)
    then show ?thesis
      using require_every_step_reached_iff [of plan] require_every_step_can_end_iff [of plan]
      by (auto simp: plan_check_def res_bind_Inr check_shape_iff shape_ok_def runs_unattended_def can_end_def ends_flow_def list_ex_iff)
  qed
  ultimately show ?thesis by (auto simp: check_as_written_def check_shape_iff)
qed

text \<open>The definitions above, for running the model on concrete input.\<close>

lemmas flow_plan_run [run_defs] = route_count_def require_size_def require_distinct_titles_def require_routes_fit_def
  check_shape_def require_a_route_def route_targets_def plan_succs_def refuse_unless_all_def
  panicked_def require_every_step_reached_def ends_flow_def require_every_step_can_end_def
  plan_check_def check_as_written_def

end
