(* ===== verification/Flow.thy ===== *)
theory Flow
  imports Flow_Plan
begin

section \<open>The flow of a task\<close>

text \<open>
  \<^verbatim>\<open>rekall-core/src/flow\<close>: the routes between a task's steps (\<^verbatim>\<open>StepLinkService\<close>), the
  visits the work makes through them (\<^verbatim>\<open>StepVisitService\<close>), a session's routed move
  (\<^verbatim>\<open>FlowService\<close>) and laying a plan (\<^verbatim>\<open>FlowProposalService\<close>).
\<close>

subsection \<open>Model rules\<close>

definition carries_routes :: "step_link list \<Rightarrow> task_step list \<Rightarrow> bool" where
  "carries_routes links released_steps =
     list_ex (\<lambda>link. sl_from_step_id link \<in> ts_id ` set released_steps) links"

definition flow_has_ended :: "task_step list \<Rightarrow> step_visit list \<Rightarrow> bool" where
  "flow_has_ended released_steps visits =
     (let entered = sv_step_id ` set visits
      in visits \<noteq> [] \<and> list_all (\<lambda>v. \<not> visit_is_open v) visits
         \<and> list_all (\<lambda>step. \<not> running (ts_state step)) released_steps
         \<and> list_all (\<lambda>step. \<not> (unstarted (ts_state step) \<and> ts_id step \<in> entered)) released_steps)"

definition steps_entered :: "task_step list \<Rightarrow> step_visit list \<Rightarrow> task_step list" where
  "steps_entered released_steps visits =
     filter (\<lambda>step. ts_id step \<in> sv_step_id ` set visits) released_steps"

definition route_named :: "str \<Rightarrow> step_link list \<Rightarrow> str \<Rightarrow> step_link result" where
  "route_named step_title outgoing outcome =
     (if outgoing = [] then Inl (IllegalArgument (Msg ''has no routes out'' [step_title]))
      else case List.find (\<lambda>link. sl_outcome link = outcome) outgoing of
        Some link \<Rightarrow> Inr link
      | None \<Rightarrow> Inl (IllegalArgument (Msg ''has no route for'' (step_title # outcome # map sl_outcome outgoing))))"

definition route_without_outcome :: "str \<Rightarrow> step_link list \<Rightarrow> step_link option result" where
  "route_without_outcome step_title outgoing = (case outgoing of
       [] \<Rightarrow> Inr None
     | [only] \<Rightarrow> Inr (Some only)
     | _ \<Rightarrow> Inl (IllegalArgument (Msg ''claim it with the outcome that happened'' (step_title # map sl_outcome outgoing))))"

definition choose_route :: "str \<Rightarrow> step_link list \<Rightarrow> str option \<Rightarrow> step_link option result" where
  "choose_route step_title outgoing outcome = (case outcome of
       Some oc \<Rightarrow> res_bind (route_named step_title outgoing oc) (\<lambda>link. Inr (Some link))
     | None \<Rightarrow> route_without_outcome step_title outgoing)"

datatype route_target = ToStep id | ToEnd

definition target_step_id :: "route_target \<Rightarrow> id option" where
  "target_step_id t = (case t of ToStep i \<Rightarrow> Some i | ToEnd \<Rightarrow> None)"

datatype flow_route = Followed str task_step_view | Ended "str option"

record flow_move =
  fm_step :: task_step_view
  fm_route :: "flow_route option"
  fm_started :: bool

record proposed_flow =
  pf_steps :: nat
  pf_routes :: nat

record replanned =
  re_removed :: nat
  re_laid :: proposed_flow
  re_kept :: nat

subsection \<open>Progress\<close>

definition current_step :: "task_step list \<Rightarrow> step_visit list \<Rightarrow> id option" where
  "current_step released visits = (case List.find visit_is_open visits of
       Some v \<Rightarrow> Some (sv_step_id v)
     | None \<Rightarrow> (case List.find (\<lambda>step. running (ts_state step)) released of
         Some step \<Rightarrow> Some (ts_id step)
       | None \<Rightarrow> map_option ts_id (List.find (\<lambda>step. ts_state step = Open) released)))"

definition progress_state_of :: "task_step \<Rightarrow> bool \<Rightarrow> step_visit list \<Rightarrow> step_progress_state" where
  "progress_state_of step flow_ended visits = (case ts_state step of
       Running \<Rightarrow> PRunning
     | Claimed \<Rightarrow> PClaimed
     | Done \<Rightarrow> PDone
     | _ \<Rightarrow> if flow_ended \<and> \<not> list_ex (\<lambda>v. sv_step_id v = ts_id step) visits then PNotNeeded else POpen)"

definition progress_of :: "task_step list \<Rightarrow> step_visit list \<Rightarrow> step_link list \<Rightarrow> step_progress list" where
  "progress_of steps visits links =
     (let released = filter (\<lambda>step. \<not> draft (ts_state step)) steps;
          ended = (carries_routes links released \<and> flow_has_ended released visits);
          current = (if ended then None else current_step released visits)
      in map (\<lambda>step. \<lparr>sg_title = ts_title step, sg_state = progress_state_of step ended visits,
                       sg_current = (current = Some (ts_id step))\<rparr>) released)"

subsection \<open>Routes: StepLinkService\<close>

definition target_step :: "task_step \<Rightarrow> route_target \<Rightarrow> task_step option action" where
  "target_step from_step target = (case target_step_id target of
       None \<Rightarrow> tx_ok None
     | Some to_step_id \<Rightarrow>
         tx_bind (require_step to_step_id) (\<lambda>to_step.
         if ts_task_id from_step \<noteq> ts_task_id to_step
         then tx_fail (IllegalArgument (Msg ''are on different tasks'' [ts_title from_step, ts_title to_step]))
         else tx_ok (Some to_step)))"

definition refuse_released :: "task_step \<Rightarrow> unit result" where
  "refuse_released step =
     (if draft (ts_state step) then Inr ()
      else Inl (IllegalArgument (Msg ''is on the checklist already'' [ts_title step])))"

definition refuse_taken_outcome :: "task_step \<Rightarrow> step_link list \<Rightarrow> str \<Rightarrow> id option \<Rightarrow> unit result" where
  "refuse_taken_outcome from_step outgoing outcome except =
     refuse_if (list_ex (\<lambda>link. sl_outcome link = outcome \<and> Some (sl_id link) \<noteq> except) outgoing)
       (Conflict (Msg ''already routes by'' [ts_title from_step, outcome]))"

definition link_insert_in :: "unicode_case \<Rightarrow> task_step \<Rightarrow> id option \<Rightarrow> str option \<Rightarrow> unit action" where
  "link_insert_in u from_step to_step_id outcome =
     tx_bind (tx_lift (normalise_outcome u outcome)) (\<lambda>oc.
     tx_bind (tx_gets (links_list_from (ts_id from_step))) (\<lambda>outgoing.
     if length outgoing \<ge> ROUTES_PER_STEP_MAX
     then tx_fail (IllegalArgument (Msg ''already has the most routes out'' [ts_title from_step]))
     else
       tx_bind (tx_lift (refuse_taken_outcome from_step outgoing oc None)) (\<lambda>_.
       tx_bind ctx_now (\<lambda>now.
       tx_bind random_id (\<lambda>i.
       let link = step_link_new i (ts_task_id from_step) (ts_id from_step) to_step_id oc
                    (as_i32 (int (length outgoing))) now
       in tx_bind (tx_lift (link_validate link)) (\<lambda>_.
          tx_bind (insert_link link) (\<lambda>_. tx_ok ())))))))"

definition link_answer :: "id \<Rightarrow> task_step_view list action" where
  "link_answer task_id = tx_bind (publish_steps_in task_id) (\<lambda>_. find_by_task_in task_id)"

definition link_add_in :: "unicode_case \<Rightarrow> id \<Rightarrow> route_target \<Rightarrow> str option \<Rightarrow> id action" where
  "link_add_in u from_step_id target outcome =
     tx_bind (require_step from_step_id) (\<lambda>from_step.
     tx_bind (target_step from_step target) (\<lambda>to_step.
     tx_bind (link_insert_in u from_step (map_option ts_id to_step) outcome) (\<lambda>_.
     tx_ok (ts_task_id from_step))))"

definition link_add where
  "link_add u from_step_id target outcome = in_write
     (tx_bind (link_add_in u from_step_id target outcome) link_answer)"

definition link_propose_in :: "unicode_case \<Rightarrow> id \<Rightarrow> route_target \<Rightarrow> str \<Rightarrow> unit action" where
  "link_propose_in u from_step_id target outcome =
     tx_bind (require_step from_step_id) (\<lambda>from_step.
     tx_bind (target_step from_step target) (\<lambda>to_step.
     tx_bind (tx_lift (refuse_released from_step)) (\<lambda>_.
     tx_bind (case to_step of None \<Rightarrow> tx_ok () | Some to \<Rightarrow> tx_lift (refuse_released to)) (\<lambda>_.
     link_insert_in u from_step (map_option ts_id to_step) (Some outcome)))))"

definition link_edit_in :: "unicode_case \<Rightarrow> id \<Rightarrow> route_target option \<Rightarrow> str option \<Rightarrow> task_step_view list action" where
  "link_edit_in u i target outcome =
     tx_bind (require_link i) (\<lambda>before.
     tx_bind (case target of None \<Rightarrow> tx_ok before
        | Some tg \<Rightarrow>
            tx_bind (require_step (sl_from_step_id before)) (\<lambda>from_step.
            tx_bind (target_step from_step tg) (\<lambda>to_step.
            tx_ok (before\<lparr>sl_to_step_id := map_option ts_id to_step\<rparr>)))) (\<lambda>aimed.
     tx_bind (case outcome of None \<Rightarrow> tx_ok aimed
        | Some _ \<Rightarrow>
            tx_bind (tx_lift (normalise_outcome u outcome)) (\<lambda>oc.
            tx_bind (require_step (sl_from_step_id before)) (\<lambda>from_step.
            tx_bind (tx_gets (links_list_from (ts_id from_step))) (\<lambda>outgoing.
            tx_bind (tx_lift (refuse_taken_outcome from_step outgoing oc (Some i))) (\<lambda>_.
            tx_ok (aimed\<lparr>sl_outcome := oc\<rparr>)))))) (\<lambda>link.
     tx_bind (save_link before link) (\<lambda>_.
     link_answer (sl_task_id before)))))"

definition link_edit where
  "link_edit u i target outcome = in_write (link_edit_in u i target outcome)"

definition link_retarget_in :: "id \<Rightarrow> route_target \<Rightarrow> unit action" where
  "link_retarget_in i target =
     tx_bind (require_link i) (\<lambda>before.
     tx_bind (require_step (sl_from_step_id before)) (\<lambda>from_step.
     tx_bind (target_step from_step target) (\<lambda>to_step.
     tx_bind (save_link before (before\<lparr>sl_to_step_id := map_option ts_id to_step\<rparr>)) (\<lambda>_. tx_ok ()))))"

definition link_delete_in :: "id \<Rightarrow> task_step_view list action" where
  "link_delete_in i =
     tx_bind (require_link i) (\<lambda>link.
     tx_bind (delete_link i) (\<lambda>_. link_answer (sl_task_id link)))"

definition link_delete where
  "link_delete i = in_write (link_delete_in i)"

definition routes_from_in :: "id \<Rightarrow> step_link list action" where
  "routes_from_in step_id = tx_gets (links_list_from step_id)"

definition is_flow_in :: "id \<Rightarrow> bool action" where
  "is_flow_in task_id =
     tx_bind (tx_gets (links_of_task task_id)) (\<lambda>links.
     if links = [] then tx_ok False
     else tx_bind (tx_gets (\<lambda>s. filter (\<lambda>step. \<not> draft (ts_state step)) (steps_of task_id s))) (\<lambda>released.
          tx_ok (carries_routes links released)))"

subsection \<open>Visits: StepVisitService\<close>

definition refuse_spent_budget :: "task_step \<Rightarrow> nat \<Rightarrow> unit result" where
  "refuse_spent_budget step entered =
     (if admits_visit step entered then Inr ()
      else Inl (IllegalArgument (Msg ''its whole visit budget is spent'' [ts_title step])))"

definition visit_close :: "step_visit \<Rightarrow> str option \<Rightarrow> str option \<Rightarrow> step_visit action" where
  "visit_close visit outcome report = tx_bind ctx_now (\<lambda>now. update_visit (visit_leave outcome report now visit))"

definition visit_enter_new :: "task_step \<Rightarrow> step_visit action" where
  "visit_enter_new step =
     tx_bind (tx_gets (count_visits_of_step (ts_id step))) (\<lambda>entered.
     tx_bind (tx_lift (refuse_spent_budget step entered)) (\<lambda>_.
     tx_bind (tx_gets (last_ordinal (ts_task_id step))) (\<lambda>ordinal.
     tx_bind ctx_now (\<lambda>now.
     tx_bind random_id (\<lambda>i.
     insert_visit (visit_enter i (ts_task_id step) (ts_id step) (as_i32 (ordinal + 1)) now))))))"

definition enter_in :: "task_step \<Rightarrow> step_visit action" where
  "enter_in step =
     tx_bind (tx_gets (find_open_visit (ts_task_id step))) (\<lambda>found. case found of
       None \<Rightarrow> visit_enter_new step
     | Some visit \<Rightarrow>
         if sv_step_id visit = ts_id step then tx_ok visit
         else tx_bind (visit_close visit None None) (\<lambda>_. visit_enter_new step))"

definition leave_in :: "task_step \<Rightarrow> str option \<Rightarrow> str option \<Rightarrow> step_visit action" where
  "leave_in step outcome report = tx_bind (enter_in step) (\<lambda>visit. visit_close visit outcome report)"

definition clear_in :: "id \<Rightarrow> nat action" where
  "clear_in task_id = delete_visits_of_task task_id"

subsection \<open>A session's routed move: FlowService\<close>

definition outcome_for :: "unicode_case \<Rightarrow> bool \<Rightarrow> task_step_state \<Rightarrow> str option \<Rightarrow> str option result" where
  "outcome_for u is_flow target outcome = (case outcome of
       None \<Rightarrow> Inr None
     | Some raw \<Rightarrow>
         if rust_trim raw = [] then Inr None
         else if \<not> is_flow then Inl (IllegalArgument (Msg ''there is no outcome to follow'' []))
         else if target \<noteq> Claimed then Inl (IllegalArgument (Msg ''an outcome is passed with claimed'' []))
         else res_bind (normalise_outcome u (Some raw)) (\<lambda>oc. Inr (Some oc)))"

definition report_for :: "bool \<Rightarrow> task_step_state \<Rightarrow> str option \<Rightarrow> str option result" where
  "report_for is_flow target report = (case present report of
       None \<Rightarrow> Inr None
     | Some kept \<Rightarrow>
         if \<not> is_flow \<or> target \<noteq> Claimed then Inl (IllegalArgument (Msg ''a report is passed with claimed'' []))
         else res_bind (within kept REPORT_MAX_CHARACTERS (Msg ''the report is too long'' [])) (\<lambda>k. Inr (Some k)))"

definition is_start_in :: "unicode_case \<Rightarrow> id \<Rightarrow> str option \<Rightarrow> task_step_state \<Rightarrow> bool action" where
  "is_start_in u task_id step_ref target =
     (if target \<noteq> Running then tx_ok False
      else tx_bind (resolve_step u task_id step_ref) (\<lambda>step. tx_ok (ts_state step \<noteq> Running)))"

definition enter_step :: "id \<Rightarrow> task_step_view action" where
  "enter_step step_id =
     tx_bind (reopen_for_route_in step_id) (\<lambda>next.
     tx_bind (enter_in next) (\<lambda>_. view_in next))"

definition leave_by :: "task_step \<Rightarrow> str option \<Rightarrow> str option \<Rightarrow> flow_route action" where
  "leave_by claimed outcome report =
     tx_bind (routes_from_in (ts_id claimed)) (\<lambda>outgoing.
     tx_bind (tx_lift (choose_route (ts_title claimed) outgoing outcome)) (\<lambda>chosen. case chosen of
       None \<Rightarrow> tx_bind (leave_in claimed None report) (\<lambda>_. tx_ok (Ended None))
     | Some link \<Rightarrow>
         tx_bind (leave_in claimed (Some (sl_outcome link)) report) (\<lambda>_.
         case sl_to_step_id link of
           None \<Rightarrow> tx_ok (Ended (Some (sl_outcome link)))
         | Some next_step_id \<Rightarrow>
             tx_bind (enter_step next_step_id) (\<lambda>next. tx_ok (Followed (sl_outcome link) next)))))"

definition flow_transition_in ::
  "unicode_case \<Rightarrow> str option \<Rightarrow> str \<Rightarrow> str option \<Rightarrow> task_step_state \<Rightarrow> str option \<Rightarrow> str option \<Rightarrow> flow_move action" where
  "flow_transition_in u project_label task_label step_ref target outcome report =
     tx_bind (resolve_task u project_label task_label) (\<lambda>t.
     tx_bind (is_flow_in (tk_id t)) (\<lambda>is_flow.
     tx_bind (tx_lift (outcome_for u is_flow target outcome)) (\<lambda>oc.
     tx_bind (tx_lift (report_for is_flow target report)) (\<lambda>rp.
     tx_bind (is_start_in u (tk_id t) step_ref target) (\<lambda>started.
     tx_bind (transition_in u t step_ref target) (\<lambda>moved.
     tx_bind (if is_flow \<and> target = Running then tx_bind (enter_in moved) (\<lambda>_. tx_ok None)
              else if is_flow \<and> target = Claimed then tx_bind (leave_by moved oc rp) (\<lambda>r. tx_ok (Some r))
              else tx_ok None) (\<lambda>route.
     tx_bind (publish_steps_in (tk_id t)) (\<lambda>_.
     tx_bind (view_in moved) (\<lambda>view.
     tx_ok \<lparr>fm_step = view, fm_route = route, fm_started = started\<rparr>)))))))))"

definition flow_transition where
  "flow_transition u project_label task_label step_ref target outcome report =
     in_write (flow_transition_in u project_label task_label step_ref target outcome report)"

definition flow_reset_in :: "id \<Rightarrow> task_step_view list action" where
  "flow_reset_in task_id =
     tx_bind (task_or_unknown task_id) (\<lambda>_.
     tx_bind (clear_in task_id) (\<lambda>_.
     tx_bind (publish_steps_in task_id) (\<lambda>_. find_by_task_in task_id)))"

definition flow_reset where
  "flow_reset task_id = in_write (flow_reset_in task_id)"

subsection \<open>Laying a plan: FlowProposalService\<close>

definition lay_step :: "id \<Rightarrow> planned_step \<Rightarrow> task_step_view action" where
  "lay_step task_id planned =
     tx_bind (step_add_in task_id (Some (pl_title planned)) (pl_detail planned)) (\<lambda>dr.
     tx_bind (if pl_max_visits planned \<noteq> None
              then tx_bind (limit_visits_in (tv_id dr) (pl_max_visits planned)) (\<lambda>_. tx_ok ())
              else tx_ok ()) (\<lambda>_.
     tx_bind (if pl_starts_session planned
              then tx_bind (begin_session_in (tv_id dr) True) (\<lambda>_. tx_ok ())
              else tx_ok ()) (\<lambda>_. tx_ok dr)))"

definition lay_route :: "unicode_case \<Rightarrow> task_step_view list \<Rightarrow> task_step_view \<Rightarrow> planned_route \<Rightarrow> unit action" where
  "lay_route u drafts dr route = (case pl_to route of
       None \<Rightarrow> link_propose_in u (tv_id dr) ToEnd (pl_outcome route)
     | Some to \<Rightarrow>
         if to \<ge> length drafts then tx_fail (Internal (Msg ''FlowPlan::check keeps every route inside the plan'' []))
         else link_propose_in u (tv_id dr) (ToStep (tv_id (drafts ! to))) (pl_outcome route))"

definition lay_in :: "unicode_case \<Rightarrow> id \<Rightarrow> flow_plan \<Rightarrow> proposed_flow action" where
  "lay_in u task_id plan =
     tx_bind (tx_map (lay_step task_id) plan) (\<lambda>drafts.
     tx_bind (tx_each (\<lambda>(planned, dr). tx_each (lay_route u drafts dr) (pl_routes planned)) (zip plan drafts)) (\<lambda>_.
     tx_ok \<lparr>pf_steps = length drafts, pf_routes = route_count plan\<rparr>))"

definition require_no_steps :: "task_step_view list \<Rightarrow> unit result" where
  "require_no_steps existing =
     (if existing = [] then Inr () else Inl (IllegalArgument (Msg ''a flow is proposed onto a task with no steps'' [])))"

definition require_flow_has_no_kept_steps :: "flow_plan \<Rightarrow> task_step_view list \<Rightarrow> unit result" where
  "require_flow_has_no_kept_steps plan kept =
     (if route_count plan = 0 \<or> kept = [] then Inr ()
      else Inl (IllegalArgument (Msg ''a flow begins at the first step'' (map tv_title kept))))"

definition require_titles_free_of :: "unicode_case \<Rightarrow> flow_plan \<Rightarrow> task_step_view list \<Rightarrow> unit result" where
  "require_titles_free_of u plan kept = res_each (\<lambda>planned.
     case List.find (\<lambda>step. equals_ignore_case u (strip (tv_title step)) (strip (pl_title planned))) kept of
       None \<Rightarrow> Inr ()
     | Some step \<Rightarrow> Inl (IllegalArgument (Msg ''this task already has a step that stays'' [tv_title step]))) plan"

definition flow_propose_in :: "unicode_case \<Rightarrow> str option \<Rightarrow> str \<Rightarrow> flow_plan \<Rightarrow> staging \<Rightarrow> proposed_flow action" where
  "flow_propose_in u project_label task_label plan staging =
     tx_bind (resolve_task u project_label task_label) (\<lambda>t.
     tx_bind (find_by_task_in (tk_id t)) (\<lambda>existing.
     tx_bind (tx_lift (require_no_steps existing)) (\<lambda>_.
     tx_bind (lay_in u (tk_id t) plan) (\<lambda>laid.
     tx_bind (if staging = Ready then release_drafts_in (tk_id t) else tx_ok ()) (\<lambda>_.
     tx_bind (publish_steps_in (tk_id t)) (\<lambda>_. tx_ok laid))))))"

definition flow_propose ::
  "unicode_case \<Rightarrow> str option \<Rightarrow> str \<Rightarrow> flow_plan \<Rightarrow> staging \<Rightarrow> db \<Rightarrow> proposed_flow result \<times> db" where
  "flow_propose u project_label task_label plan staging s = (case plan_check u plan of
       Inl e \<Rightarrow> (Inl e, s)
     | Inr _ \<Rightarrow> in_write (flow_propose_in u project_label task_label plan staging) s)"

definition flow_replan_in :: "unicode_case \<Rightarrow> str option \<Rightarrow> str \<Rightarrow> flow_plan \<Rightarrow> staging \<Rightarrow> replanned action" where
  "flow_replan_in u project_label task_label plan staging =
     tx_bind (resolve_task u project_label task_label) (\<lambda>t.
     tx_bind (find_by_task_in (tk_id t)) (\<lambda>views.
     let kept = filter (\<lambda>step. \<not> unstarted (tv_state step)) views in
     tx_bind (tx_lift (require_flow_has_no_kept_steps plan kept)) (\<lambda>_.
     tx_bind (tx_lift (require_titles_free_of u plan kept)) (\<lambda>_.
     tx_bind (clear_unstarted_in (tk_id t)) (\<lambda>gone.
     tx_bind (lay_in u (tk_id t) plan) (\<lambda>laid.
     tx_bind (if staging = Ready then release_drafts_in (tk_id t) else tx_ok ()) (\<lambda>_.
     tx_bind (publish_steps_in (tk_id t)) (\<lambda>_.
     tx_ok \<lparr>re_removed = gone, re_laid = laid, re_kept = length kept\<rparr>))))))))"

definition flow_replan ::
  "unicode_case \<Rightarrow> str option \<Rightarrow> str \<Rightarrow> flow_plan \<Rightarrow> staging \<Rightarrow> db \<Rightarrow> replanned result \<times> db" where
  "flow_replan u project_label task_label plan staging s = (case check_as_written u plan of
       Inl e \<Rightarrow> (Inl e, s)
     | Inr _ \<Rightarrow> in_write (flow_replan_in u project_label task_label plan staging) s)"

text \<open>The definitions above, for running the model on concrete input.\<close>

lemmas flow_run [run_defs] = carries_routes_def flow_has_ended_def steps_entered_def route_named_def
  route_without_outcome_def choose_route_def target_step_id_def current_step_def
  progress_state_of_def progress_of_def target_step_def refuse_released_def
  refuse_taken_outcome_def link_insert_in_def link_answer_def link_add_in_def link_add_def
  link_propose_in_def link_edit_in_def link_edit_def link_retarget_in_def link_delete_in_def
  link_delete_def routes_from_in_def is_flow_in_def refuse_spent_budget_def visit_close_def
  visit_enter_new_def enter_in_def leave_in_def clear_in_def outcome_for_def report_for_def
  is_start_in_def enter_step_def leave_by_def flow_transition_in_def flow_transition_def
  flow_reset_in_def flow_reset_def lay_step_def lay_route_def lay_in_def require_no_steps_def
  require_flow_has_no_kept_steps_def require_titles_free_of_def flow_propose_in_def
  flow_propose_def flow_replan_in_def flow_replan_def

end
