(* ===== verification/Step_Facts.thy ===== *)
theory Step_Facts
  imports Steps
begin

section \<open>The checklist stays well formed\<close>

text \<open>
  The invariant of the checklist and that every operation of \<open>Steps\<close> keeps it: step ids are
  unique, every row passes its validation and belongs to a task, the moments a row carries are
  those of its state, and the positions of each task are dense from zero. A list of more than
  \<open>2 ^ 31\<close> steps is exempt from the last part, because the position is an \<^verbatim>\<open>i32\<close>.
\<close>

definition rows_ok :: "db \<Rightarrow> bool" where
  "rows_ok s \<longleftrightarrow> distinct (map ts_id (task_steps s)) \<and>
     (\<forall>r \<in> set (task_steps s). step_moments_ok r \<and> step_validate r = Inr () \<and> task_exists s (ts_task_id r))"

definition positions_of :: "id \<Rightarrow> db \<Rightarrow> int list" where
  "positions_of i s = map ts_position (filter (\<lambda>r. ts_task_id r = i) (task_steps s))"

definition dense :: "id \<Rightarrow> db \<Rightarrow> bool" where
  "dense i s \<longleftrightarrow> (length (positions_of i s) \<le> 2 ^ 31 \<longrightarrow>
     mset (positions_of i s) = mset (map int [0..<length (positions_of i s)]))"

definition steps_ok :: "db \<Rightarrow> bool" where
  "steps_ok s \<longleftrightarrow> rows_ok s \<and> (\<forall>i. dense i s)"

text \<open>The columns that the moments and the validation of a row do not look at.\<close>

lemma step_moments_frame [simp]:
  "step_moments_ok (r\<lparr>ts_updated_at := u\<rparr>) = step_moments_ok r"
  "step_moments_ok (r\<lparr>ts_position := p\<rparr>) = step_moments_ok r"
  "step_moments_ok (r\<lparr>ts_title := t\<rparr>) = step_moments_ok r"
  "step_moments_ok (r\<lparr>ts_body_markdown := b\<rparr>) = step_moments_ok r"
  "step_moments_ok (r\<lparr>ts_flow_x := fx, ts_flow_y := fy\<rparr>) = step_moments_ok r"
  "step_moments_ok (r\<lparr>ts_max_visits := v\<rparr>) = step_moments_ok r"
  "step_moments_ok (r\<lparr>ts_starts_session := f\<rparr>) = step_moments_ok r"
  "step_moments_ok (r\<lparr>ts_connection_id := c\<rparr>) = step_moments_ok r"
  by (simp_all add: step_moments_ok_def cong: task_step_state.case_cong)

lemma step_validate_frame [simp]:
  "step_validate (r\<lparr>ts_updated_at := u\<rparr>) = step_validate r"
  "step_validate (r\<lparr>ts_position := p\<rparr>) = step_validate r"
  by (simp_all add: step_validate_def)

text \<open>
  What an operation that deletes nothing keeps besides: the steps there were (with their task)
  and every table it has no business in. \<open>base\<close> is the state it started from.
\<close>

definition step_keys :: "db \<Rightarrow> (id \<times> id) list" where
  "step_keys s = map (\<lambda>r. (ts_id r, ts_task_id r)) (task_steps s)"

definition other_tables :: "db \<Rightarrow> db \<Rightarrow> bool" where
  "other_tables base s \<longleftrightarrow> projects s = projects base \<and> tasks s = tasks base
     \<and> task_dependencies s = task_dependencies base \<and> wrapups s = wrapups base \<and> wrapup_versions s = wrapup_versions base \<and> documents s = documents base
     \<and> document_tasks s = document_tasks base \<and> run_queues s = run_queues base \<and> run_queue_items s = run_queue_items base"

definition step_frame :: "db \<Rightarrow> db \<Rightarrow> bool" where
  "step_frame base s \<longleftrightarrow> steps_ok s \<and> set (step_keys base) \<subseteq> set (step_keys s) \<and> other_tables base s
     \<and> step_links s = step_links base \<and> step_visits s = step_visits base"

lemma step_frame_refl: "steps_ok s \<Longrightarrow> step_frame s s"
  by (simp add: step_frame_def other_tables_def)

text \<open>An operation that keeps the frame of wherever it started keeps the invariant, and more.\<close>

lemma frame_steps_ok: "(\<And>base. preserves (step_frame base) m) \<Longrightarrow> preserves steps_ok m"
  unfolding preserves_def using step_frame_def step_frame_refl by blast

lemma frame_ensures: "(\<And>base. preserves (step_frame base) m) \<Longrightarrow> ensures (\<lambda>s x t. steps_ok s \<longrightarrow> step_frame s t) m"
  unfolding preserves_def ensures_def using step_frame_refl by blast

subsection \<open>Reading\<close>

lemma step_reads_frame [simp]:
  "steps_of i (s\<lparr>events := e\<rparr>) = steps_of i s" "steps_of i (s\<lparr>clock := c\<rparr>) = steps_of i s"
  "steps_of i (s\<lparr>entropy := n\<rparr>) = steps_of i s"
  "find_step i (s\<lparr>events := e\<rparr>) = find_step i s" "find_step i (s\<lparr>clock := c\<rparr>) = find_step i s"
  "find_step i (s\<lparr>entropy := n\<rparr>) = find_step i s"
  by (simp_all add: steps_of_def find_step_def)

lemma steps_ok_table: "table_invariant steps_ok" "table_invariant rows_ok" "table_invariant (dense i)"
  by (simp_all add: table_invariant_def steps_ok_def rows_ok_def dense_def positions_of_def task_exists_def)

lemmas steps_ok_frame [simp] = steps_ok_table [THEN table_invariantD(1)] steps_ok_table [THEN table_invariantD(2)]
  steps_ok_table [THEN table_invariantD(3)]

lemma step_frame_table: "table_invariant (step_frame base)"
proof -
  have "step_frame base (s\<lparr>events := ev, announced := an, clock := ck, entropy := en\<rparr>) = step_frame base s" for s ev an ck en
    using steps_ok_table(1) by (simp add: step_frame_def table_invariant_def step_keys_def other_tables_def)
  then show ?thesis by (simp add: table_invariant_def)
qed

lemmas step_frame_frame [simp] = step_frame_table [THEN table_invariantD(1)]
  step_frame_table [THEN table_invariantD(2)] step_frame_table [THEN table_invariantD(3)]

lemma in_steps_of [simp]: "r \<in> set (steps_of i s) \<longleftrightarrow> r \<in> set (task_steps s) \<and> ts_task_id r = i"
  by (auto simp: steps_of_def)

lemma distinct_steps_of: "rows_ok s \<Longrightarrow> distinct (map ts_id (steps_of i s))"
  by (auto simp: rows_ok_def steps_of_def distinct_map inj_on_def)

lemma find_step_Some: "find_step i s = Some r \<Longrightarrow> r \<in> set (task_steps s) \<and> ts_id r = i"
  by (auto simp: find_step_def dest: find_row_Some)

lemma steps_okD:
  assumes "steps_ok s"
  shows "rows_ok s" "dense i s" "distinct (map ts_id (task_steps s))"
    "r \<in> set (task_steps s) \<Longrightarrow> step_moments_ok r"
    "r \<in> set (task_steps s) \<Longrightarrow> step_validate r = Inr ()"
    "r \<in> set (task_steps s) \<Longrightarrow> task_exists s (ts_task_id r)"
  using assms by (auto simp: steps_ok_def rows_ok_def)

lemma step_frame_ok: "step_frame base s \<Longrightarrow> steps_ok s"
  by (simp add: step_frame_def)

lemmas step_frameD = step_frame_ok [THEN steps_okD(1)] step_frame_ok [THEN steps_okD(2)]
  step_frame_ok [THEN steps_okD(3)] step_frame_ok [THEN steps_okD(4)] step_frame_ok [THEN steps_okD(5)]
  step_frame_ok [THEN steps_okD(6)]

lemma wp_step_require [wp_simps]:
  "wp (step_require i) Q s = (\<forall>r. find_step i s = Some r \<longrightarrow> Q r s)"
  by (auto simp: step_require_def wp_simps split: option.splits)

lemma wp_require [wp_simps]:
  "wp (require_step i) Q s = (\<forall>r. find_step i s = Some r \<longrightarrow> Q r s)"
  "wp (task_or_unknown j) T s = (\<forall>r. find_task j s = Some r \<longrightarrow> T r s)"
  by (auto simp: require_step_def task_or_unknown_def wp_simps split: option.splits)

lemma wp_resolve:
  "(\<And>r. r \<in> set (tasks s) \<Longrightarrow> T r s) \<Longrightarrow> wp (resolve_task u pl l) T s"
  "(\<And>r. r \<in> set (task_steps s) \<Longrightarrow> ts_task_id r = i \<Longrightarrow> Q r s) \<Longrightarrow> wp (resolve_step u i reference) Q s"
  by (auto intro!: wpI dest: resolve_task_Inr resolve_step_Inr)

text \<open>Code that only reads.\<close>

definition reads :: "('s, 'a) tx \<Rightarrow> bool" where
  "reads m \<longleftrightarrow> (\<forall>s x t. m s = Inr (x, t) \<longrightarrow> t = s)"

lemma wp_reads: "reads m \<Longrightarrow> (\<And>x. Q x s) \<Longrightarrow> wp m Q s"
  by (auto simp: reads_def wp_def)

lemma reads_preserves: "reads m \<Longrightarrow> preserves I m"
  by (auto simp: reads_def preserves_def)

lemma reads_base:
  "reads (tx_ok x)" "reads (tx_fail e)" "reads (tx_gets f)" "reads (tx_lift r)"
  by (auto simp: reads_def)

lemma reads_bind: "reads m \<Longrightarrow> (\<And>x. reads (g x)) \<Longrightarrow> reads (tx_bind m g)"
  unfolding reads_def tx_bind_Inr by blast

lemma reads_tx_map: "(\<And>x. reads (f x)) \<Longrightarrow> reads (tx_map f xs)"
  by (induction xs) (auto intro: reads_base reads_bind)

lemma reads_views: "reads (find_by_task_in i)" "reads (view_in r)"
  by (auto simp: find_by_task_in_def view_in_def intro!: reads_base reads_bind reads_tx_map)

lemma wp_views:
  "(\<And>v. Q v s) \<Longrightarrow> wp (view_in r) Q s"
  "(\<And>vs. T vs s) \<Longrightarrow> wp (find_by_task_in i) T s"
  by (auto intro: wp_reads reads_views)

lemma wp_publish_steps: "(\<And>ev. Q () (s\<lparr>events := ev\<rparr>)) \<Longrightarrow> wp (publish_steps_in i) Q s"
  unfolding publish_steps_in_def by (auto simp: wp_simps intro!: wp_views)

subsection \<open>The writes the operations are made of\<close>

lemma save_step_Inr:
  assumes "save_step before after s = Inr (x, t)" and "distinct (map ts_id (task_steps s))"
    and "before \<in> set (task_steps s)" and "ts_id after = ts_id before"
  obtains u where "x = after\<lparr>ts_updated_at := u\<rparr>"
    and "t = s\<lparr>task_steps := replace_row ts_id x (task_steps s), clock := stl (clock s)\<rparr>"
    and "after \<noteq> before \<longrightarrow> step_validate after = Inr ()"
proof (cases "after = before")
  case True
  then have "x = before\<lparr>ts_updated_at := ts_updated_at before\<rparr>"
    and t: "t = s\<lparr>clock := stl (clock s)\<rparr>" and x: "x = before"
    using assms(1) by (auto simp: save_step_def update_if_changed_def tx_bind_Inr ctx_now_def)
  moreover have "t = s\<lparr>task_steps := replace_row ts_id x (task_steps s), clock := stl (clock s)\<rparr>"
    using assms(2,3) t x by (simp add: replace_row_id)
  ultimately show ?thesis using that [of "ts_updated_at before"] True by simp
next
  case False
  then show ?thesis
    using assms(1) that [of "shd (clock s)"]
    by (auto simp: save_step_def update_if_changed_def tx_bind_Inr ctx_now_def update_step_def
        step_table.update_Inr Let_def)
qed

lemma positions_replace:
  assumes "distinct (map ts_id (task_steps s))" and "before \<in> set (task_steps s)"
    and "ts_id x = ts_id before" "ts_task_id x = ts_task_id before" "ts_position x = ts_position before"
  shows "positions_of i (s\<lparr>task_steps := replace_row ts_id x (task_steps s), clock := c\<rparr>) = positions_of i s"
proof -
  have "map ts_position (filter (\<lambda>r. ts_task_id r = i) (replace_row ts_id x rs)) =
        map ts_position (filter (\<lambda>r. ts_task_id r = i) rs)"
    if "\<forall>r \<in> set rs. ts_id r = ts_id before \<longrightarrow> r = before" for rs
    using that assms(3-5) by (induction rs) (auto simp: replace_row_def)
  moreover have "\<forall>r \<in> set (task_steps s). ts_id r = ts_id before \<longrightarrow> r = before"
    using assms(1,2) by (auto simp: distinct_map inj_on_def)
  ultimately show ?thesis by (simp add: positions_of_def)
qed

lemma step_keys_replace:
  assumes "distinct (map ts_id (task_steps s))" and "before \<in> set (task_steps s)"
    and "ts_id x = ts_id before" "ts_task_id x = ts_task_id before"
  shows "step_keys (s\<lparr>task_steps := replace_row ts_id x (task_steps s), clock := c\<rparr>) = step_keys s"
  using assms by (auto simp: step_keys_def replace_row_def distinct_map inj_on_def)

text \<open>A save that keeps the task and the position of a row it was read from.\<close>

lemma wp_save_step:
  assumes frame: "step_frame base s" and before: "before \<in> set (task_steps s)"
    and same: "ts_id after = ts_id before" "ts_task_id after = ts_task_id before"
      "ts_position after = ts_position before"
    and moments: "step_moments_ok after"
    and post: "\<And>u t. \<lbrakk>step_frame base t; after\<lparr>ts_updated_at := u\<rparr> \<in> set (task_steps t);
      t = s\<lparr>task_steps := replace_row ts_id (after\<lparr>ts_updated_at := u\<rparr>) (task_steps s), clock := stl (clock s)\<rparr>\<rbrakk>
      \<Longrightarrow> Q (after\<lparr>ts_updated_at := u\<rparr>) t"
  shows "wp (save_step before after) Q s"
proof (rule wpI)
  note ok = step_frame_ok [OF frame]
  fix x t assume run: "save_step before after s = Inr (x, t)"
  from save_step_Inr [OF run steps_okD(3) [OF ok] before same(1)] obtain u
    where x: "x = after\<lparr>ts_updated_at := u\<rparr>"
      and t: "t = s\<lparr>task_steps := replace_row ts_id x (task_steps s), clock := stl (clock s)\<rparr>"
      and valid: "after \<noteq> before \<longrightarrow> step_validate after = Inr ()"
    by blast
  have v: "step_validate after = Inr ()" using valid steps_okD(5) [OF ok before] by auto
  have "task_exists s (ts_task_id after)" using steps_okD(6) [OF ok before] same by simp
  then have "rows_ok t"
    using steps_okD(1) [OF ok] v moments x same
    by (auto simp: rows_ok_def t set_replace_row task_exists_def)
  moreover have "dense i t" for i
    using positions_replace [OF steps_okD(3) [OF ok] before, of x i "stl (clock s)"] x same steps_okD(2) [OF ok, of i]
    by (simp add: dense_def t)
  ultimately have "steps_ok t" by (simp add: steps_ok_def)
  moreover have "step_keys t = step_keys s"
    using step_keys_replace [OF steps_okD(3) [OF ok] before] x same by (simp add: t)
  ultimately have "step_frame base t" using frame by (simp add: step_frame_def other_tables_def t)
  moreover have "x \<in> set (task_steps t)" using before same x by (auto simp: t set_replace_row)
  ultimately show "Q x t" using post [of t u] x t by simp
qed

lemma wp_save_marked:
  assumes "step_frame base s" "before \<in> set (task_steps s)"
    and "\<And>m u t. \<lbrakk>step_frame base t; (mark_state m st before)\<lparr>ts_updated_at := u\<rparr> \<in> set (task_steps t);
       t = s\<lparr>task_steps := replace_row ts_id ((mark_state m st before)\<lparr>ts_updated_at := u\<rparr>) (task_steps s),
             clock := stl (stl (clock s))\<rparr>\<rbrakk> \<Longrightarrow> Q ((mark_state m st before)\<lparr>ts_updated_at := u\<rparr>) t"
  shows "wp (save_marked st before) Q s"
  unfolding save_marked_def wp_simps
  by (rule wp_save_step) (use assms in \<open>auto simp: mark_state_moments step_frameD\<close>)

subsection \<open>Renumbering\<close>

text \<open>What a step becomes when it is moved to position \<open>n\<close>.\<close>

definition placed_at :: "int \<Rightarrow> task_step \<Rightarrow> task_step set" where
  "placed_at n r = {r\<lparr>ts_position := n, ts_updated_at := u\<rparr> |u. True}"

lemma step_placed_keys:
  "list_all2 (\<lambda>(at, r) r'. r' \<in> placed_at (as_i32 (int at)) r) (enumerate n ordered) written \<Longrightarrow>
     map ts_id written = map ts_id ordered"
  by (induction ordered arbitrary: n written) (auto simp: list_all2_Cons1 placed_at_def)

lemma renumber_from:
  assumes "tx_map (\<lambda>(at, before). save_step before (before\<lparr>ts_position := as_i32 (int at)\<rparr>)) (enumerate n ordered) s
      = Inr (x, t)"
    and "distinct (map ts_id (task_steps s))" and "distinct (map ts_id ordered)"
    and "set ordered \<subseteq> set (task_steps s)"
  shows "\<exists>written ck. t = s\<lparr>task_steps := overlay ts_id written (task_steps s), clock := ck\<rparr> \<and>
      list_all2 (\<lambda>(at, r) r'. r' \<in> placed_at (as_i32 (int at)) r) (enumerate n ordered) written"
  using assms
proof (induction ordered arbitrary: n s x)
  case Nil
  then have "t = s\<lparr>task_steps := overlay ts_id [] (task_steps s), clock := clock s\<rparr>" by simp
  then show ?case by fastforce
next
  case (Cons r ordered)
  let ?after = "r\<lparr>ts_position := as_i32 (int n)\<rparr>"
  from Cons.prems(1) obtain r' s1 rest where r': "save_step r ?after s = Inr (r', s1)"
    and rest: "tx_map (\<lambda>(at, before). save_step before (before\<lparr>ts_position := as_i32 (int at)\<rparr>))
        (enumerate (Suc n) ordered) s1 = Inr (rest, t)"
    by (auto simp: tx_bind_Inr)
  obtain u where u: "r' = ?after\<lparr>ts_updated_at := u\<rparr>"
    and s1: "s1 = s\<lparr>task_steps := replace_row ts_id r' (task_steps s), clock := stl (clock s)\<rparr>"
    using save_step_Inr [OF r' Cons.prems(2)] Cons.prems(4) by auto
  have "set ordered \<subseteq> set (task_steps s1)"
  proof
    fix q assume "q \<in> set ordered"
    then have "q \<in> set (task_steps s)" "ts_id q \<noteq> ts_id r"
      using Cons.prems(3,4) by (auto simp: image_iff)
    then show "q \<in> set (task_steps s1)" by (simp add: s1 set_replace_row u)
  qed
  moreover have "distinct (map ts_id (task_steps s1))" using Cons.prems(2) by (simp add: s1)
  ultimately obtain written ck where t: "t = s1\<lparr>task_steps := overlay ts_id written (task_steps s1), clock := ck\<rparr>"
    and w: "list_all2 (\<lambda>(at, r) r'. r' \<in> placed_at (as_i32 (int at)) r) (enumerate (Suc n) ordered) written"
    using Cons.IH [OF rest] Cons.prems(3) by auto
  have "map ts_id written = map ts_id ordered" by (rule step_placed_keys [OF w])
  then have "ts_id ` set written = ts_id ` set ordered" by (metis list.set_map)
  then have "ts_id r' \<notin> ts_id ` set written" using Cons.prems(3) u by simp
  then have "t = s\<lparr>task_steps := overlay ts_id (r' # written) (task_steps s), clock := ck\<rparr>"
    by (simp add: t s1 overlay_Cons)
  moreover have "r' \<in> placed_at (as_i32 (int n)) r" by (auto simp: placed_at_def u)
  ultimately show ?case using w by (intro exI [of _ "r' # written"] exI [of _ ck]) simp
qed

interpretation step_order: renumbering task_steps ts_id ts_position placed_at renumber
proof
  fix ordered s x t
  assume "renumber ordered s = Inr (x, t)" "distinct (map ts_id (task_steps s))"
    "distinct (map ts_id ordered)" "set ordered \<subseteq> set (task_steps s)"
  then show "\<exists>written. task_steps t = overlay ts_id written (task_steps s) \<and>
      list_all2 (\<lambda>(at, r) r'. r' \<in> placed_at (as_i32 (int at)) r) (enumerate 0 ordered) written"
    using renumber_from [of 0 ordered s x t] by (auto simp: renumber_def)
qed (auto simp: placed_at_def)

lemma filter_map_frame:
  "(\<And>r. r \<in> set rs \<Longrightarrow> P (g r) = P r) \<Longrightarrow> (\<And>r. r \<in> set rs \<Longrightarrow> P r \<Longrightarrow> g r = r) \<Longrightarrow>
     filter P (map g rs) = filter P rs"
  by (induction rs) auto

text \<open>Writing rows of one task over the table leaves the checklists of the others as they were.\<close>

lemma overlay_other_task:
  assumes "\<forall>r \<in> set written. ts_task_id r = i"
    and "\<forall>r \<in> set rs. ts_id r \<in> ts_id ` set written \<longrightarrow> ts_task_id r = i" and "j \<noteq> i"
  shows "filter (\<lambda>r. ts_task_id r = j) (overlay ts_id written rs) = filter (\<lambda>r. ts_task_id r = j) rs"
proof -
  have "ts_task_id (case find_row ts_id (ts_id r) written of Some r' \<Rightarrow> r' | None \<Rightarrow> r) = ts_task_id r"
    and "ts_task_id r = j \<Longrightarrow> (case find_row ts_id (ts_id r) written of Some r' \<Rightarrow> r' | None \<Rightarrow> r) = r"
    if "r \<in> set rs" for r
  proof -
    have "ts_task_id r = i \<and> ts_task_id r' = i" if "find_row ts_id (ts_id r) written = Some r'" for r'
      using find_row_Some [OF that] assms(1,2) \<open>r \<in> set rs\<close> by (metis imageI)
    then show "ts_task_id (case find_row ts_id (ts_id r) written of Some r' \<Rightarrow> r' | None \<Rightarrow> r) = ts_task_id r"
      and "ts_task_id r = j \<Longrightarrow> (case find_row ts_id (ts_id r) written of Some r' \<Rightarrow> r' | None \<Rightarrow> r) = r"
      using assms(3) by (auto split: option.split)
  qed
  then show ?thesis unfolding overlay_def by (intro filter_map_frame) simp_all
qed

lemma overlay_keys_tasks:
  fixes written rs :: "task_step list"
  assumes "\<forall>r \<in> set written. ts_task_id r = i"
    and "\<forall>r \<in> set rs. ts_id r \<in> ts_id ` set written \<longrightarrow> ts_task_id r = i"
  shows "map (\<lambda>r. (ts_id r, ts_task_id r)) (overlay ts_id written rs) = map (\<lambda>r. (ts_id r, ts_task_id r)) rs"
proof -
  have same: "ts_id r' = ts_id r \<and> ts_task_id r' = ts_task_id r"
    if r: "r \<in> set rs" and r': "find_row ts_id (ts_id r) written = Some r'" for r r'
  proof -
    have "r' \<in> set written" "ts_id r' = ts_id r" using find_row_Some [OF r'] by auto
    moreover from this have "ts_id r \<in> ts_id ` set written" by (metis imageI)
    ultimately show ?thesis using assms r by simp
  qed
  have "(ts_id (case find_row ts_id (ts_id r) written of Some r' \<Rightarrow> r' | None \<Rightarrow> r),
      ts_task_id (case find_row ts_id (ts_id r) written of Some r' \<Rightarrow> r' | None \<Rightarrow> r)) = (ts_id r, ts_task_id r)"
    if "r \<in> set rs" for r
    using same [OF that] by (cases "find_row ts_id (ts_id r) written") simp_all
  then show ?thesis by (simp add: overlay_def)
qed

text \<open>Renumbering the whole checklist of task \<open>i\<close>, in whatever order: the rows it writes.\<close>

lemma renumber_written:
  assumes run: "renumber ordered s = Inr (x, t)" and keys: "distinct (map ts_id (task_steps s))"
    and whole: "set ordered = {r \<in> set (task_steps s). ts_task_id r = i}"
    and ord: "distinct (map ts_id ordered)"
  obtains written ck where "t = s\<lparr>task_steps := overlay ts_id written (task_steps s), clock := ck\<rparr>"
    and "map ts_id written = map ts_id ordered"
    and "\<forall>r \<in> set written. \<exists>r0 \<in> set ordered. \<exists>n. r \<in> placed_at n r0"
    and "set (task_steps t) = set written \<union> {r \<in> set (task_steps s). ts_id r \<notin> ts_id ` set ordered}"
proof -
  obtain written ck where t: "t = s\<lparr>task_steps := overlay ts_id written (task_steps s), clock := ck\<rparr>"
    and w: "list_all2 (\<lambda>(at, r) r'. r' \<in> placed_at (as_i32 (int at)) r) (enumerate 0 ordered) written"
    using renumber_from [of 0 ordered s x t] run keys ord whole by (auto simp: renumber_def)
  have kw: "map ts_id written = map ts_id ordered" by (rule step_placed_keys [OF w])
  have kset: "ts_id ` set written = ts_id ` set ordered" using kw by (metis list.set_map)
  have origin: "\<exists>r0 \<in> set ordered. \<exists>n. r \<in> placed_at n r0" if member: "r \<in> set written" for r
  proof -
    obtain k where k: "k < length written" "r = written ! k"
      using member by (auto simp: in_set_conv_nth)
    moreover have "length ordered = length written" using kw by (metis length_map)
    ultimately show ?thesis using list_all2_nthD2 [OF w, of k]
      by (auto simp: nth_enumerate_eq intro!: bexI [of _ "ordered ! k"])
  qed
  have st: "set (task_steps t) = set written \<union> {r \<in> set (task_steps s). ts_id r \<notin> ts_id ` set ordered}"
    using set_overlay [of ts_id written "task_steps s"] kw ord kset whole by (auto simp: t)
  from origin have "\<forall>r \<in> set written. \<exists>r0 \<in> set ordered. \<exists>n. r \<in> placed_at n r0" by simp
  from that [OF t kw this st] show ?thesis .
qed

lemma renumber_rows_ok:
  assumes "renumber ordered s = Inr (x, t)" and ok: "rows_ok s"
    and whole: "set ordered = {r \<in> set (task_steps s). ts_task_id r = i}"
    and "distinct (map ts_id ordered)"
  shows "rows_ok t" "length (positions_of i t) = length ordered" "j \<noteq> i \<Longrightarrow> positions_of j t = positions_of j s"
    "\<exists>rs ck. t = s\<lparr>task_steps := rs, clock := ck\<rparr>" "map ts_id (task_steps t) = map ts_id (task_steps s)"
    "j \<noteq> i \<Longrightarrow> steps_of j t = steps_of j s" "step_keys t = step_keys s"
proof -
  have keys: "distinct (map ts_id (task_steps s))" using ok by (simp add: rows_ok_def)
  obtain written ck where t: "t = s\<lparr>task_steps := overlay ts_id written (task_steps s), clock := ck\<rparr>"
      and kw: "map ts_id written = map ts_id ordered"
      and origin: "\<forall>r \<in> set written. \<exists>r0 \<in> set ordered. \<exists>n. r \<in> placed_at n r0"
      and st: "set (task_steps t) = set written \<union> {r \<in> set (task_steps s). ts_id r \<notin> ts_id ` set ordered}"
    by (rule renumber_written [OF assms(1) keys whole assms(4)])
  show "\<exists>rs ck. t = s\<lparr>task_steps := rs, clock := ck\<rparr>" using t by blast
  show ids: "map ts_id (task_steps t) = map ts_id (task_steps s)" by (simp add: t)
  have good: "step_moments_ok r \<and> step_validate r = Inr () \<and> task_exists s (ts_task_id r) \<and> ts_task_id r = i"
    if "r \<in> set written" for r
    using origin that whole ok by (fastforce simp: placed_at_def rows_ok_def)
  show rows: "rows_ok t"
    using ok keys good st ids by (auto simp: rows_ok_def task_exists_def t)
  have kset: "ts_id ` set written = ts_id ` set ordered" using kw by (metis list.set_map)
  have mine: "\<forall>r \<in> set (task_steps s). ts_id r \<in> ts_id ` set written \<longrightarrow> ts_task_id r = i"
    using whole kset keys by (auto simp: distinct_map inj_on_def)
  have "\<forall>r \<in> set written. ts_task_id r = i" using good by blast
  from overlay_keys_tasks [OF this mine] show "step_keys t = step_keys s" by (simp add: step_keys_def t)
  from mine show "positions_of j t = positions_of j s" "steps_of j t = steps_of j s" if "j \<noteq> i"
    using overlay_other_task [of written i _ j] good that by (simp_all add: positions_of_def steps_of_def t)
  have "set (filter (\<lambda>r. ts_task_id r = i) (task_steps t)) = set written"
    using st good whole kset by auto
  moreover have "distinct (task_steps t)" using rows by (simp add: rows_ok_def distinct_map)
  moreover have "distinct written" "length written = length ordered"
    using kw assms(4) by (metis distinct_map, metis length_map)
  ultimately show "length (positions_of i t) = length ordered"
    unfolding positions_of_def by (metis distinct_card distinct_filter length_map)
qed

lemma renumber_Inr:
  assumes run: "renumber ordered s = Inr (x, t)" and ok: "rows_ok s"
    and others: "\<And>j. j \<noteq> i \<Longrightarrow> dense j s"
    and whole: "set ordered = {r \<in> set (task_steps s). ts_task_id r = i}"
    and ord: "distinct (map ts_id ordered)"
  shows "steps_ok t"
    "length ordered \<le> 2 ^ 31 \<Longrightarrow>
       list_all2 (\<lambda>(at, r) r'. r' \<in> placed_at (int at) r) (enumerate 0 ordered) (steps_of i t)"
    "length ordered \<le> 2 ^ 31 \<Longrightarrow> map ts_position (steps_of i t) = map int [0..<length ordered]"
    "length ordered \<le> 2 ^ 31 \<Longrightarrow> map ts_id (steps_of i t) = map ts_id ordered"
proof -
  have keys: "distinct (map ts_id (task_steps s))" using ok by (simp add: rows_ok_def)
  note facts = renumber_rows_ok [OF run ok whole ord]
  note listing = step_order.listing_after_renum [OF run keys ord whole, folded steps_of_def]
  have resp: "\<And>n r r'. r' \<in> placed_at n r \<Longrightarrow> (ts_task_id r' = i) = (ts_task_id r = i)"
    by (auto simp: placed_at_def)
  have "dense i t"
  proof (unfold dense_def, rule impI)
    assume "length (positions_of i t) \<le> 2 ^ 31"
    then have "map ts_position (steps_of i t) = map int [0..<length ordered]"
      using listing(2) [OF resp] facts(2) by simp
    then have "mset (map ts_position (steps_of i t)) = mset (map int [0..<length ordered])" by simp
    then have "mset (positions_of i t) = mset (map int [0..<length ordered])"
      by (simp add: steps_of_def positions_of_def)
    then show "mset (positions_of i t) = mset (map int [0..<length (positions_of i t)])"
      by (simp add: facts(2))
  qed
  moreover have "dense j t" if "j \<noteq> i" for j
    using facts(3) [OF that] others [OF that] by (simp add: dense_def)
  ultimately show "steps_ok t" using facts(1) unfolding steps_ok_def by metis
  show "list_all2 (\<lambda>(at, r) r'. r' \<in> placed_at (int at) r) (enumerate 0 ordered) (steps_of i t)"
    if "length ordered \<le> 2 ^ 31"
    by (rule listing(1)) (use resp that in simp_all)
  show "map ts_position (steps_of i t) = map int [0..<length ordered]" if "length ordered \<le> 2 ^ 31"
    by (rule listing(2)) (use resp that in simp_all)
  show "map ts_id (steps_of i t) = map ts_id ordered" if "length ordered \<le> 2 ^ 31"
    by (rule listing(3)) (use resp that in simp_all)
qed

lemma wp_renumber:
  assumes "rows_ok s" "\<And>j. j \<noteq> i \<Longrightarrow> dense j s"
    "set ordered = {r \<in> set (task_steps s). ts_task_id r = i}" "distinct (map ts_id ordered)"
    and post: "\<And>x rs ck. steps_ok (s\<lparr>task_steps := rs, clock := ck\<rparr>) \<Longrightarrow>
      step_keys (s\<lparr>task_steps := rs, clock := ck\<rparr>) = step_keys s \<Longrightarrow> Q x (s\<lparr>task_steps := rs, clock := ck\<rparr>)"
  shows "wp (renumber ordered) Q s"
proof (rule wpI)
  fix x t assume run: "renumber ordered s = Inr (x, t)"
  obtain rs ck where t: "t = s\<lparr>task_steps := rs, clock := ck\<rparr>"
    using renumber_rows_ok(4) [OF run assms(1,3,4)] by blast
  then show "Q x t"
    using post renumber_Inr(1) [OF run assms(1-4)] renumber_rows_ok(7) [OF run assms(1,3,4)] by simp
qed

lemma distinct_partition:
  "distinct (map f xs) \<Longrightarrow> distinct (map f (filter (\<lambda>r. \<not> P r) xs @ filter P xs))"
  by (auto simp: distinct_map inj_on_def)

lemma wp_settle:
  assumes frame: "step_frame base s" and "set ordered = {r \<in> set (task_steps s). ts_task_id r = i}"
    and "distinct (map ts_id ordered)"
    and "\<And>rs ck. step_frame base (s\<lparr>task_steps := rs, clock := ck\<rparr>) \<Longrightarrow> Q () (s\<lparr>task_steps := rs, clock := ck\<rparr>)"
  shows "wp (settle_drafts_at_tail ordered) Q s"
  unfolding settle_drafts_at_tail_def Let_def wp_simps
proof (rule wp_renumber [where i = i])
  show "distinct (map ts_id (filter (\<lambda>r. \<not> draft (ts_state r)) ordered @ filter (\<lambda>r. draft (ts_state r)) ordered))"
    by (rule distinct_partition) (rule assms(3))
  fix rs ck
  assume "steps_ok (s\<lparr>task_steps := rs, clock := ck\<rparr>)" "step_keys (s\<lparr>task_steps := rs, clock := ck\<rparr>) = step_keys s"
  then have "step_frame base (s\<lparr>task_steps := rs, clock := ck\<rparr>)"
    using frame by (simp add: step_frame_def other_tables_def)
  then show "Q () (s\<lparr>task_steps := rs, clock := ck\<rparr>)" by (rule assms(4))
qed (use assms in \<open>auto simp: step_frameD\<close>)

text \<open>What the checklist reads like after it was settled.\<close>

lemma settle_Inr:
  assumes run: "settle_drafts_at_tail ordered s = Inr (x, t)" and ok: "steps_ok s"
    and whole: "set ordered = {r \<in> set (task_steps s). ts_task_id r = i}" and ord: "distinct (map ts_id ordered)"
    and size: "length ordered \<le> 2 ^ 31"
  shows "map ts_id (steps_of i t) =
      map ts_id (filter (\<lambda>r. \<not> draft (ts_state r)) ordered @ filter (\<lambda>r. draft (ts_state r)) ordered)"
    and "map ts_position (steps_of i t) = map int [0..<length ordered]"
    and "j \<noteq> i \<Longrightarrow> steps_of j t = steps_of j s"
    and "\<exists>rs ck. t = s\<lparr>task_steps := rs, clock := ck\<rparr>"
    and "list_all2 (\<lambda>(at, r) r'. r' \<in> placed_at (int at) r)
      (enumerate 0 (filter (\<lambda>r. \<not> draft (ts_state r)) ordered @ filter (\<lambda>r. draft (ts_state r)) ordered)) (steps_of i t)"
proof -
  let ?settled = "filter (\<lambda>r. \<not> draft (ts_state r)) ordered @ filter (\<lambda>r. draft (ts_state r)) ordered"
  obtain y where r: "renumber ?settled s = Inr (y, t)"
    using run by (auto simp: settle_drafts_at_tail_def Let_def tx_bind_Inr)
  have w: "set ?settled = {r \<in> set (task_steps s). ts_task_id r = i}" using whole by auto
  have d: "distinct (map ts_id ?settled)" by (rule distinct_partition) (rule ord)
  have n: "length ?settled = length ordered"
    using sum_length_filter_compl [of "\<lambda>r. draft (ts_state r)" ordered] by simp
  show "map ts_id (steps_of i t) = map ts_id ?settled" "map ts_position (steps_of i t) = map int [0..<length ordered]"
    "list_all2 (\<lambda>(at, r) r'. r' \<in> placed_at (int at) r) (enumerate 0 ?settled) (steps_of i t)"
    using renumber_Inr(2-4) [OF r steps_okD(1) [OF ok] steps_okD(2) [OF ok] w d] n size by simp_all
  show "j \<noteq> i \<Longrightarrow> steps_of j t = steps_of j s" "\<exists>rs ck. t = s\<lparr>task_steps := rs, clock := ck\<rparr>"
    using renumber_rows_ok(4,6) [OF r steps_okD(1) [OF ok] w d] by blast+
qed

lemma wp_settle_checklist:
  assumes "step_frame base s"
    and "\<And>rs ck. step_frame base (s\<lparr>task_steps := rs, clock := ck\<rparr>) \<Longrightarrow> Q () (s\<lparr>task_steps := rs, clock := ck\<rparr>)"
  shows "wp (settle_drafts_at_tail (steps_of i s)) Q (s\<lparr>clock := c\<rparr>)"
  by (rule wp_settle [where i = i]) (use assms in \<open>auto simp: distinct_steps_of step_frameD\<close>)

subsection \<open>Inserting and deleting\<close>

lemma positions_of_append:
  "positions_of i (s\<lparr>task_steps := task_steps s @ [r]\<rparr>) =
     (if ts_task_id r = i then positions_of i s @ [ts_position r] else positions_of i s)"
  by (simp add: positions_of_def)

lemma length_steps_of: "length (steps_of i s) = length (positions_of i s)"
  by (simp add: steps_of_def positions_of_def)

lemma wp_insert_step:
  assumes frame: "step_frame base s" and "step_moments_ok r" "step_validate r = Inr ()"
    and pos: "ts_position r = as_i32 (int (length (steps_of (ts_task_id r) s)))"
    and post: "\<And>t. \<lbrakk>step_frame base t; t = s\<lparr>task_steps := task_steps s @ [r]\<rparr>\<rbrakk> \<Longrightarrow> Q r t"
  shows "wp (insert_step r) Q s"
proof (rule wpI)
  note ok = step_frame_ok [OF frame]
  fix x t assume "insert_step r s = Inr (x, t)"
  then have x: "x = r" and t: "t = s\<lparr>task_steps := task_steps s @ [r]\<rparr>"
    and new: "ts_id r \<notin> ts_id ` set (task_steps s)" and fk: "task_exists s (ts_task_id r)"
    by (auto simp: insert_step_def step_table.insert_Inr step_ok_def)
  have "rows_ok t" using ok assms(2,3) new fk by (auto simp: steps_ok_def rows_ok_def t task_exists_def)
  moreover have "dense i t" for i
  proof (cases "ts_task_id r = i")
    case True
    let ?n = "length (positions_of i s)"
    have "as_i32 (int ?n) = int ?n" if "Suc ?n \<le> 2 ^ 31" using that by (simp add: as_i32_id)
    then show ?thesis
      using True pos steps_okD(2) [OF ok, of i] by (auto simp: dense_def t positions_of_append length_steps_of)
  qed (use steps_okD(2) [OF ok, of i] in \<open>simp add: dense_def t positions_of_append\<close>)
  ultimately have "step_frame base t"
    using frame by (auto simp: step_frame_def steps_ok_def step_keys_def other_tables_def t)
  then show "Q x t" using post [of t] x t by simp
qed

lemma rows_ok_delete:
  assumes "rows_ok s" "\<And>j. j \<noteq> i \<Longrightarrow> dense j s" "r \<in> set (task_steps s)" "ts_task_id r = i"
    and t: "t = s\<lparr>task_steps := filter (\<lambda>q. ts_id q \<noteq> ts_id r) (task_steps s), step_links := ls, step_visits := vs\<rparr>"
  shows "rows_ok t" "j \<noteq> i \<Longrightarrow> dense j t"
proof -
  show "rows_ok t" using assms(1) by (auto simp: rows_ok_def t task_exists_def distinct_map inj_on_def)
  assume "j \<noteq> i"
  have "ts_id q \<noteq> ts_id r" if "q \<in> set (task_steps s)" "ts_task_id q = j" for q
    using that assms(1,3,4) \<open>j \<noteq> i\<close> by (auto simp: rows_ok_def distinct_map inj_on_def)
  then have "filter (\<lambda>q. ts_task_id q = j \<and> ts_id q \<noteq> ts_id r) (task_steps s) = filter (\<lambda>q. ts_task_id q = j) (task_steps s)"
    by (auto intro: filter_cong)
  then show "dense j t" using assms(2) [OF \<open>j \<noteq> i\<close>]
    by (simp add: dense_def positions_of_def t conj_commute)
qed

lemma rows_ok_table: "rows_ok (s\<lparr>step_links := ls\<rparr>) = rows_ok s" "rows_ok (s\<lparr>step_visits := vs\<rparr>) = rows_ok s"
  by (simp_all add: rows_ok_def task_exists_def)

lemma wp_delete_in:
  assumes "steps_ok s" "r \<in> set (task_steps s)" and "\<And>t. steps_ok t \<Longrightarrow> Q () t"
  shows "wp (delete_in r) Q s"
  unfolding delete_in_def delete_step_row_def wp_simps
  apply (rule wp_renumber [where i = "ts_task_id r"])
  using rows_ok_delete [OF steps_okD(1) [OF assms(1)] steps_okD(2) [OF assms(1)] assms(2) refl refl]
  by (auto intro: assms(3) distinct_steps_of)

subsection \<open>Every operation keeps the invariant\<close>

lemma preserves_publish_steps [preserves_intro]: "table_invariant I \<Longrightarrow> preserves I (publish_steps_in i)"
  unfolding publish_steps_in_def
  by (intro preserves_tx_bind reads_preserves reads_views preserves_tx_publish)

lemma wp_task_frame:
  "(\<And>e. find_task i (s\<lparr>events := e\<rparr>) = find_task i s)" "find_task i (s\<lparr>clock := c\<rparr>) = find_task i s"
  by (simp_all add: find_task_def)

lemma task_step_new_simps [simp]:
  "ts_id (task_step_new i task_id name p now) = i" "ts_task_id (task_step_new i task_id name p now) = task_id"
  "ts_position (task_step_new i task_id name p now) = p" "ts_state (task_step_new i task_id name p now) = Draft"
  by (simp_all add: task_step_new_def)

lemma task_step_new_moments: "step_moments_ok (task_step_new i task_id name p now)"
  by (simp add: step_moments_ok_def task_step_new_def)

lemma frame_insert_in: "preserves (step_frame base) (step_insert_in task_id title body st)"
proof (rule preserves_wpI)
  fix s :: db assume ok: "step_frame base s"
  then show "wp (step_insert_in task_id title body st) (\<lambda>_. step_frame base) s"
    unfolding step_insert_in_def
    by (auto simp: wp_simps Let_def mark_state_moments task_step_new_moments
        intro!: wp_insert_step [where base = base] wp_views wp_publish_steps)
qed

lemma frame_add: "preserves (step_frame base) (step_add_in task_id title body)"
  "preserves (step_frame base) (step_add_open_in task_id title body)"
  by (simp_all add: step_add_in_def step_add_open_in_def frame_insert_in)

lemma frame_release_in: "preserves (step_frame base) (release_in i)"
  by (rule preserves_wpI)
    (auto simp: release_in_def open_in_def wp_simps dest!: find_step_Some
      intro!: wp_save_marked wp_settle_checklist)

lemma replace_row_keeps:
  "set xs \<subseteq> set rs \<Longrightarrow> key row \<notin> key ` set xs \<Longrightarrow> set xs \<subseteq> set (replace_row key row rs)"
proof
  fix x assume "set xs \<subseteq> set rs" "key row \<notin> key ` set xs" "x \<in> set xs"
  then have "x \<in> set rs" "key x \<noteq> key row" by (auto simp: image_iff)
  then show "x \<in> set (replace_row key row rs)" by (simp add: set_replace_row)
qed

lemma frame_release_drafts_in: "preserves (step_frame base) (release_drafts_in i)"
proof (rule preserves_wpI)
  fix s assume ok: "step_frame base s"
  let ?J = "\<lambda>ds s. step_frame base s \<and> distinct (map ts_id ds) \<and> set ds \<subseteq> set (task_steps s)"
  have "wp (tx_each (\<lambda>d. tx_bind (open_in d) (\<lambda>_. tx_ok ())) ds) (\<lambda>_. step_frame base) s" if "?J ds s" for ds s
    using that
    by (rule wp_tx_each)
      (auto simp: wp_simps open_in_def intro!: wp_save_marked replace_row_keeps [THEN subsetD])
  then show "wp (release_drafts_in i) (\<lambda>_. step_frame base) s"
    using ok distinct_steps_of [OF step_frameD(1) [OF ok], of i]
    by (auto simp: release_drafts_in_def wp_simps distinct_map inj_on_def)
qed

lemma frame_settings:
  "preserves (step_frame base) (begin_session_in i starts)" "preserves (step_frame base) (limit_visits_in i budget)"
  "preserves (step_frame base) (reach_connection_in i connection)" "preserves (step_frame base) (place_in_flow_in i place)"
  unfolding begin_session_in_def limit_visits_in_def reach_connection_in_def place_in_flow_in_def answer_checklist_def
  by (auto intro!: preserves_wpI wp_save_step wp_publish_steps wp_views
      simp: wp_simps step_frameD dest!: find_step_Some)

lemma frame_answer_checklist: "preserves (step_frame base) (answer_checklist i)"
  unfolding answer_checklist_def
  by (intro preserves_tx_bind preserves_publish_steps reads_preserves reads_views step_frame_table)

lemma preserves_step_require [preserves_intro]: "preserves I (step_require i)"
  by (auto simp: step_require_def intro!: preserves_intro)

lemma frame_propose: "preserves (step_frame base) (step_propose_in u pl label title body starts staging)"
  unfolding step_propose_in_def Let_def
  by (rule frame_add frame_settings frame_release_in step_frame_table reads_views [THEN reads_preserves]
      preserves_intro)+

lemma reads_running_entry: "reads (running_entry_of_task i)"
  unfolding running_entry_of_task_def by (intro reads_base reads_bind)

lemma frame_update_entry: "preserves (step_frame base) (update_entry e)"
  by (rule preservesI)
    (auto simp: update_entry_def entry_table.update_Inr step_frame_def other_tables_def step_keys_def steps_ok_def rows_ok_def dense_def positions_of_def task_exists_def)

lemma frame_stop_timer: "preserves (step_frame base) (stop_timer i)"
  unfolding stop_timer_def
  by (rule frame_update_entry reads_running_entry [THEN reads_preserves] preserves_ctx_now step_frame_table
      preserves_intro)+

lemma frame_settle_checklist: "preserves (step_frame base) (tx_bind (tx_gets (steps_of j)) settle_drafts_at_tail)"
proof (rule preserves_wpI)
  fix s assume "step_frame base s"
  from wp_settle_checklist [OF this, where c = "clock s" and i = j and Q = "\<lambda>_. step_frame base"]
  show "wp (tx_bind (tx_gets (steps_of j)) settle_drafts_at_tail) (\<lambda>_. step_frame base) s" by (simp add: wp_simps)
qed

lemma apply_draft_Inr:
  assumes "apply_draft now d r = Inr r'"
  shows "ts_id r' = ts_id r" "ts_task_id r' = ts_task_id r" "ts_position r' = ts_position r"
    "step_moments_ok r \<Longrightarrow> step_moments_ok r'"
  using assms by (auto simp: apply_draft_def mark_state_moments split: if_splits)

lemma frame_edit: "preserves (step_frame base) (step_edit_in i title body don dr)"
proof (rule preserves_wpI)
  fix s assume ok: "step_frame base s"
  have rest: "wp (tx_bind (if b then stop_timer j else tx_ok ()) (\<lambda>_.
        tx_bind (if c then tx_bind (tx_gets (steps_of j)) settle_drafts_at_tail else tx_ok ()) (\<lambda>_.
        tx_bind (step_require i) (\<lambda>row.
        tx_bind (view_in row) (\<lambda>saved.
        tx_bind (publish_steps_in j) (\<lambda>_. tx_ok saved)))))) (\<lambda>_. step_frame base) t"
    if "step_frame base t" for b c j t
    by (rule wp_preserves [where I = "step_frame base", OF _ that])
      (rule frame_stop_timer frame_settle_checklist step_frame_table
        reads_views [THEN reads_preserves] preserves_intro)+
  let ?R = "\<lambda>r r' t. ts_id r' = ts_id r \<and> ts_task_id r' = ts_task_id r \<and> ts_position r' = ts_position r
    \<and> step_moments_ok r' \<and> step_frame base t \<and> r \<in> set (task_steps t)"
  have "wp (step_require i) (\<lambda>r t. ?R r r t) s"
    using ok by (auto simp: wp_simps step_frameD dest!: find_step_Some)
  then show "wp (step_edit_in i title body don dr) (\<lambda>_. step_frame base) s"
    unfolding step_edit_in_def Let_def
    apply (rule wp_seq)
    subgoal for r t
      apply (rule wp_seq [where R = "?R r"])
       apply (auto simp: wp_simps split: option.splits)[1]
      apply (rule wp_seq [where R = "?R r"])
       apply (auto simp: wp_simps split: option.splits)[1]
      apply (rule wp_seq [where R = "?R r"])
       apply (auto simp: wp_simps apply_draft_Inr split: option.splits)[1]
      apply (rule wp_seq [where R = "?R r"])
       apply (auto simp: wp_simps mark_state_moments split: option.splits)[1]
      apply (rule wp_seq [where R = "\<lambda>_. step_frame base"])
       apply (rule wp_save_step; simp)
      by (rule rest)
    done
qed

lemma frame_send_back: "preserves (step_frame base) (step_send_back_in i)"
  by (rule preserves_wpI)
    (auto simp: step_send_back_in_def wp_simps step_send_back_Inr dest!: find_step_Some
      intro!: wp_save_step wp_views wp_publish_steps)

lemma frame_transition_in: "preserves (step_frame base) (transition_in u t reference target)"
  by (rule preserves_wpI)
    (auto simp: transition_in_def wp_simps intro!: wp_resolve(2) wp_save_marked)

lemma frame_transition: "preserves (step_frame base) (step_transition_in u pl label reference target)"
  unfolding step_transition_in_def
  by (rule frame_transition_in step_frame_table reads_views [THEN reads_preserves] preserves_intro)+

lemma frame_reopen: "preserves (step_frame base) (reopen_for_route_in i)"
  by (rule preserves_wpI)
    (auto simp: reopen_for_route_in_def wp_simps dest!: find_step_Some intro!: wp_save_marked)

lemma frame_move_if: "preserves (step_frame base) (move_if_in i a b)"
  by (rule preserves_wpI)
    (auto simp: move_if_in_def wp_simps dest!: find_step_Some split: option.splits
      intro!: wp_save_marked wp_publish_steps)

lemma set_insert_at [simp]: "set (insert_at k x xs) = insert x (set xs)"
  unfolding insert_at_def by (metis append_take_drop_id insert_is_Un list.set(2) set_append sup_left_commute)

lemma distinct_insert_at: "distinct (map f (insert_at k x xs)) = (f x \<notin> f ` set xs \<and> distinct (map f xs))"
proof -
  have "mset (map f (insert_at k x xs)) = mset (map f (x # xs))"
    unfolding insert_at_def
    by (metis append_take_drop_id list.simps(9) map_append mset_append mset.simps(2) union_mset_add_mset_right)
  then show ?thesis by (metis distinct.simps(2) list.set_map list.simps(9) mset_eq_imp_distinct_iff)
qed

lemma moved_checklist:
  assumes "rows_ok s" "r \<in> set (task_steps s)"
  shows "set (insert_at k r (filter (\<lambda>c. ts_id c \<noteq> ts_id r) (steps_of (ts_task_id r) s)))
      = {q \<in> set (task_steps s). ts_task_id q = ts_task_id r}"
    and "distinct (map ts_id (insert_at k r (filter (\<lambda>c. ts_id c \<noteq> ts_id r) (steps_of (ts_task_id r) s))))"
proof -
  show "set (insert_at k r (filter (\<lambda>c. ts_id c \<noteq> ts_id r) (steps_of (ts_task_id r) s)))
      = {q \<in> set (task_steps s). ts_task_id q = ts_task_id r}"
    using assms by (auto simp: rows_ok_def distinct_map inj_on_def)
  have "distinct (map ts_id (filter (\<lambda>c. ts_id c \<noteq> ts_id r) (steps_of (ts_task_id r) s)))"
    using distinct_steps_of [OF assms(1), of "ts_task_id r"] by (auto simp: distinct_map inj_on_def)
  then show "distinct (map ts_id (insert_at k r (filter (\<lambda>c. ts_id c \<noteq> ts_id r) (steps_of (ts_task_id r) s))))"
    by (auto simp: distinct_insert_at)
qed

lemma frame_move_to: "preserves (step_frame base) (step_move_to_in i position)"
proof (rule preserves_wpI)
  fix s assume ok: "step_frame base s"
  show "wp (step_move_to_in i position) (\<lambda>_. step_frame base) s"
    unfolding step_move_to_in_def Let_def wp_simps
  proof (intro allI impI)
    fix r assume "find_step i s = Some r"
    then have r: "r \<in> set (task_steps s)" "i = ts_id r" by (auto dest!: find_step_Some)
    note moved = moved_checklist [OF step_frameD(1) [OF ok] r(1)]
    show "wp (settle_drafts_at_tail (insert_at (clamp_index position (length (filter (\<lambda>c. ts_id c \<noteq> i) (steps_of (ts_task_id r) s))))
         r (filter (\<lambda>c. ts_id c \<noteq> i) (steps_of (ts_task_id r) s))))
       (\<lambda>_. wp (find_by_task_in (ts_task_id r)) (\<lambda>_. wp (publish_steps_in (ts_task_id r)) (\<lambda>_. step_frame base))) s"
      unfolding r(2)
      by (rule wp_settle [OF ok moved]) (auto intro!: wp_views wp_publish_steps)
  qed
qed

lemma frame_clear_flow_places: "preserves (step_frame base) (clear_flow_places_in i)"
proof (rule preserves_wpI)
  fix s assume ok: "step_frame base s"
  let ?J = "\<lambda>ds s. step_frame base s \<and> distinct (map ts_id ds) \<and> set ds \<subseteq> set (task_steps s)"
  have "wp (tx_each (\<lambda>before. tx_bind (save_step before (before\<lparr>ts_flow_x := None, ts_flow_y := None\<rparr>)) (\<lambda>_. tx_ok ())) ds)
      (\<lambda>_. step_frame base) s" if "?J ds s" for ds s
    using that
    by (rule wp_tx_each)
      (auto simp: wp_simps step_frameD intro!: wp_save_step replace_row_keeps [THEN subsetD])
  from this [of s "steps_of i s"] distinct_steps_of [OF step_frameD(1) [OF ok], of i] ok
  have "wp (tx_each (\<lambda>before. tx_bind (save_step before (before\<lparr>ts_flow_x := None, ts_flow_y := None\<rparr>)) (\<lambda>_. tx_ok ()))
      (steps_of i s)) (\<lambda>_. step_frame base) s" by (simp add: subset_iff)
  then show "wp (clear_flow_places_in i) (\<lambda>_. step_frame base) s"
    unfolding clear_flow_places_in_def wp_bind wp_require wp_simps_base(3)
    by (blast intro: wp_mono wp_preserves [OF frame_answer_checklist])
qed

lemma steps_ok_delete: "preserves steps_ok (step_delete_in i)"
  by (rule preserves_wpI)
    (auto simp: step_delete_in_def wp_simps dest!: find_step_Some split: option.splits
      intro!: wp_delete_in wp_publish_steps)

lemma steps_ok_remove: "preserves steps_ok (step_remove_in u pl label reference)"
  by (rule preserves_wpI)
    (auto simp: step_remove_in_def wp_simps intro!: wp_resolve wp_delete_in wp_publish_steps)

lemma steps_ok_clear_unstarted: "preserves steps_ok (clear_unstarted_in i)"
proof (rule preserves_wpI)
  fix s assume ok: "steps_ok s"
  let ?J = "\<lambda>ds s. rows_ok s \<and> (\<forall>j. j \<noteq> i \<longrightarrow> dense j s) \<and> distinct (map ts_id ds) \<and>
    set ds \<subseteq> set (steps_of i s)"
  have "wp (tx_each (\<lambda>r. delete_step_row (ts_id r)) ds) (\<lambda>_ s. rows_ok s \<and> (\<forall>j. j \<noteq> i \<longrightarrow> dense j s)) s"
    if "?J ds s" for ds s
    using that
  proof (rule wp_tx_each)
    fix r rs s assume J: "?J (r # rs) s"
    then show "wp (delete_step_row (ts_id r)) (\<lambda>_. ?J rs) s"
    proof -
      let ?t = "s\<lparr>task_steps := filter (\<lambda>q. ts_id q \<noteq> ts_id r) (task_steps s),
         step_links := filter (\<lambda>l. sl_from_step_id l \<noteq> ts_id r \<and> sl_to_step_id l \<noteq> Some (ts_id r)) (step_links s),
         step_visits := filter (\<lambda>v. sv_step_id v \<noteq> ts_id r) (step_visits s)\<rparr>"
      have "rows_ok ?t \<and> (\<forall>j. j \<noteq> i \<longrightarrow> dense j ?t)"
        using rows_ok_delete [of s i r, OF _ _ _ _ refl] J by simp
      moreover have "set rs \<subseteq> set (steps_of i ?t)" 
      proof
        fix q assume "q \<in> set rs"
        moreover from this J have "ts_id q \<noteq> ts_id r" by (auto simp: image_iff)
        ultimately show "q \<in> set (steps_of i ?t)" using J by (auto simp: subset_iff)
      qed
      ultimately show ?thesis using J by (simp add: delete_step_row_def wp_simps)
    qed
  qed simp
  moreover let ?gone = "filter (\<lambda>r. unstarted (ts_state r)) (steps_of i s)"
  have "?J ?gone s"
    using ok distinct_steps_of [OF steps_okD(1) [OF ok], of i]
    by (auto simp: distinct_map inj_on_def steps_okD)
  ultimately have loop: "wp (tx_each (\<lambda>r. delete_step_row (ts_id r)) ?gone)
      (\<lambda>_ s. rows_ok s \<and> (\<forall>j. j \<noteq> i \<longrightarrow> dense j s)) s" by blast
  show "wp (clear_unstarted_in i) (\<lambda>_. steps_ok) s"
    unfolding clear_unstarted_in_def wp_simps
    by (rule wp_mono [OF loop], rule wp_renumber [where i = i]) (auto intro: distinct_steps_of)
qed

end
