(* ===== verification/Flow_Facts.thy ===== *)
theory Flow_Facts
  imports Flow Step_Facts
begin

section \<open>The flow stays well formed\<close>

text \<open>
  The invariant of routes and visits: a route joins two steps of its own task and never a step
  to itself, its outcome is a slug, one outcome names one route out of a step and a step has at
  most eight; a visit is to a step of its task and at most one visit of a task is open. Every
  operation of \<open>Steps\<close> and \<open>Flow\<close> keeps it together with the checklist invariant.
\<close>

definition links_ok :: "db \<Rightarrow> bool" where
  "links_ok s \<longleftrightarrow> distinct (map sl_id (step_links s))
     \<and> (\<forall>l \<in> set (step_links s). link_validate l = Inr () \<and> (sl_from_step_id l, sl_task_id l) \<in> set (step_keys s)
          \<and> (\<forall>to. sl_to_step_id l = Some to \<longrightarrow> (to, sl_task_id l) \<in> set (step_keys s)))
     \<and> (\<forall>l \<in> set (step_links s). \<forall>l' \<in> set (step_links s).
          sl_from_step_id l = sl_from_step_id l' \<and> sl_outcome l = sl_outcome l' \<longrightarrow> l = l')
     \<and> (\<forall>i. length (filter (\<lambda>l. sl_from_step_id l = i) (step_links s)) \<le> ROUTES_PER_STEP_MAX)"

definition open_visits :: "id \<Rightarrow> db \<Rightarrow> step_visit list" where
  "open_visits i s = filter (\<lambda>v. sv_task_id v = i \<and> visit_is_open v) (step_visits s)"

definition visits_ok :: "db \<Rightarrow> bool" where
  "visits_ok s \<longleftrightarrow> distinct (map sv_id (step_visits s))
     \<and> (\<forall>v \<in> set (step_visits s). (sv_step_id v, sv_task_id v) \<in> set (step_keys s))
     \<and> (\<forall>i. length (open_visits i s) \<le> 1)"

definition flow_ok :: "db \<Rightarrow> bool" where
  "flow_ok s \<longleftrightarrow> steps_ok s \<and> links_ok s \<and> visits_ok s"

lemma flow_ok_table: "table_invariant flow_ok"
  using steps_ok_table(1)
  by (simp add: table_invariant_def flow_ok_def links_ok_def visits_ok_def step_keys_def open_visits_def)

lemmas flow_ok_frame [simp] = flow_ok_table [THEN table_invariantD(1)]
  flow_ok_table [THEN table_invariantD(2)] flow_ok_table [THEN table_invariantD(3)]

lemma flow_okD: "flow_ok s \<Longrightarrow> steps_ok s" "flow_ok s \<Longrightarrow> links_ok s" "flow_ok s \<Longrightarrow> visits_ok s"
  by (simp_all add: flow_ok_def)

subsection \<open>Operations that only touch steps\<close>

lemma links_ok_mono:
  "links_ok s \<Longrightarrow> step_links t = step_links s \<Longrightarrow> set (step_keys s) \<subseteq> set (step_keys t) \<Longrightarrow> links_ok t"
  unfolding links_ok_def by auto

lemma visits_ok_mono:
  "visits_ok s \<Longrightarrow> step_visits t = step_visits s \<Longrightarrow> set (step_keys s) \<subseteq> set (step_keys t) \<Longrightarrow> visits_ok t"
  unfolding visits_ok_def open_visits_def by auto

lemma step_frame_flow: "step_frame base t \<Longrightarrow> flow_ok base \<Longrightarrow> flow_ok t"
  unfolding flow_ok_def step_frame_def using links_ok_mono visits_ok_mono by blast

lemma frame_flow_ok: "(\<And>base. preserves (step_frame base) m) \<Longrightarrow> preserves flow_ok m"
  unfolding preserves_def using step_frame_flow step_frame_refl flow_okD(1) by blast

subsection \<open>Deleting steps\<close>

definition step_deleted :: "id \<Rightarrow> db \<Rightarrow> db" where
  "step_deleted i s = s\<lparr>task_steps := filter (\<lambda>r. ts_id r \<noteq> i) (task_steps s),
     step_links := filter (\<lambda>l. sl_from_step_id l \<noteq> i \<and> sl_to_step_id l \<noteq> Some i) (step_links s),
     step_visits := filter (\<lambda>v. sv_step_id v \<noteq> i) (step_visits s)\<rparr>"

lemma length_filter_filter: "length (filter P (filter Q xs)) \<le> length (filter P xs)"
  by (induction xs) auto

lemma step_deleted_keys: "set (step_keys (step_deleted i s)) = {k \<in> set (step_keys s). fst k \<noteq> i}"
proof -
  have "step_keys (step_deleted i s) = filter (\<lambda>k. fst k \<noteq> i) (step_keys s)"
    by (simp add: step_keys_def step_deleted_def filter_map o_def)
  then show ?thesis by simp
qed

lemma links_ok_deleted:
  assumes "links_ok s"
  shows "links_ok (step_deleted i s)"
proof -
  have "distinct (map sl_id (step_links (step_deleted i s)))"
    using assms by (simp add: links_ok_def step_deleted_def distinct_map_filter)
  moreover have "link_validate l = Inr () \<and> (sl_from_step_id l, sl_task_id l) \<in> set (step_keys (step_deleted i s))
      \<and> (\<forall>to. sl_to_step_id l = Some to \<longrightarrow> (to, sl_task_id l) \<in> set (step_keys (step_deleted i s)))"
    if "l \<in> set (step_links (step_deleted i s))" for l
    using assms that unfolding step_deleted_keys by (auto simp: links_ok_def step_deleted_def)
  moreover have "length (filter (\<lambda>l. sl_from_step_id l = j) (step_links (step_deleted i s))) \<le> ROUTES_PER_STEP_MAX" for j
  proof -
    have "length (filter (\<lambda>l. sl_from_step_id l = j) (step_links (step_deleted i s)))
        \<le> length (filter (\<lambda>l. sl_from_step_id l = j) (step_links s))"
      unfolding step_deleted_def by (simp del: filter_filter add: length_filter_filter)
    then show ?thesis using assms le_trans unfolding links_ok_def by blast
  qed
  moreover have "set (step_links (step_deleted i s)) \<subseteq> set (step_links s)" by (auto simp: step_deleted_def)
  ultimately show ?thesis using assms unfolding links_ok_def by blast
qed

lemma visits_ok_deleted:
  assumes "visits_ok s"
  shows "visits_ok (step_deleted i s)"
proof -
  have "distinct (map sv_id (step_visits (step_deleted i s)))"
    using assms by (simp add: visits_ok_def step_deleted_def distinct_map_filter)
  moreover have "(sv_step_id v, sv_task_id v) \<in> set (step_keys (step_deleted i s))"
    if "v \<in> set (step_visits (step_deleted i s))" for v
    using assms that unfolding step_deleted_keys by (auto simp: visits_ok_def step_deleted_def)
  moreover have "length (open_visits j (step_deleted i s)) \<le> 1" for j
  proof -
    have "length (open_visits j (step_deleted i s)) \<le> length (open_visits j s)"
      unfolding open_visits_def step_deleted_def by (simp del: filter_filter add: length_filter_filter)
    also have "\<dots> \<le> 1" using assms by (simp add: visits_ok_def)
    finally show ?thesis .
  qed
  ultimately show ?thesis unfolding visits_ok_def by blast
qed

lemma flow_ok_renumbered:
  assumes "links_ok s" "visits_ok s" "steps_ok (s\<lparr>task_steps := rs, clock := ck\<rparr>)"
    "step_keys (s\<lparr>task_steps := rs, clock := ck\<rparr>) = step_keys s"
  shows "flow_ok (s\<lparr>task_steps := rs, clock := ck\<rparr>)"
  using assms links_ok_mono [of s] visits_ok_mono [of s] by (simp add: flow_ok_def)

lemma wp_delete_flow:
  assumes ok: "flow_ok s" and r: "r \<in> set (task_steps s)" and post: "\<And>t. flow_ok t \<Longrightarrow> Q () t"
  shows "wp (delete_in r) Q s"
proof -
  let ?t = "step_deleted (ts_id r) s"
  note base = rows_ok_delete [OF steps_okD(1) [OF flow_okD(1) [OF ok]] steps_okD(2) [OF flow_okD(1) [OF ok]] r refl
      step_deleted_def]
  have after: "flow_ok (?t\<lparr>task_steps := rs, clock := ck\<rparr>)"
    if "steps_ok (?t\<lparr>task_steps := rs, clock := ck\<rparr>)" "step_keys (?t\<lparr>task_steps := rs, clock := ck\<rparr>) = step_keys ?t"
    for rs ck
    using flow_ok_renumbered [OF links_ok_deleted visits_ok_deleted] flow_okD(2,3) [OF ok] that by blast
  have "wp (renumber (steps_of (ts_task_id r) ?t)) (\<lambda>_. Q ()) ?t"
  proof (rule wp_renumber [where i = "ts_task_id r"])
    show "distinct (map ts_id (steps_of (ts_task_id r) ?t))" by (rule distinct_steps_of [OF base(1)])
  qed (use base in \<open>auto intro!: post [OF after]\<close>)
  then show ?thesis by (simp add: delete_in_def delete_step_row_def wp_simps wp_tx_ok step_deleted_def)
qed

lemma flow_ok_delete: "preserves flow_ok (step_delete_in i)"
  by (rule preserves_wpI)
    (auto simp: step_delete_in_def wp_simps dest!: find_step_Some split: option.splits
      intro!: wp_delete_flow wp_publish_steps)

lemma flow_ok_remove: "preserves flow_ok (step_remove_in u pl label reference)"
  by (rule preserves_wpI)
    (auto simp: step_remove_in_def wp_simps intro!: wp_resolve wp_delete_flow wp_publish_steps)

lemma flow_ok_clear_unstarted: "preserves flow_ok (clear_unstarted_in i)"
proof (rule preserves_wpI)
  fix s assume ok: "flow_ok s"
  let ?I = "\<lambda>s. rows_ok s \<and> (\<forall>j. j \<noteq> i \<longrightarrow> dense j s) \<and> links_ok s \<and> visits_ok s"
  let ?J = "\<lambda>ds s. ?I s \<and> distinct (map ts_id ds) \<and> set ds \<subseteq> {r \<in> set (task_steps s). ts_task_id r = i}"
  have "wp (tx_each (\<lambda>r. delete_step_row (ts_id r)) ds) (\<lambda>_. ?I) s" if "?J ds s" for ds s
    using that
  proof (rule wp_tx_each)
    fix r rs s assume J: "?J (r # rs) s"
    let ?t = "step_deleted (ts_id r) s"
    have "rows_ok ?t \<and> (\<forall>j. j \<noteq> i \<longrightarrow> dense j ?t)"
      using rows_ok_delete [of s i r, OF _ _ _ _ step_deleted_def] J by simp
    moreover have "set rs \<subseteq> {r \<in> set (task_steps ?t). ts_task_id r = i}"
    proof
      fix q assume q: "q \<in> set rs"
      then have "ts_id q \<noteq> ts_id r" using J by (auto simp: image_iff)
      then show "q \<in> {r \<in> set (task_steps ?t). ts_task_id r = i}" using J q by (auto simp: step_deleted_def)
    qed
    ultimately have "?J rs ?t" using J links_ok_deleted visits_ok_deleted by simp
    then show "wp (delete_step_row (ts_id r)) (\<lambda>_. ?J rs) s"
      by (simp add: delete_step_row_def wp_simps step_deleted_def)
  qed simp
  moreover have "?J (filter (\<lambda>r. unstarted (ts_state r)) (steps_of i s)) s"
    using ok distinct_map_filter [OF distinct_steps_of [OF steps_okD(1) [OF flow_okD(1) [OF ok]], of i]]
    by (auto simp: flow_ok_def steps_okD)
  ultimately have loop: "wp (tx_each (\<lambda>r. delete_step_row (ts_id r)) (filter (\<lambda>r. unstarted (ts_state r)) (steps_of i s)))
      (\<lambda>_. ?I) s" by blast
  show "wp (clear_unstarted_in i) (\<lambda>_. flow_ok) s"
    unfolding clear_unstarted_in_def wp_bind wp_simps_base(3) wp_tx_ok
  proof (rule wp_mono [OF loop], rule wp_renumber [where i = i])
    fix t rs ck assume "?I t" "steps_ok (t\<lparr>task_steps := rs, clock := ck\<rparr>)"
      "step_keys (t\<lparr>task_steps := rs, clock := ck\<rparr>) = step_keys t"
    then show "flow_ok (t\<lparr>task_steps := rs, clock := ck\<rparr>)" using flow_ok_renumbered by blast
  qed (auto intro: distinct_steps_of)
qed

subsection \<open>Routes\<close>

lemma in_step_keys: "find_step i s = Some r \<Longrightarrow> (i, ts_task_id r) \<in> set (step_keys s)"
  by (auto simp: step_keys_def dest!: find_step_Some)

lemma row_in_step_keys: "r \<in> set (task_steps s) \<Longrightarrow> (ts_id r, ts_task_id r) \<in> set (step_keys s)"
  by (auto simp: step_keys_def)

lemma flow_ok_links:
  assumes "flow_ok s" "links_ok (s\<lparr>step_links := ls\<rparr>)"
  shows "flow_ok (s\<lparr>step_links := ls\<rparr>)"
  using assms
  by (simp add: flow_ok_def steps_ok_def rows_ok_def dense_def positions_of_def task_exists_def visits_ok_def
      step_keys_def open_visits_def)

lemma wp_insert_link:
  assumes ok: "flow_ok s" and valid: "link_validate l = Inr ()"
    and ends: "(sl_from_step_id l, sl_task_id l) \<in> set (step_keys s)"
      "\<And>to. sl_to_step_id l = Some to \<Longrightarrow> (to, sl_task_id l) \<in> set (step_keys s)"
    and cap: "length (filter (\<lambda>k. sl_from_step_id k = sl_from_step_id l) (step_links s)) < ROUTES_PER_STEP_MAX"
    and post: "\<And>t. flow_ok t \<Longrightarrow> t = s\<lparr>step_links := step_links s @ [l]\<rparr> \<Longrightarrow> Q l t"
  shows "wp (insert_link l) Q s"
proof (rule wpI)
  fix x t assume "insert_link l s = Inr (x, t)"
  then have x: "x = l" and t: "t = s\<lparr>step_links := step_links s @ [l]\<rparr>"
    and new: "sl_id l \<notin> sl_id ` set (step_links s)" and lok: "link_ok s l"
    by (auto simp: insert_link_def link_table.insert_Inr)
  have fresh: "k = l" if "k \<in> set (step_links s)" "sl_from_step_id k = sl_from_step_id l" "sl_outcome k = sl_outcome l" for k
    using lok new that unfolding link_ok_def list_all_iff by (metis imageI)
  note lks = flow_okD(2) [OF ok, unfolded links_ok_def]
  have "links_ok t"
    unfolding links_ok_def
  proof (intro conjI)
    show "distinct (map sl_id (step_links t))" using lks new by (simp add: t)
    show "\<forall>k \<in> set (step_links t). link_validate k = Inr () \<and> (sl_from_step_id k, sl_task_id k) \<in> set (step_keys t)
        \<and> (\<forall>to. sl_to_step_id k = Some to \<longrightarrow> (to, sl_task_id k) \<in> set (step_keys t))"
      using lks valid ends by (auto simp: t step_keys_def)
    show "\<forall>k \<in> set (step_links t). \<forall>k' \<in> set (step_links t).
        sl_from_step_id k = sl_from_step_id k' \<and> sl_outcome k = sl_outcome k' \<longrightarrow> k = k'"
      using lks fresh by (auto simp: t)
    show "\<forall>i. length (filter (\<lambda>k. sl_from_step_id k = i) (step_links t)) \<le> ROUTES_PER_STEP_MAX"
      using lks cap by (auto simp: t)
  qed
  then have "flow_ok t" using flow_ok_links [OF ok] by (simp add: t)
  then show "Q x t" using post x t by simp
qed

lemma length_links_from: "length (links_list_from i s) = length (filter (\<lambda>l. sl_from_step_id l = i) (step_links s))"
  by (simp add: links_list_from_def)

lemma wp_link_insert_in:
  assumes ok: "flow_ok s" and "from_step \<in> set (task_steps s)"
    and "\<And>to. to_id = Some to \<Longrightarrow> (to, ts_task_id from_step) \<in> set (step_keys s)"
    and post: "\<And>t. flow_ok t \<Longrightarrow> task_steps t = task_steps s \<Longrightarrow> Q () t"
  shows "wp (link_insert_in u from_step to_id outcome) Q s"
  unfolding link_insert_in_def
  using assms row_in_step_keys [OF assms(2)]
  by (auto simp: wp_simps Let_def length_links_from step_link_new_def step_keys_def intro!: wp_insert_link)

lemma wp_require_link [wp_simps]: "wp (require_link i) Q s = (\<forall>r. find_link i s = Some r \<longrightarrow> Q r s)"
  by (auto simp: require_link_def wp_simps split: option.splits)

lemma find_link_Some: "find_link i s = Some l \<Longrightarrow> l \<in> set (step_links s) \<and> sl_id l = i"
  by (auto simp: find_link_def dest: find_row_Some)

lemma wp_target_step:
  assumes "\<And>to. to = None \<or> (\<exists>r. to = Some r \<and> r \<in> set (task_steps s) \<and> ts_task_id r = ts_task_id from_step) \<Longrightarrow> Q to s"
  shows "wp (target_step from_step target) Q s"
  using assms
  by (cases target) (auto simp: target_step_def target_step_id_def wp_simps dest!: find_step_Some)

lemma link_answer_flow: "preserves flow_ok (link_answer i)"
  unfolding link_answer_def
  by (intro preserves_tx_bind preserves_publish_steps reads_preserves reads_views flow_ok_table)

lemma flow_ok_link_add_in: "preserves flow_ok (link_add_in u i target outcome)"
  by (rule preserves_wpI)
    (auto simp: link_add_in_def wp_simps dest!: find_step_Some
      intro!: wp_target_step wp_link_insert_in row_in_step_keys split: option.splits,
     use row_in_step_keys in fastforce)

lemma flow_ok_link_propose_in: "preserves flow_ok (link_propose_in u i target outcome)"
  by (rule preserves_wpI)
    (auto simp: link_propose_in_def wp_simps dest!: find_step_Some
      intro!: wp_target_step wp_link_insert_in split: option.splits,
     use row_in_step_keys in fastforce)

text \<open>A saved route keeps the step it leaves and the task it is on.\<close>

lemma wp_save_link:
  assumes ok: "flow_ok s" and before: "before \<in> set (step_links s)"
    and same: "sl_id l = sl_id before" "sl_task_id l = sl_task_id before" "sl_from_step_id l = sl_from_step_id before"
    and ends: "\<And>to. sl_to_step_id l = Some to \<Longrightarrow> (to, sl_task_id l) \<in> set (step_keys s)"
    and post: "\<And>x t. flow_ok t \<Longrightarrow> Q x t"
  shows "wp (save_link before l) Q s"
proof (rule wpI)
  fix x t assume run: "save_link before l s = Inr (x, t)"
  note lks = flow_okD(2) [OF ok, unfolded links_ok_def]
  show "Q x t"
  proof (cases "l = before")
    case True
    then have "t = s\<lparr>clock := stl (clock s)\<rparr>"
      using run by (auto simp: save_link_def update_if_changed_def tx_bind_Inr ctx_now_def)
    then show ?thesis using post ok by simp
  next
    case False
    let ?l = "l\<lparr>sl_updated_at := shd (clock s)\<rparr>"
    have valid: "link_validate ?l = Inr ()" and lok: "link_ok (s\<lparr>clock := stl (clock s)\<rparr>) ?l"
      and t: "t = s\<lparr>step_links := replace_row sl_id ?l (step_links s), clock := stl (clock s)\<rparr>"
      using run False
      by (auto simp: save_link_def update_if_changed_def tx_bind_Inr ctx_now_def update_link_def
          link_table.update_Inr Let_def)
    have links: "step_links t = replace_row sl_id ?l (step_links s)" and keys: "step_keys t = step_keys s"
      by (simp_all add: t step_keys_def)
    have only: "k = before" if "k \<in> set (step_links s)" "sl_id k = sl_id before" for k
      using lks that before by (auto simp: distinct_map inj_on_def)
    have fresh: "k \<notin> set (step_links s) \<or> sl_id k = sl_id before \<or> sl_from_step_id k \<noteq> sl_from_step_id l \<or> sl_outcome k \<noteq> sl_outcome l" for k
      using lok same unfolding link_ok_def list_all_iff by fastforce
    have mem: "set (step_links t) = insert ?l {k \<in> set (step_links s). sl_id k \<noteq> sl_id before}"
      using before same imageI [OF before, of sl_id] unfolding links by (auto simp: set_replace_row)
    have "links_ok t"
      unfolding links_ok_def
    proof (intro conjI)
      show "distinct (map sl_id (step_links t))" using lks by (simp add: links)
      show "\<forall>k \<in> set (step_links t). link_validate k = Inr () \<and> (sl_from_step_id k, sl_task_id k) \<in> set (step_keys t)
          \<and> (\<forall>to. sl_to_step_id k = Some to \<longrightarrow> (to, sl_task_id k) \<in> set (step_keys t))"
        using lks valid ends before same unfolding mem keys by simp
      show "\<forall>k \<in> set (step_links t). \<forall>k' \<in> set (step_links t).
          sl_from_step_id k = sl_from_step_id k' \<and> sl_outcome k = sl_outcome k' \<longrightarrow> k = k'"
        using lks fresh unfolding mem by (auto dest: sym) (metis fresh)
      have "filter (\<lambda>k. sl_from_step_id k = i) (step_links t) = map (\<lambda>k. if sl_id k = sl_id ?l then ?l else k)
          (filter (\<lambda>k. sl_from_step_id k = i) (step_links s))" for i
        unfolding links replace_row_def filter_map o_def
        using only same by (intro arg_cong [where f = "map _"] filter_cong) auto
      then show "\<forall>i. length (filter (\<lambda>k. sl_from_step_id k = i) (step_links t)) \<le> ROUTES_PER_STEP_MAX"
        using lks by simp
    qed
    then have "flow_ok t" using flow_ok_links [OF ok, of "replace_row sl_id ?l (step_links s)"] flow_ok_frame(2)
      by (simp add: t links_ok_def step_keys_def)
    then show ?thesis by (rule post)
  qed
qed

lemma flow_ok_link_edit: "preserves flow_ok (link_edit_in u i target outcome)"
proof (rule preserves_wpI)
  fix s assume ok: "flow_ok s"
  let ?R = "\<lambda>before l t. t = s \<and> before \<in> set (step_links s) \<and> sl_id l = sl_id before \<and> sl_task_id l = sl_task_id before
    \<and> sl_from_step_id l = sl_from_step_id before
    \<and> (\<forall>to. sl_to_step_id l = Some to \<longrightarrow> (to, sl_task_id before) \<in> set (step_keys s))"
  have read: "wp (require_link i) (\<lambda>l t. ?R l l t) s"
    using flow_okD(2) [OF ok] by (auto simp: wp_simps links_ok_def dest!: find_link_Some)
  have ends: "ts_task_id r = sl_task_id l" if "l \<in> set (step_links s)" "find_step (sl_from_step_id l) s = Some r" for l r
  proof -
    have "(sl_from_step_id l, sl_task_id l) \<in> set (step_keys s)" "(sl_from_step_id l, ts_task_id r) \<in> set (step_keys s)"
      using flow_okD(2) [OF ok] that in_step_keys [OF that(2)] by (auto simp: links_ok_def)
    then show ?thesis
      using steps_okD(3) [OF flow_okD(1) [OF ok]] by (auto simp: step_keys_def distinct_map inj_on_def)
  qed
  show "wp (link_edit_in u i target outcome) (\<lambda>_. flow_ok) s"
    unfolding link_edit_in_def
    apply (rule wp_seq [OF read])
    subgoal for before t
      apply (rule wp_seq [where R = "?R before"])
      subgoal
        by (auto simp: wp_simps ends row_in_step_keys split: option.splits intro!: wp_target_step)
          (metis ends row_in_step_keys)+
      apply (rule wp_seq [where R = "?R before"])
      subgoal by (auto simp: wp_simps split: option.splits)
      apply (rule wp_seq [where R = "\<lambda>_. flow_ok"])
      subgoal by (rule wp_save_link) (use ok in auto)
      subgoal by (rule wp_preserves [OF link_answer_flow])
      done
    done
qed

lemma flow_ok_link_delete: "preserves flow_ok (link_delete_in i)"
proof -
  have "preserves flow_ok (delete_link i)"
  proof (rule preserves_wpI)
    fix s assume ok: "flow_ok s"
    let ?ls = "filter (\<lambda>l. sl_id l \<noteq> i) (step_links s)"
    note lks = flow_okD(2) [OF ok, unfolded links_ok_def]
    have "length (filter (\<lambda>l. sl_from_step_id l = j) ?ls) \<le> ROUTES_PER_STEP_MAX" for j
      using lks length_filter_filter [of "\<lambda>l. sl_from_step_id l = j" "\<lambda>l. sl_id l \<noteq> i" "step_links s"] le_trans by blast
    then have "links_ok (s\<lparr>step_links := ?ls\<rparr>)"
      using lks by (simp add: links_ok_def step_keys_def distinct_map_filter del: filter_filter)
    then show "wp (delete_link i) (\<lambda>_. flow_ok) s"
      using flow_ok_links [OF ok] by (simp add: delete_link_def wp_simps)
  qed
  then show ?thesis
    unfolding link_delete_in_def by (intro preserves_tx_bind preserves_require link_answer_flow)
qed

subsection \<open>Visits\<close>

lemma visits_of_task_set: "set (visits_of_task i s) = {v \<in> set (step_visits s). sv_task_id v = i}"
  by (auto simp: visits_of_task_def)

lemma find_open_visit_cases:
  obtains "find_open_visit i s = None" "open_visits i s = []"
  | v where "find_open_visit i s = Some v" "v \<in> set (open_visits i s)"
proof -
  let ?F = "rev (filter (\<lambda>v. sv_left_at v = None) (visits_of_task i s))"
  have set: "set ?F = set (open_visits i s)"
    by (auto simp: visits_of_task_set open_visits_def visit_is_open_def)
  show thesis
  proof (cases ?F)
    case Nil
    then show ?thesis using that(1) set by (simp add: find_open_visit_def)
  next
    case (Cons v vs)
    then have "v \<in> set (open_visits i s)" using set by (metis list.set_intros(1))
    then show ?thesis using that(2) Cons by (simp add: find_open_visit_def)
  qed
qed

lemma flow_ok_visits:
  assumes "flow_ok s" "visits_ok (s\<lparr>step_visits := vs\<rparr>)"
  shows "flow_ok (s\<lparr>step_visits := vs\<rparr>)"
  using assms
  by (simp add: flow_ok_def steps_ok_def rows_ok_def dense_def positions_of_def task_exists_def links_ok_def
      step_keys_def)

lemma count_replace_visit:
  assumes "distinct (map sv_id vs)" "v \<in> set vs" "sv_id w = sv_id v" "sv_step_id w = sv_step_id v"
  shows "map sv_step_id (replace_row sv_id w vs) = map sv_step_id vs"
  using assms by (auto simp: replace_row_def distinct_map inj_on_def)

text \<open>Closing the open visit of a task leaves none open, and counts the same visits.\<close>

lemma wp_visit_close:
  assumes ok: "flow_ok s" and v: "v \<in> set (step_visits s)" and isopen: "visit_is_open v"
    and post: "\<And>w vs ck. \<lbrakk>flow_ok (s\<lparr>step_visits := vs, clock := ck\<rparr>);
        open_visits (sv_task_id v) (s\<lparr>step_visits := vs, clock := ck\<rparr>) = [];
        map sv_step_id vs = map sv_step_id (step_visits s)\<rbrakk>
      \<Longrightarrow> Q w (s\<lparr>step_visits := vs, clock := ck\<rparr>)"
  shows "wp (visit_close v outcome report) Q s"
proof (rule wpI)
  fix x t assume "visit_close v outcome report s = Inr (x, t)"
  then have x: "x = visit_leave outcome report (shd (clock s)) v"
    and t: "t = s\<lparr>step_visits := replace_row sv_id x (step_visits s), clock := stl (clock s)\<rparr>"
    by (auto simp: visit_close_def tx_bind_Inr ctx_now_def update_visit_def visit_table.update_Inr)
  have left: "sv_id x = sv_id v" "sv_task_id x = sv_task_id v" "sv_step_id x = sv_step_id v" "\<not> visit_is_open x"
    using isopen by (auto simp: x visit_leave_def visit_is_open_def)
  note vok = flow_okD(3) [OF ok, unfolded visits_ok_def]
  have only: "w = v" if "w \<in> set (step_visits s)" "sv_id w = sv_id v" for w
    using vok v that by (auto simp: distinct_map inj_on_def)
  have open_after: "open_visits i t = (if i = sv_task_id v then [] else open_visits i s)" for i
  proof (cases "i = sv_task_id v")
    case True
    have "v \<in> set (open_visits i s)" using v isopen True by (simp add: open_visits_def)
    moreover have "length (open_visits i s) \<le> 1" using vok by blast
    ultimately have "open_visits i s = [v]" by (cases "open_visits i s") (auto simp: Suc_le_eq)
    then have "w = v" if "w \<in> set (step_visits s)" "sv_task_id w = i" "visit_is_open w" for w
    proof -
      have "w \<in> set (open_visits i s)" using that by (simp add: open_visits_def)
      then show ?thesis by (simp add: \<open>open_visits i s = [v]\<close>)
    qed
    then show ?thesis using True left by (fastforce simp: open_visits_def t filter_empty_conv set_replace_row)
  next
    case False
    have "filter (\<lambda>w. sv_task_id w = i \<and> visit_is_open w) (replace_row sv_id x (step_visits s))
        = filter (\<lambda>w. sv_task_id w = i \<and> visit_is_open w) (step_visits s)"
      unfolding replace_row_def
      by (rule filter_map_frame) (use only left False in auto)
    then show ?thesis using False by (simp add: open_visits_def t)
  qed
  have "visits_ok (s\<lparr>step_visits := replace_row sv_id x (step_visits s)\<rparr>)"
    using vok left v open_after
    by (auto simp: visits_ok_def t open_visits_def step_keys_def set_replace_row)
  then have "flow_ok t" using flow_ok_visits [OF ok] by (simp add: t)
  moreover have "map sv_step_id (replace_row sv_id x (step_visits s)) = map sv_step_id (step_visits s)"
    using count_replace_visit [of "step_visits s" v x] vok v left by simp
  ultimately show "Q x t" using post [of _ _ x] open_after by (simp add: t)
qed

text \<open>
  The budget, as an invariant of a run that started at \<open>base\<close>: no step has been entered past its
  budget by this run, whatever it counted before.
\<close>

definition budget_kept :: "db \<Rightarrow> db \<Rightarrow> bool" where
  "budget_kept base s \<longleftrightarrow> (\<forall>r \<in> set (task_steps s). \<forall>cap. ts_max_visits r = Some cap \<longrightarrow>
     count_visits_of_step (ts_id r) s \<le> max (count_visits_of_step (ts_id r) base) (as_usize cap))"

text \<open>What a session may not do: accept a step, or touch one a person has not released.\<close>

definition session_safe :: "db \<Rightarrow> db \<Rightarrow> bool" where
  "session_safe base s \<longleftrightarrow>
     (\<forall>r \<in> set (task_steps s). ts_state r = Done \<longrightarrow> r \<in> set (task_steps base))
     \<and> (\<forall>r \<in> set (task_steps base). ts_state r = Draft \<longrightarrow> r \<in> set (task_steps s))"

definition flow_run :: "db \<Rightarrow> db \<Rightarrow> bool" where
  "flow_run base s \<longleftrightarrow> flow_ok s \<and> budget_kept base s \<and> session_safe base s"

lemma flow_run_table: "table_invariant (flow_run base)"
  using flow_ok_table by (simp add: table_invariant_def flow_run_def budget_kept_def session_safe_def count_visits_of_step_def)

lemmas flow_run_frame [simp] = flow_run_table [THEN table_invariantD(1)]
  flow_run_table [THEN table_invariantD(2)] flow_run_table [THEN table_invariantD(3)]

lemma flow_run_refl: "flow_ok s \<Longrightarrow> flow_run s s"
  by (simp add: flow_run_def budget_kept_def session_safe_def)

lemma flow_run_ok: "flow_run base s \<Longrightarrow> flow_ok s"
  by (simp add: flow_run_def)

lemma count_visits_map: "count_visits_of_step i s = length (filter (\<lambda>k. k = i) (map sv_step_id (step_visits s)))"
  by (simp add: count_visits_of_step_def filter_map o_def)

lemma wp_insert_visit:
  assumes run: "flow_run base s" and step: "step \<in> set (task_steps s)"
    and none: "open_visits (ts_task_id step) s = []"
    and room: "admits_visit step (count_visits_of_step (ts_id step) s)"
    and v: "v = visit_enter i (ts_task_id step) (ts_id step) n now"
    and post: "\<And>t. \<lbrakk>flow_run base t; t = s\<lparr>step_visits := step_visits s @ [v]\<rparr>\<rbrakk> \<Longrightarrow> Q v t"
  shows "wp (insert_visit v) Q s"
proof (rule wpI)
  note ok = flow_run_ok [OF run]
  fix x t assume "insert_visit v s = Inr (x, t)"
  then have x: "x = v" and t: "t = s\<lparr>step_visits := step_visits s @ [v]\<rparr>"
    and new: "sv_id v \<notin> sv_id ` set (step_visits s)"
    by (auto simp: insert_visit_def visit_table.insert_Inr)
  have fields: "sv_task_id v = ts_task_id step" "sv_step_id v = ts_id step" by (simp_all add: v visit_enter_def)
  note vok = flow_okD(3) [OF ok, unfolded visits_ok_def]
  have "length (open_visits j t) \<le> 1" for j
    using vok none fields by (auto simp: open_visits_def t)
  then have "visits_ok t"
    using vok new row_in_step_keys [OF step] fields by (auto simp: visits_ok_def t step_keys_def)
  then have "flow_ok t" using flow_ok_visits [OF ok] by (simp add: t)
  moreover have "budget_kept base t"
    unfolding budget_kept_def
  proof (intro ballI allI impI)
    fix r cap assume r: "r \<in> set (task_steps t)" "ts_max_visits r = Some cap"
    show "count_visits_of_step (ts_id r) t \<le> max (count_visits_of_step (ts_id r) base) (as_usize cap)"
    proof (cases "ts_id r = ts_id step")
      case True
      then have "r = step"
        using r step steps_okD(3) [OF flow_okD(1) [OF ok]] by (auto simp: t distinct_map inj_on_def)
      then show ?thesis using room r fields by (auto simp: admits_visit_def count_visits_of_step_def t)
    next
      case False
      then show ?thesis
        using run r fields by (auto simp: flow_run_def budget_kept_def count_visits_of_step_def t)
    qed
  qed
  ultimately have "flow_run base t" using run by (simp add: flow_run_def session_safe_def t)
  then show "Q x t" using post t x by simp
qed

lemma wp_visit_enter_new:
  assumes "flow_run base s" "step \<in> set (task_steps s)" "open_visits (ts_task_id step) s = []"
    and post: "\<And>v t. \<lbrakk>flow_run base t; task_steps t = task_steps s; v \<in> set (step_visits t); visit_is_open v\<rbrakk> \<Longrightarrow> Q v t"
  shows "wp (visit_enter_new step) Q s"
  unfolding visit_enter_new_def
  using assms(1-3)
  by (auto simp: wp_simps refuse_spent_budget_def count_visits_of_step_def open_visits_def visit_enter_def visit_is_open_def
      intro!: wp_insert_visit [where base = base] post split: if_splits)

lemma wp_enter_in:
  assumes run: "flow_run base s" and step: "step \<in> set (task_steps s)"
    and post: "\<And>v t. \<lbrakk>flow_run base t; task_steps t = task_steps s; v \<in> set (step_visits t); visit_is_open v\<rbrakk> \<Longrightarrow> Q v t"
  shows "wp (enter_in step) Q s"
proof (rule find_open_visit_cases [of "ts_task_id step" s])
  assume "find_open_visit (ts_task_id step) s = None" "open_visits (ts_task_id step) s = []"
  then show ?thesis
    using wp_visit_enter_new [OF run step] post by (simp add: enter_in_def wp_simps)
next
  fix v assume found: "find_open_visit (ts_task_id step) s = Some v" and "v \<in> set (open_visits (ts_task_id step) s)"
  then have v: "v \<in> set (step_visits s)" "sv_task_id v = ts_task_id step" "visit_is_open v"
    by (auto simp: open_visits_def)
  have "wp (visit_close v None None) (\<lambda>_. wp (visit_enter_new step) Q) s"
  proof (rule wp_visit_close [OF flow_run_ok [OF run] v(1,3)])
    fix vs ck
    let ?t = "s\<lparr>step_visits := vs, clock := ck\<rparr>"
    assume "flow_ok ?t" "open_visits (sv_task_id v) ?t = []" "map sv_step_id vs = map sv_step_id (step_visits s)"
    moreover from this have "budget_kept base ?t"
      using run by (simp add: flow_run_def budget_kept_def count_visits_map)
    ultimately show "wp (visit_enter_new step) Q ?t"
      using wp_visit_enter_new [of base ?t step Q] step v post run by (simp add: flow_run_def session_safe_def)
  qed
  then show ?thesis using found run v post by (simp add: enter_in_def wp_simps)
qed

lemma wp_leave_in:
  assumes run: "flow_run base s" and step: "step \<in> set (task_steps s)"
    and post: "\<And>v t. \<lbrakk>flow_run base t; task_steps t = task_steps s\<rbrakk> \<Longrightarrow> Q v t"
  shows "wp (leave_in step outcome report) Q s"
  unfolding leave_in_def wp_bind
proof (rule wp_enter_in [OF run step])
  fix v t assume t: "flow_run base t" "task_steps t = task_steps s" "v \<in> set (step_visits t)" "visit_is_open v"
  show "wp (visit_close v outcome report) Q t"
  proof (rule wp_visit_close [OF flow_run_ok [OF t(1)] t(3,4)])
    fix w vs ck
    assume "flow_ok (t\<lparr>step_visits := vs, clock := ck\<rparr>)" "map sv_step_id vs = map sv_step_id (step_visits t)"
    then show "Q w (t\<lparr>step_visits := vs, clock := ck\<rparr>)"
      using t(1,2) by (intro post) (simp_all add: flow_run_def budget_kept_def session_safe_def count_visits_map)
  qed
qed

subsection \<open>A session's routed move\<close>

lemma wp_save_marked_flow:
  assumes run: "flow_run base s" and before: "before \<in> set (task_steps s)"
    and moves: "st \<noteq> Done" "ts_state before \<noteq> Draft"
    and post: "\<And>r t. \<lbrakk>flow_run base t; r \<in> set (task_steps t); ts_id r = ts_id before; ts_state r = st;
       task_steps t = replace_row ts_id r (task_steps s)\<rbrakk> \<Longrightarrow> Q r t"
  shows "wp (save_marked st before) Q s"
proof (rule wp_save_marked [OF step_frame_refl [OF flow_okD(1) [OF flow_run_ok [OF run]]] before])
  fix m u t
  let ?r = "(mark_state m st before)\<lparr>ts_updated_at := u\<rparr>"
  assume frame: "step_frame s t" and mem: "?r \<in> set (task_steps t)"
    and t: "t = s\<lparr>task_steps := replace_row ts_id ?r (task_steps s), clock := stl (stl (clock s))\<rparr>"
  have visits: "count_visits_of_step i t = count_visits_of_step i s" for i by (simp add: t count_visits_of_step_def)
  have "budget_kept base t"
    using run before unfolding flow_run_def budget_kept_def visits by (auto simp: t set_replace_row)
  moreover have "session_safe base t"
  proof -
    have "ts_id r \<noteq> ts_id before" if "r \<in> set (task_steps s)" "ts_state r = Draft" for r
      using that moves before steps_okD(3) [OF flow_okD(1) [OF flow_run_ok [OF run]]] by (auto simp: distinct_map inj_on_def)
    then show ?thesis using run moves by (auto simp: flow_run_def session_safe_def t set_replace_row)
  qed
  ultimately have "flow_run base t" using step_frame_flow [OF frame] run by (simp add: flow_run_def)
  then show "Q ?r t" using post mem by (simp add: t)
qed

lemma wp_reopen_flow:
  assumes run: "flow_run base s"
    and post: "\<And>r t. \<lbrakk>flow_run base t; r \<in> set (task_steps t)\<rbrakk> \<Longrightarrow> Q r t"
  shows "wp (reopen_for_route_in i) Q s"
  unfolding reopen_for_route_in_def
  using run by (auto simp: wp_simps dest!: find_step_Some intro!: post wp_save_marked_flow [where base = base])

lemma wp_leave_by:
  assumes run: "flow_run base s" and claimed: "claimed \<in> set (task_steps s)"
    and post: "\<And>r t. flow_run base t \<Longrightarrow> Q r t"
  shows "wp (leave_by claimed outcome report) Q s"
proof -
  have enter: "wp (enter_step i) (\<lambda>_. flow_run base) t" if "flow_run base t" for i t
    unfolding enter_step_def wp_simps
    by (rule wp_reopen_flow [OF that], rule wp_enter_in) (auto intro: wp_views)
  show ?thesis
    unfolding leave_by_def routes_from_in_def
    using run claimed
    by (auto simp: wp_simps wp_tx_ok split: option.splits intro!: wp_leave_in [where base = base] post
        intro: wp_mono [OF enter])
qed

lemma is_flow_reads: "reads (is_flow_in i)"
  unfolding is_flow_in_def reads_def by (auto simp: tx_bind_Inr split: if_splits)

lemma is_start_reads: "reads (is_start_in u i reference target)"
  unfolding is_start_in_def reads_def
  by (auto simp: tx_bind_Inr split: if_splits dest: resolve_step_Inr)

lemma flow_run_transition: "preserves (flow_run base) (flow_transition_in u pl label reference target outcome report)"
proof (rule preserves_wpI)
  fix s assume run: "flow_run base s"
  have move: "wp (transition_in u t reference target) (\<lambda>r t. flow_run base t \<and> r \<in> set (task_steps t)) s" for t
    unfolding transition_in_def
    using run by (auto simp: wp_simps intro!: wp_resolve(2) wp_save_marked_flow [where base = base])
  have rest: "wp (if b then tx_bind (enter_in r) (\<lambda>_. tx_ok None)
       else if c then tx_bind (leave_by r oc rp) (\<lambda>x. tx_ok (Some x)) else tx_ok None) (\<lambda>_. flow_run base) t"
    if "flow_run base t" "r \<in> set (task_steps t)" for b c r oc rp t
    using that by (auto simp: wp_simps wp_tx_ok intro!: wp_enter_in [where base = base] wp_leave_by [where base = base])
  show "wp (flow_transition_in u pl label reference target outcome report) (\<lambda>_. flow_run base) s"
    unfolding flow_transition_in_def wp_bind
    by (intro wp_resolve(1) wp_reads [OF is_flow_reads] wp_reads [OF is_start_reads])
      (auto simp: wp_simps intro!: wp_resolve(1) wp_reads [OF is_flow_reads] wp_reads [OF is_start_reads]
          wp_mono [OF move] wp_mono [OF rest] wp_publish_steps wp_views)
qed

lemma flow_ok_transition: "preserves flow_ok (flow_transition_in u pl label reference target outcome report)"
proof (rule preserves_wpI)
  fix s assume "flow_ok s"
  from wp_preserves [OF flow_run_transition flow_run_refl [OF this]]
  show "wp (flow_transition_in u pl label reference target outcome report) (\<lambda>_. flow_ok) s"
    by (rule wp_mono) (rule flow_run_ok)
qed

lemma flow_ok_clear_in: "preserves flow_ok (clear_in i)"
proof (rule preserves_wpI)
  fix s assume ok: "flow_ok s"
  let ?vs = "filter (\<lambda>v. sv_task_id v \<noteq> i) (step_visits s)"
  note vok = flow_okD(3) [OF ok, unfolded visits_ok_def]
  have "length (open_visits j (s\<lparr>step_visits := ?vs\<rparr>)) \<le> length (open_visits j s)" for j
    unfolding open_visits_def by (simp del: filter_filter add: length_filter_filter)
  then have "length (open_visits j (s\<lparr>step_visits := ?vs\<rparr>)) \<le> 1" for j using vok le_trans by blast
  then have "visits_ok (s\<lparr>step_visits := ?vs\<rparr>)"
    using vok by (simp add: visits_ok_def step_keys_def distinct_map_filter)
  then show "wp (clear_in i) (\<lambda>_. flow_ok) s"
    using flow_ok_visits [OF ok] by (simp add: clear_in_def delete_visits_of_task_def wp_def)
qed

lemma flow_ok_reset: "preserves flow_ok (flow_reset_in i)"
  unfolding flow_reset_in_def
  by (rule flow_ok_clear_in flow_ok_table reads_views [THEN reads_preserves] preserves_intro)+

subsection \<open>Laying a plan\<close>

lemma flow_ok_lay_step: "preserves flow_ok (lay_step i planned)"
  unfolding lay_step_def
  by (rule frame_add [THEN frame_flow_ok] frame_settings [THEN frame_flow_ok] preserves_intro)+

lemma flow_ok_lay_route: "preserves flow_ok (lay_route u drafts dr route)"
  unfolding lay_route_def by (rule flow_ok_link_propose_in preserves_intro)+

lemma flow_ok_lay_in: "preserves flow_ok (lay_in u i plan)"
  unfolding lay_in_def by (rule flow_ok_lay_step flow_ok_lay_route preserves_intro)+

lemma flow_ok_propose: "preserves flow_ok (flow_propose_in u pl label plan staging)"
  unfolding flow_propose_in_def
  by (rule flow_ok_lay_in frame_release_drafts_in [THEN frame_flow_ok] flow_ok_table reads_views [THEN reads_preserves]
      preserves_intro)+

lemma flow_ok_replan: "preserves flow_ok (flow_replan_in u pl label plan staging)"
  unfolding flow_replan_in_def Let_def
  by (rule flow_ok_lay_in flow_ok_clear_unstarted frame_release_drafts_in [THEN frame_flow_ok] flow_ok_table
      reads_views [THEN reads_preserves] preserves_intro)+

end
