(* ===== verification/Samples.thy ===== *)
theory Samples
  imports Load
begin

section \<open>A concrete store\<close>

text \<open>
  Rows the witnesses run the model on: one project, one task in it with three steps (one
  claimed, one open, one draft), the routes between them, one visit. The clock always reads 50
  and the ids are drawn upwards from 100.
\<close>

definition sample_clock :: "instant stream" where "sample_clock = sconst 50"
definition sample_ids :: "nat \<Rightarrow> id stream" where "sample_ids n = fromN n"

lemma sample_clock_simps [simp]: "shd sample_clock = 50" "stl sample_clock = sample_clock"
  by (simp_all add: sample_clock_def)

lemma sample_ids_simps [simp]: "shd (sample_ids n) = n" "stl (sample_ids n) = sample_ids (Suc n)"
  by (simp_all add: sample_ids_def)

definition sample_project :: project where
  "sample_project = \<lparr>pr_id = 1, pr_label = lit ''p'', pr_title = lit ''P'', pr_status = ProjectActive,
     pr_icon = [], pr_description = None, pr_blueprint_markdown = None, pr_repo_folder = None,
     pr_auto_commit = False, pr_company_id = 0, pr_created_at = 0, pr_updated_at = 0\<rparr>"

definition sample_task :: task where
  "sample_task = task_new 2 (lit ''t'') (lit ''T'') 1 0"

definition sample_step :: "id \<Rightarrow> string \<Rightarrow> int \<Rightarrow> task_step" where
  "sample_step i title position = task_step_new i 2 (lit title) position 0"

definition claimed_step :: task_step where
  "claimed_step = mark_state 5 Claimed (sample_step 10 ''a'' 0)"
definition open_step :: task_step where
  "open_step = mark_state 5 Open (sample_step 11 ''b'' 1)"
definition draft_step :: task_step where
  "draft_step = sample_step 12 ''c'' 2"

definition empty_db :: db where
  "empty_db = \<lparr>projects = [], tasks = [], task_steps = [], step_links = [], step_visits = [],
     time_entries = [], task_dependencies = [], wrapups = [], wrapup_versions = [], documents = [], document_tasks = [], task_feedbacks = [],
     run_queues = [], run_queue_items = [], events = [], announced = [],
     clock = sample_clock, entropy = sample_ids 100\<rparr>"

definition sample_db :: db where
  "sample_db = empty_db\<lparr>projects := [sample_project], tasks := [sample_task],
     task_steps := [claimed_step, open_step, draft_step]\<rparr>"

text \<open>The same task as a flow: the open step leads to the claimed one, which may be entered twice.\<close>

definition budgeted_step :: task_step where
  "budgeted_step = claimed_step\<lparr>ts_max_visits := Some 2\<rparr>"
definition ok_link :: step_link where
  "ok_link = step_link_new 20 2 11 (Some 10) (lit ''ok'') 0 0"
definition flow_db :: db where
  "flow_db = sample_db\<lparr>task_steps := [budgeted_step, open_step, draft_step], step_links := [ok_link],
     step_visits := [(visit_enter 30 2 10 1 1)\<lparr>sv_left_at := Some 2\<rparr>]\<rparr>"

lemmas sample_defs = sample_project_def sample_task_def sample_step_def claimed_step_def open_step_def
  draft_step_def empty_db_def sample_db_def budgeted_step_def ok_link_def flow_db_def task_new_def task_step_new_def mark_state_def

text \<open>The definitions above, for running the model on concrete input.\<close>

lemmas samples_run [run_defs] = sample_project_def sample_task_def sample_step_def claimed_step_def open_step_def
  draft_step_def empty_db_def sample_db_def budgeted_step_def ok_link_def flow_db_def

end
