(* ===== verification/Time_Entries.thy ===== *)
theory Time_Entries
  imports Step_Facts Samples
begin

section \<open>Time entries\<close>

text \<open>
  \<^verbatim>\<open>rekall-core/src/timeentry\<close>: the sessions of work measured on a task. A task has at most one
  running entry; \<open>stop_timer\<close> of the step service is \<^verbatim>\<open>stop_if_running_in\<close> without its answer,
  \<open>stop_if_running_in\<close> here answers the stopped entry. An instant counts microseconds.
\<close>

record time_entry_view =
  ev_id :: id
  ev_task_id :: id
  ev_task_label :: str
  ev_task_title :: str
  ev_project_label :: str
  ev_anchor :: str
  ev_started_at :: instant
  ev_stopped_at :: "instant option"
  ev_created_at :: instant
  ev_updated_at :: instant

definition entry_view_of :: "time_entry \<Rightarrow> task \<Rightarrow> project \<Rightarrow> time_entry_view" where
  "entry_view_of entry t p =
     \<lparr>ev_id = te_id entry, ev_task_id = tk_id t, ev_task_label = tk_label t, ev_task_title = tk_title t,
      ev_project_label = pr_label p, ev_anchor = task_anchor t (pr_label p),
      ev_started_at = te_started_at entry, ev_stopped_at = te_stopped_at entry,
      ev_created_at = te_created_at entry, ev_updated_at = te_updated_at entry\<rparr>"

definition entry_view_load :: "time_entry \<Rightarrow> time_entry_view action" where
  "entry_view_load entry =
     tx_bind (task_or_unknown (te_task_id entry)) (\<lambda>t.
     tx_bind (project_of t) (\<lambda>p. tx_ok (entry_view_of entry t p)))"

subsection \<open>The operations\<close>

definition IDLE_AFTER :: int where "IDLE_AFTER = 30 * 60 * 1000000"

definition entries_newest_first :: "db \<Rightarrow> time_entry list" where
  "entries_newest_first s = sort_key (\<lambda>e. - te_started_at e) (time_entries s)"

definition tasks_oldest_first :: "db \<Rightarrow> task list" where
  "tasks_oldest_first s = sort_key tk_created_at (sort_key tk_id (tasks s))"

definition projects_oldest_first :: "db \<Rightarrow> project list" where
  "projects_oldest_first s = sort_key pr_created_at (sort_key pr_id (projects s))"

definition entries_find_all :: "db \<Rightarrow> time_entry_view list" where
  "entries_find_all s = List.map_filter (\<lambda>entry.
       case List.find (\<lambda>t. tk_id t = te_task_id entry) (tasks_oldest_first s) of
         None \<Rightarrow> None
       | Some t \<Rightarrow> map_option (entry_view_of entry t) (List.find (\<lambda>p. pr_id p = tk_project_id t) (projects_oldest_first s)))
     (entries_newest_first s)"

definition entry_start_in :: "id \<Rightarrow> time_entry_view action" where
  "entry_start_in task_id =
     tx_bind (task_or_unknown task_id) (\<lambda>_.
     tx_bind (running_entry_of_task task_id) (\<lambda>found. case found of
       Some open_entry \<Rightarrow> entry_view_load open_entry
     | None \<Rightarrow>
         tx_bind ctx_now (\<lambda>now.
         tx_bind random_id (\<lambda>i.
         let created = \<lparr>te_id = i, te_task_id = task_id, te_started_at = now, te_stopped_at = None,
                        te_created_at = now, te_updated_at = now\<rparr>
         in tx_bind (insert_entry created) (\<lambda>_. entry_view_load created)))))"

definition entry_start :: "id \<Rightarrow> db \<Rightarrow> time_entry_view result \<times> db" where
  "entry_start task_id = in_write (entry_start_in task_id)"

definition stop_if_running_in :: "id \<Rightarrow> time_entry_view option action" where
  "stop_if_running_in task_id = tx_bind (running_entry_of_task task_id) (\<lambda>found. case found of
       None \<Rightarrow> tx_ok None
     | Some open_entry \<Rightarrow>
         tx_bind ctx_now (\<lambda>now.
         let stopped = open_entry\<lparr>te_stopped_at := Some now, te_updated_at := now\<rparr>
         in tx_bind (update_entry stopped) (\<lambda>_.
            tx_bind (entry_view_load stopped) (\<lambda>view. tx_ok (Some view)))))"

definition entry_stop_in :: "id \<Rightarrow> time_entry_view action" where
  "entry_stop_in task_id =
     tx_bind (task_or_unknown task_id) (\<lambda>_.
     tx_bind (stop_if_running_in task_id) (\<lambda>stopped. case stopped of
       None \<Rightarrow> tx_fail (IllegalArgument (Msg ''nothing is being tracked on this task'' []))
     | Some view \<Rightarrow> tx_ok view))"

definition entry_stop :: "id \<Rightarrow> db \<Rightarrow> time_entry_view result \<times> db" where
  "entry_stop task_id = in_write (entry_stop_in task_id)"

definition entry_edit_in :: "id \<Rightarrow> instant option \<Rightarrow> instant option \<Rightarrow> time_entry_view action" where
  "entry_edit_in i started_at stopped_at =
     tx_bind (tx_gets (find_entry i)) (\<lambda>found. case found of
       None \<Rightarrow> tx_fail (UnknownAnchor (Msg ''no time entry with id'' []))
     | Some entry \<Rightarrow> (case started_at of
         None \<Rightarrow> tx_fail (IllegalArgument (Msg ''a session needs a start time'' []))
       | Some started \<Rightarrow>
           if stopped_at = None \<and> te_stopped_at entry \<noteq> None
           then tx_fail (IllegalArgument (Msg ''a finished session cannot be reopened'' []))
           else if (case stopped_at of None \<Rightarrow> False | Some stopped \<Rightarrow> \<not> stopped > started)
           then tx_fail (IllegalArgument (Msg ''a session has to end after it starts'' []))
           else let edited = entry\<lparr>te_started_at := started, te_stopped_at := stopped_at\<rparr> in
             if edited \<noteq> entry
             then tx_bind ctx_now (\<lambda>now.
                  let written = edited\<lparr>te_updated_at := now\<rparr>
                  in tx_bind (update_entry written) (\<lambda>_. entry_view_load written))
             else entry_view_load edited))"

definition entry_edit :: "id \<Rightarrow> instant option \<Rightarrow> instant option \<Rightarrow> db \<Rightarrow> time_entry_view result \<times> db" where
  "entry_edit i started_at stopped_at = in_write (entry_edit_in i started_at stopped_at)"

definition entry_delete_in :: "id \<Rightarrow> unit action" where
  "entry_delete_in i = tx_modify (\<lambda>s. s\<lparr>time_entries := filter (\<lambda>e. te_id e \<noteq> i) (time_entries s)\<rparr>)"

definition entry_delete :: "id \<Rightarrow> db \<Rightarrow> unit result \<times> db" where
  "entry_delete i = in_write (entry_delete_in i)"

definition stop_all_on_shutdown_in :: "unit action" where
  "stop_all_on_shutdown_in =
     tx_bind ctx_now (\<lambda>now.
     tx_bind (tx_gets running_entries) (\<lambda>open_entries.
     tx_each (\<lambda>entry. tx_bind (update_entry (entry\<lparr>te_stopped_at := Some now, te_updated_at := now\<rparr>))
                        (\<lambda>_. tx_ok ())) open_entries))"

definition stop_all_on_shutdown :: "db \<Rightarrow> unit result \<times> db" where
  "stop_all_on_shutdown = in_write stop_all_on_shutdown_in"

text \<open>The latest of the writes; \<open>None\<close> while a session runs a step of the task.\<close>

definition latest :: "instant list \<Rightarrow> instant option" where
  "latest ws = (case ws of [] \<Rightarrow> None | w # rest \<Rightarrow> Some (fold max rest w))"

definition last_activity :: "time_entry \<Rightarrow> db \<Rightarrow> instant option" where
  "last_activity entry s =
     (let steps = steps_of (te_task_id entry) s in
      if list_ex (\<lambda>step. running (ts_state step)) steps then None
      else latest ([te_started_at entry, te_updated_at entry]
        @ (case find_task (te_task_id entry) s of None \<Rightarrow> [] | Some t \<Rightarrow> [tk_updated_at t])
        @ map ts_updated_at steps
        @ (case wrapup_of (te_task_id entry) s of None \<Rightarrow> [] | Some w \<Rightarrow> [wr_updated_at w])
        @ map dc_updated_at (documents_of_task (te_task_id entry) s)))"

primrec stop_idle_each :: "int \<Rightarrow> instant \<Rightarrow> nat \<Rightarrow> time_entry list \<Rightarrow> nat action" where
  "stop_idle_each idle_after now stopped_count [] = tx_ok stopped_count"
| "stop_idle_each idle_after now stopped_count (entry # rest) =
     tx_bind (tx_gets (last_activity entry)) (\<lambda>found. case found of
       None \<Rightarrow> stop_idle_each idle_after now stopped_count rest
     | Some activity \<Rightarrow>
         if now - activity \<le> idle_after then stop_idle_each idle_after now stopped_count rest
         else tx_bind (update_entry (entry\<lparr>te_stopped_at := Some activity, te_updated_at := now\<rparr>)) (\<lambda>_.
              stop_idle_each idle_after now (Suc stopped_count) rest))"

definition stop_idle_in :: "int \<Rightarrow> nat action" where
  "stop_idle_in idle_after =
     tx_bind ctx_now (\<lambda>now.
     tx_bind (tx_gets running_entries) (\<lambda>open_entries. stop_idle_each idle_after now 0 open_entries))"

definition stop_idle :: "int \<Rightarrow> db \<Rightarrow> nat result \<times> db" where
  "stop_idle idle_after = in_write (stop_idle_in idle_after)"

text \<open>The definitions above, for running the model on concrete input.\<close>

lemmas time_entries_run [run_defs] = entry_view_of_def entry_view_load_def IDLE_AFTER_def entries_newest_first_def
  tasks_oldest_first_def projects_oldest_first_def entries_find_all_def entry_start_in_def
  entry_start_def stop_if_running_in_def entry_stop_in_def entry_stop_def entry_edit_in_def
  entry_edit_def entry_delete_in_def entry_delete_def stop_all_on_shutdown_in_def
  stop_all_on_shutdown_def latest_def last_activity_def stop_idle_in_def stop_idle_def

subsection \<open>At most one running entry per task\<close>

definition timers_ok :: "db \<Rightarrow> bool" where
  "timers_ok s \<longleftrightarrow> distinct (map te_id (time_entries s)) \<and> (\<forall>e \<in> set (time_entries s). task_exists s (te_task_id e))
     \<and> (\<forall>e \<in> set (time_entries s). \<forall>e' \<in> set (time_entries s).
          te_stopped_at e = None \<and> te_stopped_at e' = None \<and> te_task_id e = te_task_id e' \<longrightarrow> e = e')"

lemma timers_ok_table: "table_invariant timers_ok"
  by (simp add: table_invariant_def timers_ok_def task_exists_def)

lemmas timers_frame [simp] = timers_ok_table [THEN table_invariantD(1)]
  timers_ok_table [THEN table_invariantD(2)] timers_ok_table [THEN table_invariantD(3)]

text \<open>Under the invariant the query for the running entry of a task never finds two.\<close>

lemma at_most_one_cases: "at_most_one rs = Inr found \<longleftrightarrow> rs = [] \<and> found = None \<or> (\<exists>r. rs = [r] \<and> found = Some r)"
  by (auto simp: at_most_one_def split: list.splits)

lemma running_entry_Inr:
  assumes "running_entry_of_task i s = Inr (found, t)"
  shows "t = s" "found = None \<Longrightarrow> e \<in> set (time_entries s) \<Longrightarrow> te_task_id e = i \<Longrightarrow> te_stopped_at e \<noteq> None"
    "found = Some e \<Longrightarrow> e \<in> set (time_entries s) \<and> te_task_id e = i \<and> te_stopped_at e = None"
proof -
  let ?run = "filter (\<lambda>e. te_task_id e = i \<and> te_stopped_at e = None) (time_entries s)"
  have one: "at_most_one ?run = Inr found" and "t = s"
    using assms by (simp_all add: running_entry_of_task_def tx_bind_Inr)
  then show "t = s" by simp
  show "te_stopped_at e \<noteq> None" if "found = None" "e \<in> set (time_entries s)" "te_task_id e = i"
    using one that by (simp add: at_most_one_cases filter_empty_conv)
  show "e \<in> set (time_entries s) \<and> te_task_id e = i \<and> te_stopped_at e = None" if "found = Some e"
  proof -
    have "?run = [e]" using one that by (simp add: at_most_one_cases)
    then have "e \<in> set ?run" by simp
    then show ?thesis by (simp only: set_filter mem_Collect_eq)
  qed
qed

lemma running_entry_total:
  assumes "timers_ok s"
  shows "\<exists>found. running_entry_of_task i s = Inr (found, s)"
proof -
  let ?run = "filter (\<lambda>e. te_task_id e = i \<and> te_stopped_at e = None) (time_entries s)"
  have d: "distinct ?run" using assms by (simp add: timers_ok_def distinct_map)
  have same: "e = e'" if "e \<in> set ?run" "e' \<in> set ?run" for e e' using assms that by (simp add: timers_ok_def)
  have "?run = [] \<or> (\<exists>e. ?run = [e])"
  proof (cases ?run)
    case (Cons e rest)
    then have "rest = []" using d same [of e "hd rest"] by (cases rest) auto
    then show ?thesis using Cons by simp
  qed simp
  then obtain found where "at_most_one ?run = Inr found" by (auto simp: at_most_one_cases)
  then show ?thesis
    by (intro exI [of _ found]) (simp add: running_entry_of_task_def tx_bind_def tx_gets_def tx_lift_def)
qed

text \<open>Writing one entry keeps the invariant when the entry is stopped, or was running before.\<close>

lemma timers_update:
  assumes "update_entry e s = Inr (x, t)" "timers_ok s"
    and "te_stopped_at e \<noteq> None \<or>
         (\<exists>b \<in> set (time_entries s). te_id b = te_id e \<and> te_task_id b = te_task_id e \<and> te_stopped_at b = None)"
  shows "timers_ok t"
proof -
  have t: "t = s\<lparr>time_entries := replace_row te_id e (time_entries s)\<rparr>" and fk: "task_exists s (te_task_id e)"
    using assms(1) by (simp_all add: update_entry_def update_Inr entry_ok_def)
  have ids: "distinct (map te_id (time_entries s))" and tasks: "\<forall>a \<in> set (time_entries s). task_exists s (te_task_id a)"
    and one: "\<And>a b. \<lbrakk>a \<in> set (time_entries s); b \<in> set (time_entries s); te_stopped_at a = None; te_stopped_at b = None;
        te_task_id a = te_task_id b\<rbrakk> \<Longrightarrow> a = b"
    using assms(2) by (auto simp: timers_ok_def)
  have clash: False if a: "a \<in> set (time_entries s)" "te_id a \<noteq> te_id e" "te_stopped_at a = None" "te_stopped_at e = None"
      "te_task_id a = te_task_id e" for a
  proof -
    obtain b where b: "b \<in> set (time_entries s)" "te_id b = te_id e" "te_task_id b = te_task_id e" "te_stopped_at b = None"
      using assms(3) a(4) by auto
    then have "a = b" using a(1,3,5) by (intro one) simp_all
    then show False using b(2) a(2) by simp
  qed
  have "\<forall>a \<in> set (replace_row te_id e (time_entries s)). task_exists t (te_task_id a)"
    using fk tasks by (auto simp: set_replace_row t task_exists_def)
  then show ?thesis unfolding timers_ok_def t
  proof (simp add: ids, intro ballI impI, elim conjE)
    fix a b assume "a \<in> set (replace_row te_id e (time_entries s))" "b \<in> set (replace_row te_id e (time_entries s))"
      and st: "te_stopped_at a = None" "te_stopped_at b = None" "te_task_id a = te_task_id b"
    then consider "a = e" "b = e" | "a = e" "b \<in> set (time_entries s)" "te_id b \<noteq> te_id e"
      | "b = e" "a \<in> set (time_entries s)" "te_id a \<noteq> te_id e" | "a \<in> set (time_entries s)" "b \<in> set (time_entries s)"
      unfolding set_replace_row by blast
    then show "a = b"
    proof cases
      case 2
      then show ?thesis using clash [of b] st by simp
    next
      case 3
      then show ?thesis using clash [of a] st by simp
    qed (use one st in auto)
  qed
qed

lemma wp_update_entry:
  assumes "timers_ok s"
    and "te_stopped_at e \<noteq> None \<or>
         (\<exists>b \<in> set (time_entries s). te_id b = te_id e \<and> te_task_id b = te_task_id e \<and> te_stopped_at b = None)"
    and "\<And>t. timers_ok t \<Longrightarrow> Q e t"
  shows "wp (update_entry e) Q s"
proof (rule wpI)
  fix x t assume run: "update_entry e s = Inr (x, t)"
  then have "x = e" by (simp add: update_entry_def update_Inr)
  then show "Q x t" using assms(3) timers_update [OF run assms(1,2)] by simp
qed

lemma reads_entry_view: "reads (entry_view_load e)"
  by (auto simp: entry_view_load_def task_or_unknown_def project_of_def intro!: reads_base reads_bind split: option.splits)

lemma wp_entry_view: "(\<And>v. Q v s) \<Longrightarrow> wp (entry_view_load e) Q s"
  by (auto intro: wp_reads reads_entry_view)

lemma wp_running_entry:
  assumes "(\<And>e. e \<in> set (time_entries s) \<Longrightarrow> te_task_id e = i \<Longrightarrow> te_stopped_at e \<noteq> None) \<Longrightarrow> Q None s"
    and "\<And>e. e \<in> set (time_entries s) \<Longrightarrow> te_task_id e = i \<Longrightarrow> te_stopped_at e = None \<Longrightarrow> Q (Some e) s"
  shows "wp (running_entry_of_task i) Q s"
proof (rule wpI)
  fix found t assume run: "running_entry_of_task i s = Inr (found, t)"
  show "Q found t"
    using running_entry_Inr [OF run] assms by (cases found) auto
qed

lemma wp_insert_entry:
  assumes "timers_ok s" "te_stopped_at e = None"
    and "\<And>a. a \<in> set (time_entries s) \<Longrightarrow> te_task_id a = te_task_id e \<Longrightarrow> te_stopped_at a \<noteq> None"
    and "\<And>t. timers_ok t \<Longrightarrow> Q e t"
  shows "wp (insert_entry e) Q s"
proof (rule wpI)
  fix x t assume "insert_entry e s = Inr (x, t)"
  then have x: "x = e" and new: "te_id e \<notin> te_id ` set (time_entries s)" and t: "t = s\<lparr>time_entries := time_entries s @ [e]\<rparr>"
    and fk: "task_exists s (te_task_id e)"
    by (simp_all add: insert_entry_def insert_Inr entry_ok_def)
  have "timers_ok t" using assms(1,3) new fk unfolding timers_ok_def t task_exists_def by fastforce
  then show "Q x t" using assms(4) x by simp
qed

lemma timers_start: "preserves timers_ok (entry_start_in i)"
  unfolding entry_start_in_def Let_def
  by (auto intro!: preserves_wpI wp_running_entry wp_insert_entry wp_entry_view simp: wp_simps)

lemma timers_stop_if_running: "preserves timers_ok (stop_if_running_in i)"
  unfolding stop_if_running_in_def Let_def
  by (auto intro!: preserves_wpI wp_running_entry wp_update_entry wp_entry_view simp: wp_simps)

lemma timers_stop: "preserves timers_ok (entry_stop_in i)"
  unfolding entry_stop_in_def
  by (intro preserves_tx_bind preserves_require timers_stop_if_running preserves_case_option preserves_tx_ok preserves_tx_fail)

lemma find_entry_Some: "find_entry i s = Some e \<Longrightarrow> e \<in> set (time_entries s) \<and> te_id e = i"
  by (auto simp: find_entry_def dest: find_row_Some)

lemma timers_edit: "preserves timers_ok (entry_edit_in i started stopped)"
  unfolding entry_edit_in_def Let_def
  by (auto intro!: preserves_wpI wp_update_entry wp_entry_view simp: wp_simps dest!: find_entry_Some split: option.splits) force

lemma timers_delete: "preserves timers_ok (entry_delete_in i)"
  unfolding entry_delete_in_def by (rule preservesI) (auto simp: timers_ok_def task_exists_def distinct_map inj_on_def)

lemma timers_update_stopped: "te_stopped_at e \<noteq> None \<Longrightarrow> preserves timers_ok (update_entry e)"
  by (auto intro!: preserves_wpI wp_update_entry)

lemma timers_shutdown: "preserves timers_ok stop_all_on_shutdown_in"
  unfolding stop_all_on_shutdown_in_def
  by (intro preserves_tx_bind preserves_tx_each preserves_tx_gets preserves_tx_ok timers_update_stopped
      preserves_ctx_now timers_ok_table) simp

lemma timers_idle_each: "preserves timers_ok (stop_idle_each idle now n es)"
  by (induction es arbitrary: n)
    (auto intro!: preserves_tx_bind preserves_tx_gets preserves_tx_ok preserves_case_option preserves_if timers_update_stopped)

lemma timers_idle: "preserves timers_ok (stop_idle_in idle)"
  unfolding stop_idle_in_def
  by (intro preserves_tx_bind preserves_tx_gets preserves_ctx_now timers_ok_table timers_idle_each)

subsection \<open>Stopping idle timers\<close>

lemma last_activity_frame [simp]: "last_activity e (s\<lparr>time_entries := es\<rparr>) = last_activity e s"
  by (simp add: last_activity_def steps_of_def find_task_def wrapup_of_def documents_of_task_def Let_def)

lemma latest_upper: "latest ws = Some m \<Longrightarrow> w \<in> set ws \<Longrightarrow> w \<le> m"
  using Max_ge [of "set ws" w] by (cases ws) (auto simp: latest_def simp flip: Max.set_eq_fold)

lemma last_activity_after_start: "last_activity e s = Some a \<Longrightarrow> te_started_at e \<le> a"
  by (auto simp: last_activity_def Let_def split: if_splits intro: latest_upper)

text \<open>Writing back a selection of rows, one after the other, is one pass over the table.\<close>

lemma fold_replace_rows:
  assumes "distinct (map key rs)" "set xs \<subseteq> set rs" "\<And>r. key (f r) = key r"
  shows "fold (\<lambda>x. replace_row key (f x)) xs (map (\<lambda>r. if r \<in> done then f r else r) rs)
    = map (\<lambda>r. if r \<in> done \<union> set xs then f r else r) rs"
  using assms(2)
proof (induction xs arbitrary: "done")
  case (Cons x xs)
  have same: "r \<in> set rs \<Longrightarrow> key r = key x \<longleftrightarrow> r = x" for r
    using assms(1) Cons.prems by (auto simp: distinct_map inj_on_def)
  have "replace_row key (f x) (map (\<lambda>r. if r \<in> done then f r else r) rs)
      = map (\<lambda>r. if r \<in> insert x done then f r else r) rs"
    using same by (auto simp: replace_row_def assms(3))
  then show ?case using Cons.IH [of "insert x done"] Cons.prems by simp
qed simp

definition idle_at :: "int \<Rightarrow> instant \<Rightarrow> db \<Rightarrow> time_entry \<Rightarrow> bool" where
  "idle_at idle_after now s e = (case last_activity e s of None \<Rightarrow> False | Some a \<Rightarrow> idle_after < now - a)"

definition stopped_idle :: "instant \<Rightarrow> db \<Rightarrow> time_entry \<Rightarrow> time_entry" where
  "stopped_idle now s e = e\<lparr>te_stopped_at := last_activity e s, te_updated_at := now\<rparr>"

lemma stop_idle_each_run:
  assumes "\<And>e. e \<in> set es \<Longrightarrow> te_id e \<in> te_id ` set (time_entries s) \<and> task_exists s (te_task_id e)"
  shows "stop_idle_each idle now n es s = Inr (n + length (filter (idle_at idle now s) es),
     s\<lparr>time_entries := fold (\<lambda>e. replace_row te_id (stopped_idle now s e)) (filter (idle_at idle now s) es) (time_entries s)\<rparr>)"
  using assms
proof (induction es arbitrary: s n)
  case (Cons e es)
  let ?t = "s\<lparr>time_entries := replace_row te_id (stopped_idle now s e) (time_entries s)\<rparr>"
  have frame: "idle_at idle now ?t = idle_at idle now s" "stopped_idle now ?t = stopped_idle now s"
    by (auto simp: idle_at_def stopped_idle_def)
  show ?case
  proof (cases "idle_at idle now s e")
    case True
    then obtain a where a: "last_activity e s = Some a" "idle < now - a" by (auto simp: idle_at_def split: option.splits)
    then have "update_entry (e\<lparr>te_stopped_at := Some a, te_updated_at := now\<rparr>) s = Inr (stopped_idle now s e, ?t)"
      using Cons.prems [of e] by (simp add: update_entry_def update_row_def entry_ok_def stopped_idle_def)
    then have "stop_idle_each idle now n (e # es) s = stop_idle_each idle now (Suc n) es ?t"
      using a by (simp add: tx_bind_def tx_gets_def)
    then show ?thesis using True Cons.IH [of ?t "Suc n"] Cons.prems frame by (simp add: task_exists_def)
  next
    case False
    then have "stop_idle_each idle now n (e # es) s = stop_idle_each idle now n es s"
      by (auto simp: tx_bind_def tx_gets_def idle_at_def split: option.splits)
    then show ?thesis using False Cons by simp
  qed
qed (simp add: tx_ok_def)


definition timed_db :: db where
  "timed_db = sample_db\<lparr>time_entries := [\<lparr>te_id = 40, te_task_id = 2, te_started_at = 0, te_stopped_at = None,
     te_created_at = 0, te_updated_at = 0\<rparr>]\<rparr>"

lemma timed_db_ok: "timers_ok timed_db"
  by (simp add: timers_ok_def timed_db_def run_defs)


subsection \<open>Editing an entry\<close>

lemma entry_view_total:
  assumes "task_exists s (te_task_id e)" and "\<And>t. t \<in> set (tasks s) \<Longrightarrow> find_project (tk_project_id t) s \<noteq> None"
  shows "\<exists>view. entry_view_load e s = Inr (view, s) \<and> ev_started_at view = te_started_at e \<and> ev_stopped_at view = te_stopped_at e"
proof -
  obtain t where t: "find_task (te_task_id e) s = Some t"
    using assms(1) find_row_None [of tk_id "te_task_id e" "tasks s"] by (auto simp: task_exists_def find_task_def)
  then obtain p where "find_project (tk_project_id t) s = Some p"
    using assms(2) [of t] find_row_Some [of tk_id _ "tasks s" t] by (auto simp: find_task_def)
  then show ?thesis using t
    by (simp add: entry_view_load_def tx_bind_def task_or_unknown_def project_of_def tx_gets_def tx_ok_def entry_view_of_def)
qed

lemma entry_edit_in_run:
  assumes ok: "timers_ok s" and pr: "\<And>t. t \<in> set (tasks s) \<Longrightarrow> find_project (tk_project_id t) s \<noteq> None"
    and e: "find_entry i s = Some e"
    and allowed: "te_stopped_at e \<noteq> None \<longrightarrow> stopped \<noteq> None" "\<forall>to. stopped = Some to \<longrightarrow> from < to"
  shows "\<exists>view t. entry_edit_in i (Some from) stopped s = Inr (view, t)
    \<and> ev_started_at view = from \<and> ev_stopped_at view = stopped
    \<and> map_option (\<lambda>e. (te_started_at e, te_stopped_at e)) (find_entry i t) = Some (from, stopped)"
proof -
  have row: "e \<in> set (time_entries s)" "te_id e = i" using find_entry_Some [OF e] by auto
  then have fk: "task_exists s (te_task_id e)" using ok by (simp add: timers_ok_def)
  define edited where "edited = e\<lparr>te_started_at := from, te_stopped_at := stopped\<rparr>"
  have guard: "\<not> (stopped = None \<and> te_stopped_at e \<noteq> None)"
    "\<not> (case stopped of None \<Rightarrow> False | Some to \<Rightarrow> \<not> to > from)"
    using allowed by (auto split: option.splits)
  show ?thesis
  proof (cases "edited = e")
    case True
    have "te_started_at edited = from" "te_stopped_at edited = stopped" by (simp_all add: edited_def)
    then have sel: "te_started_at e = from" "te_stopped_at e = stopped" by (simp_all add: True)
    obtain view where view: "entry_view_load e s = Inr (view, s)" "ev_started_at view = from" "ev_stopped_at view = stopped"
      using entry_view_total [OF fk pr] sel by auto
    have "entry_edit_in i (Some from) stopped s = entry_view_load e s"
      using True e guard by (auto simp: entry_edit_in_def tx_bind_def tx_gets_def Let_def edited_def)
    then show ?thesis using view e sel by auto
  next
    case False
    let ?w = "edited\<lparr>te_updated_at := shd (clock s)\<rparr>"
    let ?t = "s\<lparr>clock := stl (clock s), time_entries := replace_row te_id ?w (time_entries s)\<rparr>"
    have "task_exists ?t (te_task_id ?w)" using fk by (simp add: edited_def task_exists_def)
    moreover have "find_project j ?t = find_project j s" for j by (simp add: find_project_def)
    ultimately obtain view where view: "entry_view_load ?w ?t = Inr (view, ?t)" "ev_started_at view = from" "ev_stopped_at view = stopped"
      using entry_view_total [of ?t ?w] pr by (auto simp: edited_def)
    have "update_entry ?w (s\<lparr>clock := stl (clock s)\<rparr>) = Inr (?w, ?t)"
      using row fk by (auto simp: update_entry_def update_row_def entry_ok_def edited_def task_exists_def)
    then have "entry_edit_in i (Some from) stopped s = Inr (view, ?t)"
      using False e guard view by (auto simp: entry_edit_in_def tx_bind_def tx_gets_def ctx_now_def Let_def edited_def)
    moreover have "find_entry i ?t = Some ?w"
      using row e by (simp add: find_entry_def find_replace_row edited_def)
    ultimately show ?thesis using view by (auto simp: edited_def)
  qed
qed

lemma entry_edit_in_refused:
  assumes "entry_edit_in i started stopped s = Inr (view, t)"
  shows "\<exists>e from. find_entry i s = Some e \<and> started = Some from
       \<and> (te_stopped_at e \<noteq> None \<longrightarrow> stopped \<noteq> None) \<and> (\<forall>to. stopped = Some to \<longrightarrow> from < to)"
  using assms unfolding entry_edit_in_def tx_bind_Inr
  by (auto split: option.splits if_splits)



end
