(* ===== verification/Review.thy ===== *)
theory Review
  imports Time_Entries
begin

section \<open>The review line of a task without a checklist\<close>

text \<open>
  \<^verbatim>\<open>rekall-core/src/review/service/task_review_service.rs\<close>. While a task has no released step
  its own review line carries the work: a session opens and closes it, a wrap-up claims it, the
  console accepts it or sends it back. \<open>review_move\<close> marks the line and saves the row, as every
  operation does; the moment of the mark is a reading of the clock of its own.
\<close>

definition save_and_publish :: "task \<Rightarrow> task \<Rightarrow> task_review_view action" where
  "save_and_publish before t =
     tx_bind (save_task before t) (\<lambda>saved.
     tx_bind (tx_gets (review_active_of (tk_id saved))) (\<lambda>active.
     let view = review_view_of saved active
     in tx_bind (tx_publish (TaskReviewEvent (tk_id saved) view)) (\<lambda>_. tx_ok view)))"

definition review_move :: "task_step_state \<Rightarrow> task \<Rightarrow> task_review_view action" where
  "review_move st before = tx_bind ctx_now (\<lambda>moment. save_and_publish before (mark_review_state moment st before))"

definition session_running_in :: "id \<Rightarrow> bool \<Rightarrow> bool action" where
  "session_running_in task_id is_running =
     tx_bind (tx_gets (find_task task_id)) (\<lambda>found. case found of
       None \<Rightarrow> tx_ok False
     | Some before \<Rightarrow>
         tx_bind (tx_gets (review_active_of task_id)) (\<lambda>active.
         if \<not> active then tx_ok False
         else if is_running \<and> tk_review_state before = Open
         then tx_bind (review_move Running before) (\<lambda>_. tx_ok True)
         else if \<not> is_running \<and> tk_review_state before = Running
         then tx_bind (review_move Open before) (\<lambda>_. tx_ok True)
         else tx_ok False))"

definition session_running :: "id \<Rightarrow> bool \<Rightarrow> db \<Rightarrow> bool result \<times> db" where
  "session_running task_id is_running = in_write (session_running_in task_id is_running)"

definition claimed_by_wrapup_in :: "id \<Rightarrow> unit action" where
  "claimed_by_wrapup_in task_id =
     tx_bind (tx_gets (find_task task_id)) (\<lambda>found. case found of
       None \<Rightarrow> tx_ok ()
     | Some before \<Rightarrow>
         tx_bind (tx_gets (review_active_of task_id)) (\<lambda>active.
         if \<not> active then tx_ok ()
         else if tk_review_state before = Open \<or> tk_review_state before = Running
         then tx_bind (review_move Claimed before) (\<lambda>_. tx_ok ())
         else tx_ok ()))"

definition guard_active :: "id \<Rightarrow> unit action" where
  "guard_active task_id = tx_bind (tx_gets (review_active_of task_id)) (\<lambda>active.
     if \<not> active then tx_fail (IllegalArgument (Msg ''this task has a checklist, so its steps carry the review'' []))
     else tx_ok ())"

definition settle_acceptance :: "task \<Rightarrow> task \<Rightarrow> task_review_view action" where
  "settle_acceptance before accepted =
     (if tk_review_state before = Done
      then tx_fail (IllegalArgument (Msg ''this task is already accepted'' []))
      else tx_bind (save_and_publish before accepted) (\<lambda>view.
           if tk_review_state before = Claimed
           then tx_bind (stop_if_running_in (tk_id before)) (\<lambda>_. tx_ok view)
           else tx_ok view))"

definition accept_in :: "id \<Rightarrow> task_review_view action" where
  "accept_in task_id =
     tx_bind (task_or_unknown task_id) (\<lambda>before.
     tx_bind (guard_active task_id) (\<lambda>_.
     tx_bind ctx_now (\<lambda>moment.
     settle_acceptance before (mark_review_state moment Done before))))"

definition accept_quick_claim_in :: "id \<Rightarrow> bool action" where
  "accept_quick_claim_in task_id =
     tx_bind (tx_gets (find_task task_id)) (\<lambda>found. case found of
       None \<Rightarrow> tx_ok False
     | Some before \<Rightarrow>
         tx_bind (tx_gets (review_active_of task_id)) (\<lambda>active.
         if \<not> (tk_quick before \<and> tk_review_state before = Claimed) \<or> \<not> active then tx_ok False
         else tx_bind ctx_now (\<lambda>moment.
              tx_bind (settle_acceptance before (accept_automatically moment before)) (\<lambda>_. tx_ok True))))"

definition accept_quick_claim :: "id \<Rightarrow> db \<Rightarrow> bool result \<times> db" where
  "accept_quick_claim task_id = in_write (accept_quick_claim_in task_id)"

definition review_send_back_in :: "id \<Rightarrow> task_review_view action" where
  "review_send_back_in task_id =
     tx_bind (task_or_unknown task_id) (\<lambda>before.
     tx_bind (guard_active task_id) (\<lambda>_. review_move Open before))"

text \<open>The definitions above, for running the model on concrete input.\<close>

lemmas review_run [run_defs] = save_and_publish_def review_move_def session_running_in_def session_running_def
  claimed_by_wrapup_in_def guard_active_def settle_acceptance_def accept_in_def
  accept_quick_claim_in_def accept_quick_claim_def review_send_back_in_def

subsection \<open>What the operations keep\<close>

definition tasks_ok :: "db \<Rightarrow> bool" where
  "tasks_ok s \<longleftrightarrow> distinct (map tk_id (tasks s))
     \<and> (\<forall>t \<in> set (tasks s). task_ok s t \<and> task_moments_ok t \<and> task_validate t = Inr ())"

definition task_keys :: "db \<Rightarrow> (id \<times> id \<times> str \<times> task_kind) list" where
  "task_keys s = map (\<lambda>t. (tk_id t, tk_project_id t, tk_label t, tk_kind t)) (tasks s)"

text \<open>
  \<open>base\<close> is the state an operation started from: it may write review lines and time entries,
  no other table, and neither adds nor removes a task.
\<close>

definition review_frame :: "db \<Rightarrow> db \<Rightarrow> bool" where
  "review_frame base s \<longleftrightarrow> tasks_ok s \<and> timers_ok s \<and> task_keys s = task_keys base
     \<and> projects s = projects base \<and> task_steps s = task_steps base \<and> step_links s = step_links base
     \<and> step_visits s = step_visits base \<and> task_dependencies s = task_dependencies base
     \<and> wrapups s = wrapups base \<and> wrapup_versions s = wrapup_versions base \<and> documents s = documents base \<and> document_tasks s = document_tasks base \<and> task_feedbacks s = task_feedbacks base
     \<and> run_queues s = run_queues base \<and> run_queue_items s = run_queue_items base"

lemma tasks_ok_table: "table_invariant tasks_ok"
  by (simp add: table_invariant_def tasks_ok_def task_ok_def)

lemma review_frame_table: "table_invariant (review_frame base)"
  by (simp add: table_invariant_def review_frame_def tasks_ok_def task_ok_def timers_ok_def task_exists_def task_keys_def)

lemmas review_frame_simps [simp] = review_frame_table [THEN table_invariantD(1)]
  review_frame_table [THEN table_invariantD(2)] review_frame_table [THEN table_invariantD(3)]

lemma review_frame_refl: "tasks_ok s \<Longrightarrow> timers_ok s \<Longrightarrow> review_frame s s"
  by (simp add: review_frame_def)

lemma find_task_Some: "find_task i s = Some t \<Longrightarrow> t \<in> set (tasks s) \<and> tk_id t = i"
  by (auto simp: find_task_def dest: find_row_Some)

lemma task_validate_frame [simp]:
  "task_validate (t\<lparr>tk_updated_at := u\<rparr>) = task_validate t"
  "task_validate (mark_review_state m st t) = task_validate t"
  "task_validate (accept_automatically m t) = task_validate t"
  by (simp_all add: task_validate_def mark_review_state_def accept_automatically_def Let_def split: task_step_state.split)

lemma task_moments_frame [simp]: "task_moments_ok (t\<lparr>tk_updated_at := u\<rparr>) = task_moments_ok t"
  by (simp add: task_moments_ok_def cong: task_step_state.case_cong)

lemma accept_automatically_frame [simp]:
  "tk_id (accept_automatically m t) = tk_id t" "tk_project_id (accept_automatically m t) = tk_project_id t"
  "tk_label (accept_automatically m t) = tk_label t" "tk_kind (accept_automatically m t) = tk_kind t"
  "tk_review_state (accept_automatically m t) = Done"
  by (simp_all add: accept_automatically_def)

text \<open>Saving a review line over the row it was read from.\<close>

lemma save_task_Inr:
  assumes "save_task before after s = Inr (x, t)" and "distinct (map tk_id (tasks s))"
    and "before \<in> set (tasks s)" and "tk_id after = tk_id before"
  obtains u where "x = after\<lparr>tk_updated_at := u\<rparr>"
    and "t = s\<lparr>tasks := replace_row tk_id x (tasks s), clock := stl (clock s)\<rparr>"
proof (cases "after = before")
  case True
  then have "x = before" and "t = s\<lparr>clock := stl (clock s)\<rparr>"
    using assms(1) by (auto simp: save_task_def update_if_changed_def tx_bind_Inr ctx_now_def)
  then show ?thesis using that [of "tk_updated_at before"] True assms(2,3) by (simp add: replace_row_id)
next
  case False
  then show ?thesis
    using assms(1) that [of "shd (clock s)"]
    by (auto simp: save_task_def update_if_changed_def tx_bind_Inr ctx_now_def update_task_def update_Inr Let_def)
qed

lemma review_frame_save:
  assumes frame: "review_frame base s" and before: "before \<in> set (tasks s)"
    and same: "tk_id x = tk_id before" "tk_project_id x = tk_project_id before" "tk_label x = tk_label before" "tk_kind x = tk_kind before"
    and row: "task_moments_ok x" "task_validate x = Inr ()"
  shows "review_frame base (s\<lparr>tasks := replace_row tk_id x (tasks s), clock := c\<rparr>)"
proof -
  have d: "distinct (map tk_id (tasks s))" and ok: "\<forall>t \<in> set (tasks s). task_ok s t \<and> task_moments_ok t \<and> task_validate t = Inr ()"
    using frame by (auto simp: review_frame_def tasks_ok_def)
  have "replace_row tk_id x (tasks s) = map (\<lambda>t. if t = before then x else t) (tasks s)"
    using d before same by (auto simp: replace_row_def distinct_map inj_on_def)
  then have keys: "map (\<lambda>t. (tk_id t, tk_project_id t, tk_label t, tk_kind t)) (replace_row tk_id x (tasks s))
      = map (\<lambda>t. (tk_id t, tk_project_id t, tk_label t, tk_kind t)) (tasks s)"
    using same by simp
  have "tasks_ok (s\<lparr>tasks := replace_row tk_id x (tasks s), clock := c\<rparr>)"
    using d ok before same row by (auto simp: tasks_ok_def task_ok_def set_replace_row)
  then show ?thesis using frame keys
    by (simp add: review_frame_def task_keys_def timers_ok_def task_exists_def)
qed

lemma wp_save_and_publish:
  assumes frame: "review_frame base s" and before: "before \<in> set (tasks s)"
    and same: "tk_id after = tk_id before" "tk_project_id after = tk_project_id before"
      "tk_label after = tk_label before" "tk_kind after = tk_kind before"
    and row: "task_moments_ok after" "task_validate after = Inr ()"
    and post: "\<And>v t u. review_frame base t \<Longrightarrow> time_entries t = time_entries s \<Longrightarrow>
       tasks t = replace_row tk_id (after\<lparr>tk_updated_at := u\<rparr>) (tasks s) \<Longrightarrow>
       rv_review_state v = tk_review_state after \<Longrightarrow> Q v t"
  shows "wp (save_and_publish before after) Q s"
proof -
  have d: "distinct (map tk_id (tasks s))" using frame by (simp add: review_frame_def tasks_ok_def)
  have "wp (save_task before after) (\<lambda>x t. \<exists>u c. x = after\<lparr>tk_updated_at := u\<rparr> \<and>
      t = s\<lparr>tasks := replace_row tk_id x (tasks s), clock := c\<rparr>) s"
    by (rule wpI) (metis save_task_Inr [OF _ d before same(1)])
  then show ?thesis unfolding save_and_publish_def
  proof (rule wp_seq)
    fix x t assume "\<exists>u c. x = after\<lparr>tk_updated_at := u\<rparr> \<and> t = s\<lparr>tasks := replace_row tk_id x (tasks s), clock := c\<rparr>"
    then obtain u c where x: "x = after\<lparr>tk_updated_at := u\<rparr>" and t: "t = s\<lparr>tasks := replace_row tk_id x (tasks s), clock := c\<rparr>"
      by blast
    have "review_frame base t" unfolding t
      by (rule review_frame_save [OF frame before]) (simp_all add: x same row)
    then show "wp (tx_bind (tx_gets (review_active_of (tk_id x))) (\<lambda>active. let view = review_view_of x active
        in tx_bind (tx_publish (TaskReviewEvent (tk_id x) view)) (\<lambda>_. tx_ok view))) Q t"
      by (auto simp: wp_simps Let_def review_view_of_def x t intro!: post [of _ u])
  qed
qed

lemma wp_review_move:
  assumes frame: "review_frame base s" and before: "before \<in> set (tasks s)" and st: "st \<noteq> Draft"
    and post: "\<And>v t m u. review_frame base t \<Longrightarrow> time_entries t = time_entries s \<Longrightarrow>
       tasks t = replace_row tk_id ((mark_review_state m st before)\<lparr>tk_updated_at := u\<rparr>) (tasks s) \<Longrightarrow>
       rv_review_state v = st \<Longrightarrow> Q v t"
  shows "wp (review_move st before) Q s"
proof -
  have "task_moments_ok before" "task_validate before = Inr ()"
    using frame before by (auto simp: review_frame_def tasks_ok_def)
  then show ?thesis unfolding review_move_def
    using frame before st
    by (auto simp: wp_simps mark_review_state_moments intro!: wp_save_and_publish [where base = base] post)
qed

lemma frame_update_stopped:
  "te_stopped_at e \<noteq> None \<Longrightarrow> preserves (review_frame base) (update_entry e)"
  using timers_update_stopped [of e, THEN preservesD]
  by (intro preservesI) (auto simp: review_frame_def update_entry_def update_Inr tasks_ok_def task_ok_def task_keys_def)

lemma frame_stop_if_running: "preserves (review_frame base) (stop_if_running_in i)"
  unfolding stop_if_running_in_def Let_def
  by (intro preserves_tx_bind preserves_case_option preserves_tx_ok preserves_ctx_now review_frame_table
      frame_update_stopped reads_preserves reads_entry_view)
    (auto simp: running_entry_of_task_def intro!: reads_preserves reads_bind reads_base)

lemma frame_settle_acceptance:
  assumes "review_frame base s" "before \<in> set (tasks s)"
    and "accepted = mark_review_state m Done before \<or> accepted = accept_automatically m before"
  shows "wp (settle_acceptance before accepted) (\<lambda>_. review_frame base) s"
proof -
  have "task_moments_ok before" "task_validate before = Inr ()"
    using assms(1,2) by (auto simp: review_frame_def tasks_ok_def)
  then have "wp (save_and_publish before accepted) (\<lambda>_. review_frame base) s"
    using assms(3)
    by (intro wp_save_and_publish [OF assms(1,2)])
      (auto simp: mark_review_state_moments accept_automatically_moments)
  then show ?thesis unfolding settle_acceptance_def
    by (auto simp: wp_simps elim!: wp_mono
        intro!: wp_mono [OF wp_preserves [OF frame_stop_if_running [of base]]])
qed

lemma wp_guard_active [wp_simps]: "wp (guard_active i) Q s = (review_active_of i s \<longrightarrow> Q () s)"
  by (auto simp: guard_active_def wp_simps)

lemma frame_review_ops:
  "preserves (review_frame base) (session_running_in i b)" "preserves (review_frame base) (claimed_by_wrapup_in i)"
  "preserves (review_frame base) (accept_in i)" "preserves (review_frame base) (accept_quick_claim_in i)"
  "preserves (review_frame base) (review_send_back_in i)"
  unfolding session_running_in_def claimed_by_wrapup_in_def accept_in_def accept_quick_claim_in_def review_send_back_in_def
  by (auto intro!: preserves_wpI wp_review_move [where base = base] wp_seq [OF frame_settle_acceptance] frame_settle_acceptance
      simp: wp_simps wp_tx_ok dest!: find_task_Some split: option.splits)

subsection \<open>A session and the review line\<close>

text \<open>
  A session coming and going flips the review line between open and running and nothing else:
  it flips exactly when the task has no checklist and the line is at the other end; then only that
  row changes, otherwise no task does. In particular a session never claims or accepts.
\<close>

theorem session_running_flips:
  assumes run: "session_running i b s = (Inr flipped, t)" and ok: "tasks_ok s" "timers_ok s"
  shows "(flipped \<longleftrightarrow> (\<exists>r. find_task i s = Some r \<and> review_active_of i s \<and> tk_review_state r = (if b then Open else Running)))
    \<and> (flipped \<longrightarrow> map_option tk_review_state (find_task i t) = Some (if b then Running else Open))
    \<and> (\<forall>j. j \<noteq> i \<or> \<not> flipped \<longrightarrow> find_task j t = find_task j s)
    \<and> time_entries t = time_entries s"
proof -
  let ?b = "tx_begin s"
  have frame: "review_frame ?b ?b"
    using ok by (intro review_frame_refl) (simp_all add: tasks_ok_table [THEN table_invariantD(4)] timers_ok_table [THEN table_invariantD(4)])
  have same: "find_task j ?b = find_task j s" "review_active_of j ?b = review_active_of j s" "tasks ?b = tasks s"
      "time_entries ?b = time_entries s" for j
    by (simp_all add: tx_begin_def find_task_def review_active_of_def steps_of_def)
  let ?Q = "\<lambda>flipped t. (flipped \<longleftrightarrow> (\<exists>r. find_task i s = Some r \<and> review_active_of i s \<and> tk_review_state r = (if b then Open else Running)))
    \<and> (flipped \<longrightarrow> map_option tk_review_state (find_task i t) = Some (if b then Running else Open))
    \<and> (\<forall>j. j \<noteq> i \<or> \<not> flipped \<longrightarrow> find_task j t = find_task j s) \<and> time_entries t = time_entries s"
  have move: "wp (review_move st r) (\<lambda>_. wp (tx_ok True) ?Q) ?b"
    if r: "find_task i s = Some r" "review_active_of i s" "tk_review_state r = (if b then Open else Running)"
      "st = (if b then Running else Open)" for r st
  proof (rule wp_review_move [OF frame])
    show "r \<in> set (tasks ?b)" "st \<noteq> Draft" using r find_task_Some same(3) by auto
    fix v and t :: db and m u assume "time_entries t = time_entries ?b"
      and "tasks t = replace_row tk_id ((mark_review_state m st r)\<lparr>tk_updated_at := u\<rparr>) (tasks ?b)"
    then show "wp (tx_ok True) ?Q t"
      using r find_task_Some [OF r(1)] by (auto simp: wp_simps same find_task_def find_replace_row)
  qed
  have calc: "wp (session_running_in i b) ?Q ?b"
    unfolding session_running_in_def using move
    by (cases b) (auto simp: wp_simps same split: option.splits)
  obtain t' where body: "session_running_in i b ?b = Inr (flipped, t')" and t: "t = tx_commit t'"
    using run by (auto simp: session_running_def in_write_Inr)
  from wpD [OF calc body] show ?thesis unfolding t by (simp add: tx_commit_def find_task_def)
qed

definition review_db :: db where
  "review_db = timed_db\<lparr>task_steps := [draft_step]\<rparr>"

lemma review_db_ok: "tasks_ok review_db" "timers_ok review_db"
  by (simp_all add: tasks_ok_def task_moments_ok_def timers_ok_def review_db_def timed_db_def run_defs)

theorem session_running_flips_witness:
  "\<exists>t. session_running 2 True review_db = (Inr True, t) \<and> map_option tk_review_state (find_task 2 t) = Some Running"
proof -
  have "\<exists>t. session_running 2 True review_db = (Inr True, t)"
    by (simp add: review_db_def timed_db_def run_defs)
  then obtain t where run: "session_running 2 True review_db = (Inr True, t)" by blast
  show ?thesis using session_running_flips [OF run review_db_ok] run by auto
qed

subsection \<open>Acceptance\<close>

lemma save_and_publish_total:
  assumes "tasks_ok s" "before \<in> set (tasks s)" "tk_id after = tk_id before" "tk_project_id after = tk_project_id before"
    and "task_validate after = Inr ()"
  shows "\<exists>v t. save_and_publish before after s = Inr (v, t)"
proof -
  have "task_ok s before" using assms(1,2) by (simp add: tasks_ok_def)
  then have "\<exists>x t. save_task before after s = Inr (x, t)"
    using assms(2-5)
    by (auto simp: save_task_def update_if_changed_def tx_bind_def ctx_now_def tx_ok_def tx_lift_def Let_def
        update_task_def update_row_def task_ok_def)
  then show ?thesis
    by (auto simp: save_and_publish_def tx_bind_def tx_gets_def tx_publish_def tx_modify_def tx_ok_def Let_def)
qed

lemma stop_if_running_total:
  assumes "timers_ok s" and "\<And>t. t \<in> set (tasks s) \<Longrightarrow> find_project (tk_project_id t) s \<noteq> None"
  shows "\<exists>v t. stop_if_running_in i s = Inr (v, t)"
proof -
  obtain found where run: "running_entry_of_task i s = Inr (found, s)" using running_entry_total [OF assms(1)] by blast
  show ?thesis
  proof (cases found)
    case None
    then show ?thesis using run by (simp add: stop_if_running_in_def tx_bind_def tx_ok_def)
  next
    case (Some e)
    have e: "e \<in> set (time_entries s)" using running_entry_Inr(3) [OF run Some] by simp
    then have fk: "task_exists s (te_task_id e)" using assms(1) by (simp add: timers_ok_def)
    let ?w = "e\<lparr>te_stopped_at := Some (shd (clock s)), te_updated_at := shd (clock s)\<rparr>"
    let ?t = "s\<lparr>clock := stl (clock s), time_entries := replace_row te_id ?w (time_entries s)\<rparr>"
    have "find_project j ?t = find_project j s" for j by (simp add: find_project_def)
    then obtain view where "entry_view_load ?w ?t = Inr (view, ?t)"
      using entry_view_total [of ?t ?w] assms(2) fk by (auto simp: task_exists_def)
    moreover have "update_entry ?w (s\<lparr>clock := stl (clock s)\<rparr>) = Inr (?w, ?t)"
      using e fk by (auto simp: update_entry_def update_row_def entry_ok_def task_exists_def)
    ultimately show ?thesis using run Some
      by (simp add: stop_if_running_in_def tx_bind_def ctx_now_def tx_ok_def Let_def)
  qed
qed

lemma stop_if_running_post:
  assumes ok: "timers_ok s"
  shows "wp (stop_if_running_in i) (\<lambda>_ t. tasks t = tasks s \<and>
     (\<forall>e \<in> set (time_entries t). te_task_id e = i \<longrightarrow> te_stopped_at e \<noteq> None)) s" (is "wp _ ?Q s")
  unfolding stop_if_running_in_def Let_def wp_bind
proof (rule wp_running_entry)
  show "wp (case None of None \<Rightarrow> tx_ok None | Some e \<Rightarrow> f e) ?Q s"
    if "\<And>e. e \<in> set (time_entries s) \<Longrightarrow> te_task_id e = i \<Longrightarrow> te_stopped_at e \<noteq> None" for f
    using that by (auto simp: wp_simps)
next
  fix e assume e: "e \<in> set (time_entries s)" "te_task_id e = i" "te_stopped_at e = None"
  let ?w = "\<lambda>now. e\<lparr>te_stopped_at := Some now, te_updated_at := now\<rparr>"
  have saved: "wp (update_entry (?w now)) (\<lambda>_. ?Q v) (s\<lparr>clock := c\<rparr>)" for now c and v :: "time_entry_view option"
  proof (rule wpI)
    fix x t assume "update_entry (?w now) (s\<lparr>clock := c\<rparr>) = Inr (x, t)"
    then have "t = s\<lparr>clock := c, time_entries := replace_row te_id (?w now) (time_entries s)\<rparr>"
      by (simp add: update_entry_def update_Inr)
    moreover have "te_stopped_at a \<noteq> None" if "a \<in> set (time_entries s)" "te_id a \<noteq> te_id e" "te_task_id a = i" for a
      using ok e that unfolding timers_ok_def by metis
    ultimately show "?Q v t" by (auto simp: set_replace_row)
  qed
  show "wp (case Some e of None \<Rightarrow> tx_ok None | Some open_entry \<Rightarrow> tx_bind ctx_now (\<lambda>now.
      tx_bind (update_entry (open_entry\<lparr>te_stopped_at := Some now, te_updated_at := now\<rparr>)) (\<lambda>_.
      tx_bind (entry_view_load (open_entry\<lparr>te_stopped_at := Some now, te_updated_at := now\<rparr>)) (\<lambda>view. tx_ok (Some view))))) ?Q s"
    by (auto simp: wp_simps wp_tx_ok intro!: wp_mono [OF saved] wp_entry_view)
qed

lemma tasks_ok_begin: "tasks_ok s \<Longrightarrow> tasks_ok (tx_begin s)" "timers_ok s \<Longrightarrow> timers_ok (tx_begin s)"
  by (simp_all add: tasks_ok_table [THEN table_invariantD(4)] timers_ok_table [THEN table_invariantD(4)])

lemma begin_task_reads [simp]:
  "find_task j (tx_begin s) = find_task j s" "review_active_of j (tx_begin s) = review_active_of j s" "tasks (tx_begin s) = tasks s"
  "find_task j (tx_commit s) = find_task j s" "time_entries (tx_begin s) = time_entries s" "time_entries (tx_commit s) = time_entries s"
  by (simp_all add: tx_begin_def tx_commit_def find_task_def review_active_of_def steps_of_def)

lemma tasks_ok_project:
  assumes "tasks_ok s" "t \<in> set (tasks s)"
  shows "find_project (tk_project_id t) s \<noteq> None"
  using assms find_row_None [of pr_id "tk_project_id t" "projects s"]
  by (auto simp: tasks_ok_def task_ok_def find_project_def)

lemma accept_in_total:
  assumes ok: "tasks_ok s" "timers_ok s"
    and r: "find_task i s = Some r" "review_active_of i s" "tk_review_state r \<noteq> Done"
  shows "\<exists>view t. accept_in i s = Inr (view, t)"
proof -
  let ?m = "shd (clock s)" and ?s = "s\<lparr>clock := stl (clock s)\<rparr>"
  have row: "r \<in> set (tasks s)" "tk_id r = i" using find_task_Some [OF r(1)] by auto
  have ok': "tasks_ok ?s" "timers_ok ?s"
    using ok by (simp_all add: tasks_ok_table [THEN table_invariantD(2)])
  then have frame: "review_frame ?s ?s" by (rule review_frame_refl)
  have valid: "task_moments_ok r" "task_validate r = Inr ()" using ok row by (auto simp: tasks_ok_def)
  obtain view t where sp: "save_and_publish r (mark_review_state ?m Done r) ?s = Inr (view, t)"
    using save_and_publish_total [OF ok'(1)] row valid by fastforce
  have "wp (save_and_publish r (mark_review_state ?m Done r)) (\<lambda>_. review_frame ?s) ?s"
    using row valid by (intro wp_save_and_publish [OF frame]) (auto simp: mark_review_state_moments)
  from wpD [OF this sp] have t: "tasks_ok t" "timers_ok t" by (simp_all add: review_frame_def)
  obtain v u where "stop_if_running_in (tk_id r) t = Inr (v, u)"
    using stop_if_running_total [OF t(2) tasks_ok_project [OF t(1)]] by blast
  then have "\<exists>view t. settle_acceptance r (mark_review_state ?m Done r) ?s = Inr (view, t)"
    using sp r(3) by (simp add: settle_acceptance_def tx_bind_def tx_ok_def)
  then show ?thesis using r row
    by (simp add: accept_in_def tx_bind_def task_or_unknown_def tx_gets_def tx_ok_def guard_active_def ctx_now_def)
qed

lemma accept_in_effect:
  assumes ok: "tasks_ok s" "timers_ok s"
  shows "wp (accept_in i) (\<lambda>_ t.
      (\<exists>r. find_task i s = Some r \<and> review_active_of i s \<and> tk_review_state r \<noteq> Done
         \<and> (tk_review_state r = Claimed \<longrightarrow> (\<forall>e \<in> set (time_entries t). te_task_id e = i \<longrightarrow> te_stopped_at e \<noteq> None))
         \<and> (tk_review_state r \<noteq> Claimed \<longrightarrow> time_entries t = time_entries s))
      \<and> (\<exists>r. find_task i t = Some r \<and> tk_review_state r = Done \<and> tk_claimed_at r \<noteq> None \<and> tk_accepted_at r \<noteq> None)
      \<and> (\<forall>j. j \<noteq> i \<longrightarrow> find_task j t = find_task j s)) s" (is "wp _ ?Q s")
proof -
  have "wp (settle_acceptance r (mark_review_state m Done r)) ?Q (s\<lparr>clock := c\<rparr>)"
    if r: "find_task i s = Some r" "review_active_of i s" for r m c
  proof (cases "tk_review_state r = Done")
    case False
    let ?s = "s\<lparr>clock := c\<rparr>"
    have row: "r \<in> set (tasks ?s)" "tk_id r = i" using find_task_Some [OF r(1)] by auto
    have frame: "review_frame ?s ?s"
      using ok by (intro review_frame_refl) (simp_all add: tasks_ok_table [THEN table_invariantD(2)])
    then have valid: "task_moments_ok r" "task_validate r = Inr ()" using row by (auto simp: review_frame_def tasks_ok_def)
    have marked: "task_moments_ok (mark_review_state m Done r)" using valid by (simp add: mark_review_state_moments)
    then have done_row: "tk_claimed_at (mark_review_state m Done r) \<noteq> None" "tk_accepted_at (mark_review_state m Done r) \<noteq> None"
      by (simp_all add: task_moments_ok_def)
    let ?f = "\<lambda>v. if tk_review_state r = Claimed then tx_bind (stop_if_running_in (tk_id r)) (\<lambda>_. tx_ok v) else tx_ok v"
    have "wp (save_and_publish r (mark_review_state m Done r)) (\<lambda>v. wp (?f v) ?Q) ?s"
    proof (rule wp_save_and_publish [OF frame row(1)])
      fix v and t :: db and u
      assume t: "review_frame ?s t" "time_entries t = time_entries ?s"
        "tasks t = replace_row tk_id ((mark_review_state m Done r)\<lparr>tk_updated_at := u\<rparr>) (tasks ?s)"
      have after: "find_task j t' = (if j = i then Some ((mark_review_state m Done r)\<lparr>tk_updated_at := u\<rparr>) else find_task j s)"
        if "tasks t' = tasks t" for j and t' :: db
        using r(1) row(2) that t(3) by (auto simp: find_task_def find_replace_row)
      have "timers_ok t" using t(1) by (simp add: review_frame_def)
      then show "wp (?f v) ?Q t"
        using False r row(2) done_row t(2) after
        by (auto simp: wp_simps wp_tx_ok intro!: wp_mono [OF stop_if_running_post])
    qed (simp_all add: marked valid)
    then show ?thesis using False by (simp add: settle_acceptance_def wp_simps)
  qed (simp add: settle_acceptance_def wp_simps)
  then show ?thesis by (auto simp: accept_in_def wp_simps)
qed

text \<open>
  C27. Accepting a task's work succeeds exactly when the task exists, has no checklist and is not
  accepted yet.
\<close>

theorem accept_iff:
  assumes ok: "tasks_ok s" "timers_ok s"
  shows "(\<exists>view t. in_write (accept_in i) s = (Inr view, t)) \<longleftrightarrow>
      (\<exists>r. find_task i s = Some r \<and> review_active_of i s \<and> tk_review_state r \<noteq> Done)"
proof
  assume "\<exists>view t. in_write (accept_in i) s = (Inr view, t)"
  then obtain view t where "accept_in i (tx_begin s) = Inr (view, t)" by (auto simp: in_write_Inr)
  from wpD [OF accept_in_effect [OF tasks_ok_begin(1) [OF ok(1)] tasks_ok_begin(2) [OF ok(2)]] this]
  show "\<exists>r. find_task i s = Some r \<and> review_active_of i s \<and> tk_review_state r \<noteq> Done" by auto
next
  assume "\<exists>r. find_task i s = Some r \<and> review_active_of i s \<and> tk_review_state r \<noteq> Done"
  then have "\<exists>view t. accept_in i (tx_begin s) = Inr (view, t)"
    using accept_in_total [OF tasks_ok_begin(1) [OF ok(1)] tasks_ok_begin(2) [OF ok(2)]] by auto
  then show "\<exists>view t. in_write (accept_in i) s = (Inr view, t)" by (auto simp: in_write_Inr)
qed

theorem accept_iff_witness: "\<exists>view t. in_write (accept_in 2) review_db = (Inr view, t)"
proof -
  have "\<exists>r. find_task 2 review_db = Some r \<and> review_active_of 2 review_db \<and> tk_review_state r \<noteq> Done"
    by (simp add: review_db_def timed_db_def run_defs)
  then show ?thesis using accept_iff [OF review_db_ok] by blast
qed

text \<open>
  C28. What acceptance leaves behind: the line accepted with both moments set, every other task as it
  was, and the time entries untouched unless the work had been claimed, in which case none of the
  task's entries is left running.
\<close>

theorem accept_effect:
  assumes run: "in_write (accept_in i) s = (Inr view, t)" and ok: "tasks_ok s" "timers_ok s"
  shows "(\<exists>r. find_task i t = Some r \<and> tk_review_state r = Done \<and> tk_claimed_at r \<noteq> None \<and> tk_accepted_at r \<noteq> None)
      \<and> (\<forall>j. j \<noteq> i \<longrightarrow> find_task j t = find_task j s)
      \<and> (if map_option tk_review_state (find_task i s) = Some Claimed
         then \<forall>e \<in> set (time_entries t). te_task_id e = i \<longrightarrow> te_stopped_at e \<noteq> None
         else time_entries t = time_entries s)"
proof -
  obtain t' where body: "accept_in i (tx_begin s) = Inr (view, t')" and t: "t = tx_commit t'"
    using run by (auto simp: in_write_Inr)
  from wpD [OF accept_in_effect [OF tasks_ok_begin(1) [OF ok(1)] tasks_ok_begin(2) [OF ok(2)]] body]
  show ?thesis unfolding t by auto
qed

theorem accept_effect_witness:
  "\<exists>view t. in_write (accept_in 2) review_db = (Inr view, t) \<and> (\<exists>r. find_task 2 t = Some r \<and> tk_review_state r = Done)"
proof -
  obtain view t where run: "in_write (accept_in 2) review_db = (Inr view, t)"
    by (simp add: review_db_def timed_db_def run_defs)
  show ?thesis using accept_effect [OF run review_db_ok] run by blast
qed

end
