(* ===== verification/Task_Work.thy ===== *)
theory Task_Work
  imports Flow Review Graph_Search
begin

section \<open>What is left of a task, and what it waits for\<close>

text \<open>
  \<^verbatim>\<open>rekall-core/src/claude/service/task_work_service.rs\<close> reads how much of a task is left for a
  session, \<^verbatim>\<open>rekall-core/src/dependency\<close> what a task waits for and whether one more
  dependency would close a cycle.
\<close>

subsection \<open>Task work\<close>

datatype remaining = RemOpen | RemClaimed | RemAccepted

record task_work =
  tw_remaining :: remaining
  tw_settled_steps :: nat
  tw_running_step_ids :: "id list"
  tw_last_settled_at :: "instant option"
  tw_next_opens_session :: bool
  tw_flow_ended :: bool

definition has_work :: "task_work \<Rightarrow> bool" where
  "has_work w = (tw_remaining w = RemOpen)"

definition session_is_spent :: "task_work \<Rightarrow> instant \<Rightarrow> bool" where
  "session_is_spent w started_at =
     (has_work w \<and> tw_next_opens_session w \<and> tw_running_step_ids w = []
      \<and> (case tw_last_settled_at w of None \<Rightarrow> False | Some at \<Rightarrow> at > started_at))"

definition progress_in :: "id \<Rightarrow> step_progress list action" where
  "progress_in task_id =
     tx_bind (tx_gets (steps_of task_id)) (\<lambda>steps.
     tx_bind (tx_gets (visits_of_task task_id)) (\<lambda>visits.
     tx_bind (tx_gets (links_of_task task_id)) (\<lambda>links.
     tx_ok (progress_of steps visits links))))"

text \<open>A task without a checklist reads its review line.\<close>

definition work_of_review :: "task_step_state \<Rightarrow> task_work" where
  "work_of_review st =
     \<lparr>tw_remaining = (case st of Claimed \<Rightarrow> RemClaimed | Done \<Rightarrow> RemAccepted | _ \<Rightarrow> RemOpen),
      tw_settled_steps = 0, tw_running_step_ids = [], tw_last_settled_at = None,
      tw_next_opens_session = False, tw_flow_ended = False\<rparr>"

text \<open>\<open>first_index p xs\<close> is \<^verbatim>\<open>xs.iter().position(p)\<close>.\<close>

fun first_index :: "('a \<Rightarrow> bool) \<Rightarrow> 'a list \<Rightarrow> nat option" where
  "first_index p [] = None"
| "first_index p (x # xs) = (if p x then Some 0 else map_option Suc (first_index p xs))"

definition work_of_checklist :: "task_step list \<Rightarrow> step_visit list \<Rightarrow> step_link list \<Rightarrow> task_work" where
  "work_of_checklist checklist visits links =
     (let ended = carries_routes links checklist \<and> flow_has_ended checklist visits;
          counted = (if ended then steps_entered checklist visits else checklist);
          work_left = list_ex (\<lambda>step. ts_state step = Open \<or> running (ts_state step)) counted;
          all_done = list_all (\<lambda>step. ts_state step = Done) counted;
          open_visit = map_option sv_step_id (List.find visit_is_open visits);
          next_to_work = first_index (\<lambda>step. case open_visit of
              Some step_id \<Rightarrow> ts_id step = step_id | None \<Rightarrow> ts_state step = Open) checklist
      in \<lparr>tw_remaining = (if work_left then RemOpen else if all_done then RemAccepted else RemClaimed),
          tw_settled_steps = length (filter (\<lambda>step. complete (ts_state step)) checklist),
          tw_running_step_ids = map ts_id (filter (\<lambda>step. running (ts_state step)) checklist),
          tw_last_settled_at = latest (List.map_filter completed_at checklist),
          tw_next_opens_session = (case next_to_work of None \<Rightarrow> False
             | Some index \<Rightarrow> index > 0 \<and> ts_starts_session (checklist ! index)),
          tw_flow_ended = ended\<rparr>)"

definition work_read_in :: "id \<Rightarrow> task_work action" where
  "work_read_in task_id =
     tx_bind (task_or_unknown task_id) (\<lambda>t.
     tx_bind (tx_gets (steps_of task_id)) (\<lambda>steps.
     let checklist = filter (\<lambda>step. \<not> draft (ts_state step)) steps in
     if checklist = [] then tx_ok (work_of_review (tk_review_state t))
     else tx_bind (tx_gets (visits_of_task task_id)) (\<lambda>visits.
          tx_bind (tx_gets (links_of_task task_id)) (\<lambda>links.
          tx_ok (work_of_checklist checklist visits links)))))"

subsection \<open>What a task waits for\<close>

record task_wait =
  wt_task_id :: id
  wt_anchor :: str
  wt_title :: str
  wt_status :: task_status
  wt_remaining :: remaining

definition is_met :: "task_wait \<Rightarrow> bool" where
  "is_met w = (wt_status w = StatusDone \<or> wt_remaining w = RemAccepted)"

definition awaits_review :: "task_wait \<Rightarrow> bool" where
  "awaits_review w = (\<not> is_met w \<and> wt_remaining w = RemClaimed)"

definition AWAITING_REVIEW_TEXT :: str where
  "AWAITING_REVIEW_TEXT = lit ''claimed, waiting for your review''"

definition state_text :: "task_wait \<Rightarrow> str" where
  "state_text w = (if is_met w then lit ''accepted''
     else if awaits_review w then AWAITING_REVIEW_TEXT else lit ''not accepted'')"

definition wait_for_in :: "id \<Rightarrow> task_wait action" where
  "wait_for_in task_id =
     tx_bind (task_or_unknown task_id) (\<lambda>t.
     tx_bind (project_of t) (\<lambda>p.
     tx_bind (work_read_in task_id) (\<lambda>work.
     tx_ok \<lparr>wt_task_id = task_id, wt_anchor = task_anchor t (pr_label p), wt_title = tk_title t,
            wt_status = tk_status t, wt_remaining = tw_remaining work\<rparr>)))"

definition waits_of_task_in :: "id \<Rightarrow> task_wait list action" where
  "waits_of_task_in task_id =
     tx_bind (tx_gets (dependencies_of_task task_id)) (\<lambda>deps.
     tx_map (\<lambda>d. wait_for_in (td_depends_on_task_id d)) deps)"

subsection \<open>Closing a cycle\<close>

definition waits_for :: "(id \<times> id) list \<Rightarrow> id \<Rightarrow> id list" where
  "waits_for existing task_id = map snd (filter (\<lambda>p. fst p = task_id) existing)"

function cycle_search :: "(id \<times> id) list \<Rightarrow> id \<Rightarrow> id set \<Rightarrow> id list \<Rightarrow> bool" where
  "cycle_search existing task_id seen pending =
     (if pending = [] then False
      else let current = last pending; rest = butlast pending in
        if current = task_id then True
        else if current \<in> seen then cycle_search existing task_id seen rest
        else cycle_search existing task_id (insert current seen) (rest @ waits_for existing current))"
  by pat_completeness auto

text \<open>Either an id that waits for something is seen for the first time, or the stack shrinks.\<close>

termination
proof (relation "measures [\<lambda>(existing, task_id, seen, pending). card (fst ` set existing - seen),
                          \<lambda>(existing, task_id, seen, pending). length pending]", goal_cases)
  case (3 existing task_id seen pending current rest)
  show ?case
  proof (cases "current \<in> fst ` set existing")
    case True
    then have "card (fst ` set existing - insert current seen) < card (fst ` set existing - seen)"
      using 3 by (intro psubset_card_mono) auto
    then show ?thesis by simp
  next
    case False
    then have "waits_for existing current = []" by (force simp: waits_for_def filter_empty_conv)
    moreover have "fst ` set existing - insert current seen = fst ` set existing - seen" using False by blast
    ultimately show ?thesis using 3 by simp
  qed
qed simp_all

declare cycle_search.simps [simp del]

definition closes_a_cycle :: "(id \<times> id) list \<Rightarrow> id \<Rightarrow> id \<Rightarrow> bool" where
  "closes_a_cycle existing task_id depends_on =
     (if task_id = depends_on then True else cycle_search existing task_id {} [depends_on])"

interpretation wait_search: graph_search "waits_for existing" UNIV "\<lambda>_. True" "\<lambda>q. q" insert for existing
  by unfold_locales auto

lemma wait_search_edges: "wait_search.edges existing = set existing"
  by (force simp: wait_search.edges_def waits_for_def)

lemma cycle_search_iff:
  assumes "wait_search.searching existing start seen pending" and "task_id \<notin> seen"
  shows "cycle_search existing task_id seen pending \<longleftrightarrow> (start, task_id) \<in> (set existing)\<^sup>*"
  using assms
proof (induction existing task_id seen pending rule: cycle_search.induct)
  case (1 existing task_id seen pending)
  show ?case
  proof (cases "pending = []")
    case True
    then have "seen = (set existing)\<^sup>* `` {start}"
      using wait_search.searching_done [of existing start seen] 1(3) by (simp add: wait_search_edges)
    then show ?thesis using True 1(4) by (subst cycle_search.simps) auto
  next
    case False
    let ?at = "last pending" and ?rest = "butlast pending"
    have S: "wait_search.searching existing start seen (?rest @ [?at])" using 1(3) False by simp
    consider "?at = task_id" | "?at \<noteq> task_id" "?at \<in> seen" | "?at \<noteq> task_id" "?at \<notin> seen" by blast
    then show ?thesis
    proof cases
      case here: 1
      then show ?thesis using wait_search.searching_reached [OF S] False
        by (simp add: cycle_search.simps [of _ _ _ pending] wait_search_edges)
    next
      case 2
      then have "cycle_search existing task_id seen pending = cycle_search existing task_id seen ?rest"
        using False by (subst cycle_search.simps) (simp add: Let_def)
      then show ?thesis using 1(1) [OF False refl refl] 2 wait_search.searching_skip [OF S] 1(4) by simp
    next
      case 3
      then have "cycle_search existing task_id seen pending
          = cycle_search existing task_id (insert ?at seen) (?rest @ waits_for existing ?at)"
        using False by (subst cycle_search.simps) (simp add: Let_def)
      then show ?thesis using 1(2) [OF False refl refl] 3 wait_search.searching_take [OF S] 1(4) by simp
    qed
  qed
qed

lemma closes_a_cycle_path:
  "closes_a_cycle existing task_id depends_on \<longleftrightarrow> (depends_on, task_id) \<in> (set existing)\<^sup>*"
proof (cases "task_id = depends_on")
  case False
  have "wait_search.searching existing depends_on {} [depends_on]"
    by (rule wait_search.searching_init) simp_all
  from cycle_search_iff [OF this] show ?thesis using False by (simp add: closes_a_cycle_def)
qed (simp add: closes_a_cycle_def)

text \<open>
  C26. The rule against circular waiting, decided exactly and always in finitely many rounds: one more
  dependency closes a cycle if and only if what is to be waited for already waits, through any
  number of others, for the task itself; the dependencies with the new one are free of cycles
  exactly when they were before and the rule allows it.
\<close>

theorem closes_a_cycle_exact:
  "(closes_a_cycle existing task_id depends_on \<longleftrightarrow> (depends_on, task_id) \<in> (set existing)\<^sup>*)
   \<and> (acyclic (set ((task_id, depends_on) # existing)) \<longleftrightarrow>
        acyclic (set existing) \<and> \<not> closes_a_cycle existing task_id depends_on)"
  by (simp add: closes_a_cycle_path acyclic_insert)

text \<open>The definitions above, for running the model on concrete input.\<close>

lemmas task_work_run [run_defs] = has_work_def session_is_spent_def progress_in_def work_of_review_def work_of_checklist_def
  work_read_in_def is_met_def awaits_review_def AWAITING_REVIEW_TEXT_def state_text_def
  wait_for_in_def waits_of_task_in_def waits_for_def closes_a_cycle_def

end
