(* ===== verification/Run_Queue.thy ===== *)
theory Run_Queue
  imports Task_Work
begin

section \<open>The run queue\<close>

text \<open>
  \<^verbatim>\<open>rekall-core/src/queue/service/run_queue_service.rs\<close>: the list of tasks the worker goes
  through, one row of settings and state, and the items at dense positions. Every operation that
  changes something stamps the queue row and announces the whole queue. A move of an item reads the
  clock for its own moment.
\<close>

definition CEILING_MIN :: int where "CEILING_MIN = 1"
definition CEILING_MAX :: int where "CEILING_MAX = 100"
definition START_SLACK :: int where "START_SLACK = 60 * 1000000"
definition MODEL_ALIASES :: "str list" where
  "MODEL_ALIASES = [lit ''opus'', lit ''sonnet'', lit ''haiku'', lit ''fable'']"
definition EFFORT_LEVELS :: "str list" where
  "EFFORT_LEVELS = [lit ''low'', lit ''medium'', lit ''high'', lit ''xhigh'', lit ''max'']"

record snapshot =
  sn_state :: run_queue_state
  sn_start_at :: "instant option"
  sn_hold_until :: "instant option"
  sn_ceiling_percent :: "int option"
  sn_skip_permissions :: bool
  sn_model :: "str option"
  sn_effort :: "str option"
  sn_session_kind :: session_kind
  sn_parallel_sessions :: int

record blocked_item =
  bi_item_id :: id
  bi_reason :: str

datatype next_turn = ReadyTurn run_queue_item_view | BlockedTurn "blocked_item list" | EmptyTurn

subsection \<open>Helpers\<close>

text \<open>A blank choice or \<^verbatim>\<open>default\<close> is the account's own setting; anything else must be offered.\<close>

definition choice :: "unicode_case \<Rightarrow> str option \<Rightarrow> str list \<Rightarrow> string \<Rightarrow> str option result" where
  "choice u given allowed what = (case given of
       None \<Rightarrow> Inr None
     | Some v \<Rightarrow>
         if is_blank v \<or> equals_ignore_case u (strip v) (lit ''default'') then Inr None
         else let normalised = lowered u (strip v) in
           if normalised \<notin> set allowed then Inl (IllegalArgument (Msg ''is not a choice Claude Code accepts'' [v, lit what]))
           else Inr (Some normalised))"

definition the_queue :: "run_queue action" where
  "the_queue = tx_bind (tx_gets oldest_queue) (\<lambda>found. case found of
       Some q \<Rightarrow> tx_ok q
     | None \<Rightarrow> tx_bind ctx_now (\<lambda>now. tx_bind random_id (\<lambda>i. insert_queue (run_queue_new i now))))"

definition save_item :: "run_queue_item \<Rightarrow> unit action" where
  "save_item item = tx_bind (update_item item) (\<lambda>_. tx_ok ())"

definition require_item :: "id \<Rightarrow> run_queue_item action" where
  "require_item i = tx_bind (tx_gets (find_item i)) (\<lambda>found. case found of
       None \<Rightarrow> tx_fail (NotFound (Msg ''no queued task with id'' [])) | Some item \<Rightarrow> tx_ok item)"

definition task_title :: "id \<Rightarrow> db \<Rightarrow> str" where
  "task_title i s = (case find_task i s of None \<Rightarrow> [] | Some t \<Rightarrow> tk_title t)"

definition queue_renumber :: "run_queue_item list \<Rightarrow> unit action" where
  "queue_renumber items = tx_each (\<lambda>(at, item).
       if qi_position item \<noteq> as_i32 (int at) then save_item (item\<lparr>qi_position := as_i32 (int at)\<rparr>) else tx_ok ())
     (enumerate 0 items)"

definition queued_task_ids :: "run_queue_item list \<Rightarrow> id set" where
  "queued_task_ids items = qi_task_id ` set (filter (\<lambda>item. \<not> settled (qi_state item)) items)"

definition wait_view_of :: "task_wait \<Rightarrow> bool \<Rightarrow> run_queue_wait_view" where
  "wait_view_of w in_queue = \<lparr>wv_anchor = wt_anchor w, wv_title = wt_title w,
     wv_awaiting_review = awaits_review w, wv_in_queue = in_queue\<rparr>"

definition unmet_dependencies :: "run_queue_item \<Rightarrow> id set \<Rightarrow> run_queue_wait_view list action" where
  "unmet_dependencies item queued_tasks =
     (if qi_state item \<noteq> Queued then tx_ok []
      else tx_bind (waits_of_task_in (qi_task_id item)) (\<lambda>waits.
           tx_ok (map (\<lambda>w. wait_view_of w (wt_task_id w \<in> queued_tasks)) (filter (\<lambda>w. \<not> is_met w) waits))))"

definition item_view :: "run_queue_item \<Rightarrow> id set \<Rightarrow> run_queue_item_view action" where
  "item_view item queued_tasks =
     tx_bind (tx_gets (find_task (qi_task_id item))) (\<lambda>found. case found of
       None \<Rightarrow> tx_fail (UnknownAnchor (Msg ''no task with id'' []))
     | Some t \<Rightarrow> tx_bind (tx_gets (find_project (tk_project_id t))) (\<lambda>found. case found of
         None \<Rightarrow> tx_fail (Internal (Msg ''Integrity: a task has no project'' []))
       | Some p \<Rightarrow>
           tx_bind (progress_in (tk_id t)) (\<lambda>steps.
           tx_bind (unmet_dependencies item queued_tasks) (\<lambda>waiting_for.
           tx_ok (item_view_of item t p steps waiting_for)))))"

definition view_of_queue :: "run_queue \<Rightarrow> run_queue_view action" where
  "view_of_queue q =
     tx_bind (tx_gets items_in_order) (\<lambda>all.
     tx_bind (tx_map (\<lambda>item. item_view item (queued_task_ids all)) all) (\<lambda>items.
     tx_ok (queue_view_of q items)))"

definition join_comma :: "str list \<Rightarrow> str" where
  "join_comma names = (case names of [] \<Rightarrow> [] | n # rest \<Rightarrow> n @ concat (map (\<lambda>m. lit '', '' @ m) rest))"

definition waiting_reason :: "run_queue_wait_view list \<Rightarrow> str" where
  "waiting_reason waits =
     lit ''Waiting for '' @ join_comma (map (\<lambda>w. if wv_awaiting_review w
         then wv_anchor w @ lit '' ('' @ AWAITING_REVIEW_TEXT @ lit '')'' else wv_anchor w) waits) @ lit ''.''"

text \<open>Stamp, validate, save, announce.\<close>

definition queue_publish :: "run_queue \<Rightarrow> run_queue_view action" where
  "queue_publish q =
     tx_bind ctx_now (\<lambda>now.
     let stamped = q\<lparr>rq_updated_at := now\<rparr>
     in tx_bind (tx_lift (queue_validate stamped)) (\<lambda>_.
        tx_bind (update_queue stamped) (\<lambda>_.
        tx_bind (view_of_queue stamped) (\<lambda>view.
        tx_bind (tx_publish (RunQueueFrame view)) (\<lambda>_. tx_ok view)))))"

definition move_item :: "run_queue_item_state \<Rightarrow> str option \<Rightarrow> run_queue_item \<Rightarrow> unit action" where
  "move_item st reason item = tx_bind ctx_now (\<lambda>moment. save_item (item_move_to moment st reason item))"

definition enqueue :: "id \<Rightarrow> unit action" where
  "enqueue task_id =
     tx_bind (tx_gets (find_task task_id)) (\<lambda>found. case found of
       None \<Rightarrow> tx_fail (UnknownAnchor (Msg ''no task with id'' []))
     | Some t \<Rightarrow>
         tx_bind (tx_lift (require_workable ''is never queued to run'' t)) (\<lambda>_.
         tx_bind (tx_gets items_in_order) (\<lambda>current.
         if list_ex (\<lambda>item. qi_task_id item = task_id \<and> \<not> settled (qi_state item)) current
         then tx_fail (Conflict (Msg ''is already in the queue'' [tk_title t]))
         else tx_bind ctx_now (\<lambda>now. tx_bind random_id (\<lambda>i.
              tx_bind (insert_item (queue_item_new i task_id (as_i32 (int (length current))) now)) (\<lambda>_. tx_ok ()))))))"

subsection \<open>The console's operations\<close>

definition queue_view_in :: "run_queue_view action" where
  "queue_view_in = tx_bind the_queue view_of_queue"

definition update_settings_in ::
  "unicode_case \<Rightarrow> int option \<Rightarrow> bool \<Rightarrow> str option \<Rightarrow> str option \<Rightarrow> session_kind \<Rightarrow> int \<Rightarrow> run_queue_view action" where
  "update_settings_in u ceiling_percent skip_permissions model effort kind parallel_sessions =
     (if (case ceiling_percent of None \<Rightarrow> False | Some c \<Rightarrow> \<not> (CEILING_MIN \<le> c \<and> c \<le> CEILING_MAX))
      then tx_fail (IllegalArgument (Msg ''the ceiling is a usage percentage'' []))
      else tx_bind the_queue (\<lambda>q.
           tx_bind (tx_lift (choice u model MODEL_ALIASES ''model'')) (\<lambda>chosen_model.
           tx_bind (tx_lift (choice u effort EFFORT_LEVELS ''effort'')) (\<lambda>chosen_effort.
           queue_publish (q\<lparr>rq_ceiling_percent := ceiling_percent, rq_skip_permissions := skip_permissions,
             rq_model := chosen_model, rq_effort := chosen_effort, rq_session_kind := kind,
             rq_parallel_sessions := parallel_sessions\<rparr>)))))"

definition queue_add_in :: "id \<Rightarrow> run_queue_view action" where
  "queue_add_in task_id = tx_bind (enqueue task_id) (\<lambda>_. tx_bind the_queue queue_publish)"

definition add_and_arm_in :: "id \<Rightarrow> run_queue_view action" where
  "add_and_arm_in task_id =
     tx_bind (enqueue task_id) (\<lambda>_.
     tx_bind the_queue (\<lambda>q.
     queue_publish (if rq_state q = Idle then queue_move_to QRunning q else q)))"

definition delete_items :: "id set \<Rightarrow> unit action" where
  "delete_items ids = tx_modify (\<lambda>s. s\<lparr>run_queue_items := filter (\<lambda>item. qi_id item \<notin> ids) (run_queue_items s)\<rparr>)"

definition queue_remove_in :: "id \<Rightarrow> run_queue_view action" where
  "queue_remove_in item_id =
     tx_bind (require_item item_id) (\<lambda>item.
     if qi_state item = IRunning
     then tx_bind (tx_gets (task_title (qi_task_id item))) (\<lambda>title.
          tx_fail (Conflict (Msg ''is running'' [title])))
     else tx_bind (delete_items {qi_id item}) (\<lambda>_.
          tx_bind (tx_gets items_in_order) (\<lambda>left.
          tx_bind (queue_renumber left) (\<lambda>_.
          tx_bind the_queue queue_publish))))"

text \<open>The order after a waiting item was moved to \<open>index\<close> among the waiting ones.\<close>

definition reordered :: "run_queue_item list \<Rightarrow> run_queue_item \<Rightarrow> int \<Rightarrow> run_queue_item list" where
  "reordered all item index =
     (let waiting = filter (\<lambda>c. qi_state c = Queued \<and> qi_id c \<noteq> qi_id item) all;
          at = clamp_index index (length waiting)
      in filter (\<lambda>c. qi_state c \<noteq> Queued) all @ insert_at at item waiting)"

definition queue_move_in :: "id \<Rightarrow> int \<Rightarrow> run_queue_view action" where
  "queue_move_in item_id index =
     tx_bind (require_item item_id) (\<lambda>item.
     if qi_state item \<noteq> Queued then tx_fail (Conflict (Msg ''only a task still waiting its turn can be moved'' []))
     else tx_bind (tx_gets items_in_order) (\<lambda>all.
          tx_bind (queue_renumber (reordered all item index)) (\<lambda>_.
          tx_bind the_queue queue_publish)))"

definition clear_settled_in :: "run_queue_view action" where
  "clear_settled_in =
     tx_bind (tx_gets items_in_order) (\<lambda>all.
     let gone = map qi_id (filter (\<lambda>item. settled (qi_state item)) all)
     in tx_bind (if gone \<noteq> [] then delete_items (set gone) else tx_ok ()) (\<lambda>_.
        tx_bind (queue_renumber (filter (\<lambda>item. \<not> settled (qi_state item)) all)) (\<lambda>_.
        tx_bind the_queue queue_publish)))"

definition queue_start_in :: "instant option \<Rightarrow> run_queue_view action" where
  "queue_start_in start_at =
     tx_bind the_queue (\<lambda>q.
     if rq_state q = QRunning \<or> rq_state q = Holding
     then tx_fail (Conflict (Msg ''the queue is already running'' []))
     else tx_bind (tx_gets items_in_order) (\<lambda>items.
       if \<not> list_ex (\<lambda>item. qi_state item = Queued) items
       then tx_fail (Conflict (Msg ''nothing is waiting in the queue'' []))
       else tx_bind ctx_now (\<lambda>now.
         if (case start_at of None \<Rightarrow> False | Some at \<Rightarrow> at < now - START_SLACK)
         then tx_fail (IllegalArgument (Msg ''that start time has already passed'' []))
         else queue_publish (case start_at of
             Some at \<Rightarrow> if at > now then (queue_move_to Scheduled q)\<lparr>rq_start_at := Some at\<rparr> else queue_move_to QRunning q
           | None \<Rightarrow> queue_move_to QRunning q))))"

definition queue_stop_in :: "str \<Rightarrow> run_queue_view action" where
  "queue_stop_in reason =
     tx_bind the_queue (\<lambda>q.
     tx_bind (tx_gets items_in_order) (\<lambda>all.
     tx_bind (tx_each (move_item Queued (Some reason)) (filter (\<lambda>item. qi_state item = IRunning) all)) (\<lambda>_.
     queue_publish (queue_move_to Idle q))))"

subsection \<open>The runner's operations\<close>

definition snapshot_of :: "db \<Rightarrow> snapshot" where
  "snapshot_of s = (case oldest_queue s of
       None \<Rightarrow> \<lparr>sn_state = Idle, sn_start_at = None, sn_hold_until = None, sn_ceiling_percent = None,
         sn_skip_permissions = False, sn_model = None, sn_effort = None, sn_session_kind = Terminal,
         sn_parallel_sessions = PARALLEL_SESSIONS_MIN\<rparr>
     | Some q \<Rightarrow> \<lparr>sn_state = rq_state q, sn_start_at = rq_start_at q, sn_hold_until = rq_hold_until q,
         sn_ceiling_percent = rq_ceiling_percent q, sn_skip_permissions = rq_skip_permissions q,
         sn_model = rq_model q, sn_effort = rq_effort q, sn_session_kind = rq_session_kind q,
         sn_parallel_sessions = rq_parallel_sessions q\<rparr>)"

primrec first_ready :: "id set \<Rightarrow> id set \<Rightarrow> blocked_item list \<Rightarrow> run_queue_item list \<Rightarrow> next_turn action" where
  "first_ready parked queued_tasks blocked [] = tx_ok (if blocked = [] then EmptyTurn else BlockedTurn blocked)"
| "first_ready parked queued_tasks blocked (item # rest) =
     (if qi_id item \<in> parked
      then first_ready parked queued_tasks
        (blocked @ [\<lparr>bi_item_id = qi_id item, bi_reason = (case qi_detail item of
            None \<Rightarrow> lit ''It could not be started.'' | Some d \<Rightarrow> d)\<rparr>]) rest
      else tx_bind (item_view item queued_tasks) (\<lambda>view.
        if iv_waiting_for view = [] then tx_ok (ReadyTurn view)
        else first_ready parked queued_tasks
          (blocked @ [\<lparr>bi_item_id = qi_id item, bi_reason = waiting_reason (iv_waiting_for view)\<rparr>]) rest))"

definition next_turn_in :: "id set \<Rightarrow> next_turn action" where
  "next_turn_in parked =
     tx_bind (tx_gets items_in_order) (\<lambda>items.
     first_ready parked (queued_task_ids items) [] (filter (\<lambda>item. qi_state item = Queued) items))"

definition next_turn_of :: "id set \<Rightarrow> db \<Rightarrow> next_turn result" where
  "next_turn_of parked = in_read (next_turn_in parked)"

definition stop_blocked_in :: "blocked_item list \<Rightarrow> unit action" where
  "stop_blocked_in blocked =
     tx_bind (tx_each (\<lambda>entry. tx_bind (tx_gets (find_item (bi_item_id entry))) (\<lambda>found. case found of
         None \<Rightarrow> tx_ok () | Some item \<Rightarrow> move_item Queued (Some (bi_reason entry)) item)) blocked) (\<lambda>_.
     tx_bind the_queue (\<lambda>q.
     tx_bind (queue_publish (queue_move_to Idle q)) (\<lambda>_. tx_ok ())))"

definition refresh_for_task_in :: "id \<Rightarrow> unit action" where
  "refresh_for_task_in task_id =
     tx_bind (tx_gets items_in_order) (\<lambda>items.
     if list_all (\<lambda>item. qi_task_id item \<noteq> task_id) items then tx_ok ()
     else tx_bind the_queue (\<lambda>q. tx_bind (queue_publish q) (\<lambda>_. tx_ok ())))"

definition queue_resume_in :: "unit action" where
  "queue_resume_in = tx_bind the_queue (\<lambda>q.
     if rq_state q = Scheduled \<or> rq_state q = Holding
     then tx_bind (queue_publish (queue_move_to QRunning q)) (\<lambda>_. tx_ok ()) else tx_ok ())"

definition queue_hold_in :: "instant option \<Rightarrow> str option \<Rightarrow> unit action" where
  "queue_hold_in until reason = tx_bind the_queue (\<lambda>q.
     if \<not> armed (rq_state q) then tx_ok ()
     else tx_bind (queue_publish ((queue_move_to Holding q)\<lparr>rq_hold_until := until, rq_hold_reason := reason\<rparr>))
            (\<lambda>_. tx_ok ()))"

definition queue_finish_in :: "unit action" where
  "queue_finish_in =
     tx_bind the_queue (\<lambda>q.
     tx_bind (tx_gets items_in_order) (\<lambda>items.
     if armed (rq_state q) \<and> \<not> list_ex (\<lambda>item. qi_state item = Queued) items
     then tx_bind (queue_publish (queue_move_to Idle q)) (\<lambda>_. tx_ok ()) else tx_ok ()))"

definition mark_item_in :: "id \<Rightarrow> run_queue_item_state \<Rightarrow> str option \<Rightarrow> unit action" where
  "mark_item_in item_id st reason =
     tx_bind (tx_gets (find_item item_id)) (\<lambda>found. case found of
       None \<Rightarrow> tx_ok ()
     | Some item \<Rightarrow> tx_bind (move_item st reason item) (\<lambda>_.
         tx_bind the_queue (\<lambda>q. tx_bind (queue_publish q) (\<lambda>_. tx_ok ()))))"

definition recover_after_restart_in :: "unit action" where
  "recover_after_restart_in =
     tx_bind (tx_gets items_in_order) (\<lambda>all.
     let orphaned = filter (\<lambda>item. qi_state item = IRunning) all
     in tx_bind (tx_each (move_item Queued (Some (lit ''Rekall restarted while this ran; it picks up at the next open step.''))) orphaned)
       (\<lambda>_. if orphaned \<noteq> [] then tx_bind the_queue (\<lambda>q. tx_bind (queue_publish q) (\<lambda>_. tx_ok ())) else tx_ok ()))"

subsection \<open>The operations as transactions\<close>

definition queue_view where "queue_view = in_write queue_view_in"
definition update_settings where
  "update_settings u ceiling skip model effort kind sessions = in_write (update_settings_in u ceiling skip model effort kind sessions)"
definition queue_add where "queue_add task_id = in_write (queue_add_in task_id)"
definition add_and_arm where "add_and_arm task_id = in_write (add_and_arm_in task_id)"
definition queue_remove where "queue_remove item_id = in_write (queue_remove_in item_id)"
definition queue_move where "queue_move item_id index = in_write (queue_move_in item_id index)"
definition clear_settled where "clear_settled = in_write clear_settled_in"
definition queue_start where "queue_start start_at = in_write (queue_start_in start_at)"
definition queue_stop where "queue_stop reason = in_write (queue_stop_in reason)"
definition stop_blocked where "stop_blocked blocked = in_write (stop_blocked_in blocked)"
definition refresh_for_task where "refresh_for_task task_id = in_write (refresh_for_task_in task_id)"
definition queue_resume where "queue_resume = in_write queue_resume_in"
definition queue_hold where "queue_hold until reason = in_write (queue_hold_in until reason)"
definition queue_finish where "queue_finish = in_write queue_finish_in"
definition mark_item where "mark_item item_id st reason = in_write (mark_item_in item_id st reason)"
definition recover_after_restart where "recover_after_restart = in_write recover_after_restart_in"

text \<open>The definitions above, for running the model on concrete input.\<close>

lemmas run_queue_run [run_defs] = CEILING_MIN_def CEILING_MAX_def START_SLACK_def MODEL_ALIASES_def EFFORT_LEVELS_def choice_def
  the_queue_def save_item_def require_item_def task_title_def queue_renumber_def
  queued_task_ids_def wait_view_of_def unmet_dependencies_def item_view_def view_of_queue_def
  join_comma_def waiting_reason_def queue_publish_def move_item_def enqueue_def
  queue_view_in_def update_settings_in_def queue_add_in_def add_and_arm_in_def delete_items_def
  queue_remove_in_def reordered_def queue_move_in_def clear_settled_in_def queue_start_in_def
  queue_stop_in_def snapshot_of_def next_turn_in_def next_turn_of_def stop_blocked_in_def
  refresh_for_task_in_def queue_resume_in_def queue_hold_in_def queue_finish_in_def
  mark_item_in_def recover_after_restart_in_def queue_view_def update_settings_def queue_add_def
  add_and_arm_def queue_remove_def queue_move_def clear_settled_def queue_start_def
  queue_stop_def stop_blocked_def refresh_for_task_def queue_resume_def queue_hold_def
  queue_finish_def mark_item_def recover_after_restart_def

end
