(* ===== verification/Queue_Facts.thy ===== *)
theory Queue_Facts
  imports Run_Queue
begin

section \<open>Facts about the run queue\<close>

text \<open>
  The invariant of the queue: one row at most, whose schedule and hold belong to its state; items
  with distinct ids on existing tasks, each with the moments of its state and a reason that fits
  its column, at positions dense from zero as long as the list fits a 32-bit index. Every operation
  of the service keeps it and writes no other table.
\<close>

definition row_ok :: "run_queue \<Rightarrow> bool" where
  "row_ok q \<longleftrightarrow> (rq_start_at q \<noteq> None \<longleftrightarrow> rq_state q = Scheduled)
     \<and> (rq_state q \<noteq> Holding \<longrightarrow> rq_hold_until q = None \<and> rq_hold_reason q = None)
     \<and> (\<forall>c. rq_ceiling_percent q = Some c \<longrightarrow> CEILING_MIN \<le> c \<and> c \<le> CEILING_MAX)"

definition item_moments_ok :: "run_queue_item \<Rightarrow> bool" where
  "item_moments_ok item \<longleftrightarrow> (settled (qi_state item) \<longleftrightarrow> qi_finished_at item \<noteq> None)
     \<and> (qi_state item = IRunning \<longrightarrow> qi_started_at item \<noteq> None)
     \<and> (\<forall>d. qi_detail item = Some d \<longrightarrow> jlen d \<le> DETAIL_MAX)"

definition items_ok :: "db \<Rightarrow> bool" where
  "items_ok s \<longleftrightarrow> distinct (map qi_id (run_queue_items s))
     \<and> (\<forall>item \<in> set (run_queue_items s). task_exists s (qi_task_id item) \<and> item_moments_ok item)"

definition queue_dense :: "db \<Rightarrow> bool" where
  "queue_dense s \<longleftrightarrow> (length (run_queue_items s) \<le> 2 ^ 31 \<longrightarrow>
     mset (map qi_position (run_queue_items s)) = mset (map int [0..<length (run_queue_items s)]))"

definition queue_wf :: "db \<Rightarrow> bool" where
  "queue_wf s \<longleftrightarrow> length (run_queues s) \<le> 1
     \<and> (\<forall>q \<in> set (run_queues s). row_ok q \<and> queue_validate q = Inr ()) \<and> items_ok s \<and> queue_dense s"

definition same_tables :: "db \<Rightarrow> db \<Rightarrow> bool" where
  "same_tables base s \<longleftrightarrow> projects s = projects base \<and> tasks s = tasks base \<and> task_steps s = task_steps base
     \<and> step_links s = step_links base \<and> step_visits s = step_visits base \<and> time_entries s = time_entries base
     \<and> task_dependencies s = task_dependencies base \<and> wrapups s = wrapups base \<and> wrapup_versions s = wrapup_versions base
     \<and> documents s = documents base \<and> document_tasks s = document_tasks base"

definition queue_frame :: "db \<Rightarrow> db \<Rightarrow> bool" where
  "queue_frame base s \<longleftrightarrow> queue_wf s \<and> same_tables base s"

lemma queue_wf_table: "table_invariant queue_wf"
  by (simp add: table_invariant_def queue_wf_def items_ok_def queue_dense_def task_exists_def)

lemma queue_frame_table: "table_invariant (queue_frame base)"
  using queue_wf_table by (simp add: table_invariant_def queue_frame_def same_tables_def)

lemmas queue_wf_simps [simp] = queue_wf_table [THEN table_invariantD(1)]
  queue_wf_table [THEN table_invariantD(2)] queue_wf_table [THEN table_invariantD(3)]

lemmas queue_frame_simps [simp] = queue_frame_table [THEN table_invariantD(1)]
  queue_frame_table [THEN table_invariantD(2)] queue_frame_table [THEN table_invariantD(3)]

lemma queue_frame_refl: "queue_wf s \<Longrightarrow> queue_frame s s"
  by (simp add: queue_frame_def same_tables_def)

lemma frame_queue_wf: "(\<And>base. preserves (queue_frame base) m) \<Longrightarrow> preserves queue_wf m"
  unfolding preserves_def queue_frame_def using queue_frame_refl [unfolded queue_frame_def] by blast

subsection \<open>Reads\<close>

lemma reads_option: "reads m \<Longrightarrow> (\<And>x. reads (f x)) \<Longrightarrow> reads (case y of None \<Rightarrow> m | Some x \<Rightarrow> f x)"
  by (cases y) auto

lemma reads_if: "reads m \<Longrightarrow> reads m' \<Longrightarrow> reads (if b then m else m')"
  by simp

lemmas reads_rules = reads_base reads_bind reads_tx_map reads_option reads_if

lemma reads_work: "reads (task_or_unknown i)" "reads (project_of t)" "reads (progress_in i)" "reads (work_read_in i)"
  unfolding task_or_unknown_def project_of_def progress_in_def work_read_in_def Let_def by (intro reads_rules)+

lemma reads_waits: "reads (waits_of_task_in i)"
  unfolding waits_of_task_in_def wait_for_in_def by (intro reads_rules reads_work)

lemma reads_item_view: "reads (item_view item queued)"
  unfolding item_view_def unmet_dependencies_def by (intro reads_rules reads_work reads_waits)

lemma reads_queue_view: "reads (view_of_queue q)"
  unfolding view_of_queue_def by (intro reads_rules reads_item_view)

subsection \<open>The queue row\<close>

lemma oldest_queue_Some: "oldest_queue s = Some q \<Longrightarrow> q \<in> set (run_queues s)"
  by (auto simp: oldest_queue_def split: list.splits) (metis list.set_intros(1) set_sort)

lemma oldest_queue_None: "oldest_queue s = None \<longleftrightarrow> run_queues s = []"
proof -
  have "sort_key rq_created_at (run_queues s) = [] \<longleftrightarrow> run_queues s = []" by (metis length_0_conv length_sort)
  then show ?thesis by (auto simp: oldest_queue_def split: list.splits)
qed

lemma row_ok_new: "row_ok (run_queue_new i now)" "queue_validate (run_queue_new i now) = Inr ()"
  by (simp_all add: row_ok_def run_queue_new_def queue_validate_def violations_finish_Inr
      PARALLEL_SESSIONS_MIN_def PARALLEL_SESSIONS_MAX_def)

lemma queue_wf_row:
  assumes "queue_wf s" and "run_queues s = [] \<or> (\<exists>b \<in> set (run_queues s). rq_id b = rq_id q)"
    and "row_ok q" "queue_validate q = Inr ()"
  shows "queue_wf (s\<lparr>run_queues := [q]\<rparr>)"
  using assms by (auto simp: queue_wf_def items_ok_def queue_dense_def task_exists_def)

lemma wp_the_queue:
  assumes frame: "queue_frame base s"
    and post: "\<And>q t. \<lbrakk>queue_frame base t; run_queues t = [q]; row_ok q; run_queue_items t = run_queue_items s;
      q \<in> set (run_queues s) \<or> rq_state q = Idle\<rbrakk> \<Longrightarrow> Q q t"
  shows "wp the_queue Q s"
proof (cases "oldest_queue s")
  case None
  then have empty: "run_queues s = []" by (simp add: oldest_queue_None)
  have "queue_frame base (run_queues_update (\<lambda>qs. qs @ [run_queue_new i now]) (s\<lparr>clock := c, entropy := e\<rparr>))" for c e i now
    using frame empty
    by (auto simp: queue_frame_def queue_wf_def row_ok_new items_ok_def queue_dense_def task_exists_def same_tables_def)
  then show ?thesis using empty
    by (auto simp: the_queue_def wp_simps None insert_queue_def insert_Inr row_ok_new intro!: wpI post)
      (simp add: run_queue_new_def)
next
  case (Some q)
  have "queue_wf s" using frame by (simp add: queue_frame_def)
  then have "run_queues s = [q]"
    using oldest_queue_Some [OF Some] by (cases "run_queues s") (auto simp: queue_wf_def)
  then show ?thesis using Some frame \<open>queue_wf s\<close>
    by (auto simp: the_queue_def wp_simps queue_wf_def intro!: post)
qed

lemma wp_queue_publish:
  assumes frame: "queue_frame base s" and one: "map rq_id (run_queues s) = [rq_id q]" and row: "row_ok q"
    and post: "\<And>v t u. \<lbrakk>queue_frame base t; run_queues t = [q\<lparr>rq_updated_at := u\<rparr>]; run_queue_items t = run_queue_items s\<rbrakk> \<Longrightarrow> Q v t"
  shows "wp (queue_publish q) Q s"
proof -
  obtain b where q: "run_queues s = [b]" "rq_id q = rq_id b" "row_ok q" using one row by auto
  have ok: "queue_frame base (s\<lparr>clock := c, run_queues := [q\<lparr>rq_updated_at := u\<rparr>], events := ev\<rparr>)"
    if "queue_validate q = Inr ()" for c u ev
  proof -
    have "queue_wf (s\<lparr>run_queues := [q\<lparr>rq_updated_at := u\<rparr>]\<rparr>)"
      using frame q that by (intro queue_wf_row) (auto simp: queue_frame_def row_ok_def queue_validate_def)
    then have "queue_frame base ((s\<lparr>run_queues := [q\<lparr>rq_updated_at := u\<rparr>]\<rparr>)\<lparr>clock := c, events := ev\<rparr>)"
      using frame by (simp add: queue_frame_def same_tables_def)
    moreover have "(s\<lparr>run_queues := [q\<lparr>rq_updated_at := u\<rparr>]\<rparr>)\<lparr>clock := c, events := ev\<rparr>
        = s\<lparr>clock := c, run_queues := [q\<lparr>rq_updated_at := u\<rparr>], events := ev\<rparr>" by simp
    ultimately show ?thesis by simp
  qed
  have valid: "queue_validate (q\<lparr>rq_updated_at := u\<rparr>) = queue_validate q" for u by (simp add: queue_validate_def)
  have saved: "wp (update_queue (q\<lparr>rq_updated_at := u\<rparr>)) (\<lambda>_ t. t = s\<lparr>clock := c, run_queues := [q\<lparr>rq_updated_at := u\<rparr>]\<rparr>)
      (s\<lparr>clock := c\<rparr>)" for u c
    using q by (intro wpI) (auto simp: update_queue_def update_Inr replace_row_def)
  have announced: "wp (tx_bind (view_of_queue (q\<lparr>rq_updated_at := u\<rparr>)) (\<lambda>view. tx_bind (tx_publish (RunQueueFrame view)) (\<lambda>_. tx_ok view))) Q
      (s\<lparr>clock := c, run_queues := [q\<lparr>rq_updated_at := u\<rparr>]\<rparr>)" if "queue_validate q = Inr ()" for u c
    unfolding wp_bind using ok [OF that]
    by (intro wp_reads [OF reads_queue_view]) (auto simp: wp_simps intro!: post)
  show ?thesis
    unfolding queue_publish_def Let_def
    by (auto simp: wp_ctx wp_simps_base wp_bind [of ctx_now] wp_bind [of "tx_lift _"] valid intro!: wp_seq [OF saved] announced)
qed

subsection \<open>Saving items\<close>

definition item_keys :: "db \<Rightarrow> (id \<times> id \<times> int) list" where
  "item_keys s = map (\<lambda>item. (qi_id item, qi_task_id item, qi_position item)) (run_queue_items s)"

lemma item_keys_in: "item \<in> set (run_queue_items s) \<Longrightarrow> (qi_id item, qi_task_id item, qi_position item) \<in> set (item_keys s)"
  by (auto simp: item_keys_def)

lemma item_keys_frame [simp]:
  "item_keys (s\<lparr>clock := c\<rparr>) = item_keys s" "item_keys (s\<lparr>events := ev\<rparr>) = item_keys s"
  by (simp_all add: item_keys_def)

lemma replace_item_keys:
  assumes "distinct (map qi_id items)" "b \<in> set items"
    and "qi_id x = qi_id b" "qi_task_id x = qi_task_id b" "qi_position x = qi_position b"
  shows "map (\<lambda>item. (qi_id item, qi_task_id item, qi_position item)) (replace_row qi_id x items)
    = map (\<lambda>item. (qi_id item, qi_task_id item, qi_position item)) items"
  using assms by (auto simp: replace_row_def distinct_map inj_on_def)

lemma dense_keys:
  assumes "map (\<lambda>item. (qi_id item, qi_task_id item, qi_position item)) items
    = map (\<lambda>item. (qi_id item, qi_task_id item, qi_position item)) (run_queue_items s)"
  shows "queue_dense (s\<lparr>run_queue_items := items\<rparr>) = queue_dense s"
proof -
  have "map qi_position items = map qi_position (run_queue_items s)"
    using arg_cong [OF assms, of "map (\<lambda>k. snd (snd k))"] by (simp add: comp_def)
  moreover have "length items = length (run_queue_items s)" using arg_cong [OF assms, of length] by simp
  ultimately show ?thesis by (simp add: queue_dense_def)
qed

lemma wp_save_item:
  assumes frame: "queue_frame base s" and key: "(qi_id x, qi_task_id x, qi_position x) \<in> set (item_keys s)"
    and ok: "item_moments_ok x"
    and post: "\<And>t. \<lbrakk>queue_frame base t; item_keys t = item_keys s; run_queues t = run_queues s;
      run_queue_items t = replace_row qi_id x (run_queue_items s)\<rbrakk> \<Longrightarrow> Q () t"
  shows "wp (save_item x) Q s"
proof -
  obtain b where b: "b \<in> set (run_queue_items s)" "qi_id x = qi_id b" "qi_task_id x = qi_task_id b" "qi_position x = qi_position b"
    using key by (auto simp: item_keys_def)
  have wf: "queue_wf s" "items_ok s" "queue_dense s" using frame by (simp_all add: queue_frame_def queue_wf_def)
  let ?t = "s\<lparr>run_queue_items := replace_row qi_id x (run_queue_items s)\<rparr>"
  have keys: "map (\<lambda>item. (qi_id item, qi_task_id item, qi_position item)) (replace_row qi_id x (run_queue_items s))
      = map (\<lambda>item. (qi_id item, qi_task_id item, qi_position item)) (run_queue_items s)"
    using wf(2) b by (intro replace_item_keys) (auto simp: items_ok_def)
  have "items_ok ?t" using wf(2) b ok by (auto simp: items_ok_def set_replace_row task_exists_def)
  then have "queue_frame base ?t"
    using frame wf dense_keys [OF keys] by (simp add: queue_frame_def same_tables_def queue_wf_def)
  moreover have "item_keys ?t = item_keys s" using keys by (simp add: item_keys_def)
  ultimately have Q: "Q () ?t" by (intro post) simp_all
  show ?thesis unfolding save_item_def wp_bind
  proof (rule wpI)
    fix y t assume "update_item x s = Inr (y, t)"
    then have "t = ?t" by (simp add: update_item_def update_Inr)
    then show "wp (tx_ok ()) Q t" using Q by (simp only: wp_simps_base)
  qed
qed

lemma item_moments_move: "item_moments_ok (item_move_to now st reason item)"
  by (cases reason) (auto simp: item_moments_ok_def item_move_to_def Let_def settled_def truncate_detail_len)

lemma wp_move_item:
  assumes "queue_frame base s" "(qi_id x, qi_task_id x, qi_position x) \<in> set (item_keys s)"
    and post: "\<And>t m. \<lbrakk>queue_frame base t; item_keys t = item_keys s; run_queues t = run_queues s;
      run_queue_items t = replace_row qi_id (item_move_to m st reason x) (run_queue_items s)\<rbrakk> \<Longrightarrow> Q () t"
  shows "wp (move_item st reason x) Q s"
  unfolding move_item_def using assms(1,2)
  by (auto simp: wp_simps item_moments_move intro!: wp_save_item [where base = base] post)

lemma wp_move_items:
  assumes "queue_frame base s" "set xs \<subseteq> set (run_queue_items s)"
    and "\<And>t. \<lbrakk>queue_frame base t; item_keys t = item_keys s; run_queues t = run_queues s\<rbrakk> \<Longrightarrow> Q () t"
  shows "wp (tx_each (move_item st reason) xs) Q s"
proof (rule wp_tx_each [where J = "\<lambda>xs t. queue_frame base t \<and> item_keys t = item_keys s \<and> run_queues t = run_queues s
    \<and> (\<forall>x \<in> set xs. (qi_id x, qi_task_id x, qi_position x) \<in> set (item_keys s))"])
  show "queue_frame base s \<and> item_keys s = item_keys s \<and> run_queues s = run_queues s
    \<and> (\<forall>x \<in> set xs. (qi_id x, qi_task_id x, qi_position x) \<in> set (item_keys s))"
    using assms(1,2) item_keys_in by blast
qed (use assms(3) in \<open>auto intro!: wp_move_item [where base = base]\<close>)

subsection \<open>Renumbering\<close>

definition item_at :: "int \<Rightarrow> run_queue_item \<Rightarrow> run_queue_item set" where
  "item_at n item = {item\<lparr>qi_position := n\<rparr>}"

fun placed_items :: "nat \<Rightarrow> run_queue_item list \<Rightarrow> run_queue_item list" where
  "placed_items n [] = []"
| "placed_items n (item # rest) = item\<lparr>qi_position := as_i32 (int n)\<rparr> # placed_items (Suc n) rest"

lemma placed_items_keys [simp]: "map qi_id (placed_items n items) = map qi_id items"
  by (induction items arbitrary: n) simp_all

lemma placed_items_places:
  "list_all2 (\<lambda>(at, r) r'. r' \<in> item_at (as_i32 (int at)) r) (enumerate n items) (placed_items n items)"
  by (induction items arbitrary: n) (simp_all add: item_at_def)

lemma run_queue_items_after: "run_queue_items (s\<lparr>run_queue_items := items\<rparr>) = items"
  by simp

lemma queue_renumber_run:
  assumes "tx_each (\<lambda>(at, item). if qi_position item \<noteq> as_i32 (int at)
        then save_item (item\<lparr>qi_position := as_i32 (int at)\<rparr>) else tx_ok ()) (enumerate n items) s = Inr (x, t)"
    and "distinct (map qi_id (run_queue_items s))" "distinct (map qi_id items)" "set items \<subseteq> set (run_queue_items s)"
  shows "t = s\<lparr>run_queue_items := overlay qi_id (placed_items n items) (run_queue_items s)\<rparr>"
  using assms
proof (induction items arbitrary: n s)
  case (Cons item items)
  let ?f = "\<lambda>(at, item). if qi_position item \<noteq> as_i32 (int at)
      then save_item (item\<lparr>qi_position := as_i32 (int at)\<rparr>) else tx_ok ()"
  let ?x = "item\<lparr>qi_position := as_i32 (int n)\<rparr>"
  let ?s = "s\<lparr>run_queue_items := replace_row qi_id ?x (run_queue_items s)\<rparr>"
  obtain y where first: "?f (n, item) s = Inr ((), y)" and rest: "tx_each ?f (enumerate (Suc n) items) y = Inr (x, t)"
    using Cons.prems(1) by (auto simp: tx_bind_Inr)
  have "y = ?s"
  proof (cases "qi_position item = as_i32 (int n)")
    case True
    then have x: "?x = item" by simp
    have "replace_row qi_id ?x (run_queue_items s) = run_queue_items s"
      unfolding x using Cons.prems(2,4) by (simp add: replace_row_id)
    then show ?thesis using first True by simp
  next
    case False
    then show ?thesis using first by (auto simp: save_item_def tx_bind_Inr update_item_def update_Inr)
  qed
  moreover have "set items \<subseteq> set (run_queue_items ?s)"
  proof
    fix y assume "y \<in> set items"
    then have "y \<in> set (run_queue_items s)" "qi_id y \<noteq> qi_id ?x"
      using Cons.prems(3,4) by (auto simp: image_iff)
    then show "y \<in> set (run_queue_items ?s)" unfolding run_queue_items_after set_replace_row by blast
  qed
  ultimately have "t = ?s\<lparr>run_queue_items := overlay qi_id (placed_items (Suc n) items) (run_queue_items ?s)\<rparr>"
    using Cons.IH [OF rest] Cons.prems(2,3) by simp
  moreover have "qi_id ?x \<notin> qi_id ` set (placed_items (Suc n) items)"
    using Cons.prems(3) by (metis (no_types, lifting) distinct.simps(2) list.set_map list.simps(9) placed_items_keys run_queue_item.select_convs(1) run_queue_item.surjective run_queue_item.update_convs(3))
  ultimately show ?case by (simp add: overlay_Cons)
qed simp

interpretation queue_order: renumbering run_queue_items qi_id qi_position item_at queue_renumber
proof
  fix ordered s x t
  assume "queue_renumber ordered s = Inr (x, t)" "distinct (map qi_id (run_queue_items s))"
    "distinct (map qi_id ordered)" "set ordered \<subseteq> set (run_queue_items s)"
  then show "\<exists>written. run_queue_items t = overlay qi_id written (run_queue_items s) \<and>
      list_all2 (\<lambda>(at, r) r'. r' \<in> item_at (as_i32 (int at)) r) (enumerate 0 ordered) written"
    using queue_renumber_run [of 0 ordered s x t] placed_items_places [of 0 ordered]
    by (auto simp: queue_renumber_def intro!: exI [of _ "placed_items 0 ordered"])
qed (auto simp: item_at_def)

lemma placed_items_in: "r \<in> set (placed_items n items) \<Longrightarrow> \<exists>item \<in> set items. \<exists>p. r = item\<lparr>qi_position := p\<rparr>"
  by (induction items arbitrary: n) auto

lemma item_moments_position [simp]: "item_moments_ok (item\<lparr>qi_position := p\<rparr>) = item_moments_ok item"
  by (simp add: item_moments_ok_def)

text \<open>All that is asked of the rows before they are renumbered: not that they are dense.\<close>

definition queue_rows :: "db \<Rightarrow> db \<Rightarrow> bool" where
  "queue_rows base s \<longleftrightarrow> length (run_queues s) \<le> 1
     \<and> (\<forall>q \<in> set (run_queues s). row_ok q \<and> queue_validate q = Inr ()) \<and> items_ok s \<and> same_tables base s"

lemma queue_frame_rows: "queue_frame base s \<Longrightarrow> queue_rows base s"
  by (simp add: queue_frame_def queue_wf_def queue_rows_def)

lemma wp_queue_renumber:
  assumes rows: "queue_rows base s" and ord: "distinct (map qi_id ordered)" "set ordered = set (run_queue_items s)"
    and post: "\<And>t. \<lbrakk>queue_frame base t; run_queues t = run_queues s;
      length ordered \<le> 2 ^ 31 \<Longrightarrow>
        list_all2 (\<lambda>(at, r) r'. r' \<in> item_at (int at) r) (enumerate 0 ordered) (items_in_order t)\<rbrakk> \<Longrightarrow> Q () t"
  shows "wp (queue_renumber ordered) Q s"
proof (rule wpI)
  fix x t assume run: "queue_renumber ordered s = Inr (x, t)"
  have d: "distinct (map qi_id (run_queue_items s))" using rows by (simp add: queue_rows_def items_ok_def)
  let ?w = "placed_items 0 ordered"
  have t: "t = s\<lparr>run_queue_items := overlay qi_id ?w (run_queue_items s)\<rparr>"
    using queue_renumber_run [of 0 ordered s x t] run d ord by (simp add: queue_renumber_def)
  have kw: "qi_id ` set ?w = qi_id ` set (run_queue_items s)" by (metis list.set_map ord(2) placed_items_keys)
  have "set (run_queue_items t) = set ?w"
    unfolding t run_queue_items_after using set_overlay [of qi_id ?w "run_queue_items s"] ord(1) kw by auto
  then have items: "items_ok t"
    using rows ord(2) d by (fastforce simp: items_ok_def queue_rows_def t task_exists_def dest: placed_items_in)
  have dw: "distinct (map qi_id (run_queue_items t))" using items by (simp add: items_ok_def)
  have P: "set ordered = {r \<in> set (run_queue_items s). True}" using ord(2) by simp
  have in_order: "items_in_order t = sort_key qi_position (filter (\<lambda>_. True) (run_queue_items t))"
    by (simp add: items_in_order_def)
  have len: "length (run_queue_items t) = length ordered"
    using t ord d by (simp add: overlay_def) (metis distinct_card distinct_map)
  note listing = queue_order.listing_after_renum [OF run d ord(1) P, folded in_order]
  have "queue_dense t"
  proof (unfold queue_dense_def, rule impI)
    assume "length (run_queue_items t) \<le> 2 ^ 31"
    then have "mset (map qi_position (items_in_order t)) = mset (map int [0..<length ordered])"
      using listing(2) len by simp
    then show "mset (map qi_position (run_queue_items t)) = mset (map int [0..<length (run_queue_items t)])"
      using len by (simp add: items_in_order_def)
  qed
  then have "queue_frame base t" using rows items by (simp add: queue_frame_def queue_wf_def queue_rows_def t same_tables_def)
  moreover have "run_queues t = run_queues s" by (simp add: t)
  moreover have "length ordered \<le> 2 ^ 31 \<Longrightarrow>
      list_all2 (\<lambda>(at, r) r'. r' \<in> item_at (int at) r) (enumerate 0 ordered) (items_in_order t)"
    using listing(1) by simp
  ultimately have "Q () t" by (rule post)
  then show "Q x t" by simp
qed

lemma wp_delete_items:
  assumes "queue_rows base s"
    and "queue_rows base (s\<lparr>run_queue_items := filter (\<lambda>item. qi_id item \<notin> ids) (run_queue_items s)\<rparr>) \<Longrightarrow>
      Q () (s\<lparr>run_queue_items := filter (\<lambda>item. qi_id item \<notin> ids) (run_queue_items s)\<rparr>)"
  shows "wp (delete_items ids) Q s"
  unfolding delete_items_def wp_simps
  by (rule assms(2)) (use assms(1) in \<open>auto simp: queue_rows_def items_ok_def same_tables_def task_exists_def distinct_map inj_on_def\<close>)

lemma wp_enqueue:
  assumes frame: "queue_frame base s"
    and post: "\<And>t i now. \<lbrakk>queue_frame base t; run_queues t = run_queues s; run_queue_items t =
      run_queue_items s @ [queue_item_new i task_id (as_i32 (int (length (run_queue_items s)))) now];
      \<forall>item \<in> set (run_queue_items s). qi_task_id item = task_id \<longrightarrow> settled (qi_state item)\<rbrakk> \<Longrightarrow> Q () t"
  shows "wp (enqueue task_id) Q s"
proof -
  let ?n = "length (run_queue_items s)"
  have ins: "queue_frame base (s\<lparr>clock := c, entropy := e, run_queue_items := run_queue_items s @ [queue_item_new i task_id (as_i32 (int ?n)) now]\<rparr>)"
    if "i \<notin> qi_id ` set (run_queue_items s)" "task_exists s task_id" for c e i now
  proof -
    have pos: "as_i32 (int ?n) = int ?n" if "Suc ?n \<le> 2 ^ 31" using that by (simp add: as_i32_id)
    have "mset (map int [0..<Suc ?n]) = mset (map int [0..<?n]) + {#int ?n#}" by simp
    then show ?thesis using frame that pos
      by (auto simp: queue_frame_def queue_wf_def items_ok_def queue_dense_def same_tables_def task_exists_def
          queue_item_new_def item_moments_ok_def settled_def)
  qed
  have "wp (insert_item (queue_item_new i task_id (as_i32 (int ?n)) now)) (\<lambda>_ t. Q () t) (s\<lparr>clock := c, entropy := e\<rparr>)"
    if fresh: "\<forall>item \<in> set (run_queue_items s). qi_task_id item = task_id \<longrightarrow> settled (qi_state item)" for i now c e
  proof (rule wpI)
    fix x t assume "insert_item (queue_item_new i task_id (as_i32 (int ?n)) now) (s\<lparr>clock := c, entropy := e\<rparr>) = Inr (x, t)"
    then have "i \<notin> qi_id ` set (run_queue_items s)" "task_exists s task_id"
      and t: "t = s\<lparr>clock := c, entropy := e, run_queue_items := run_queue_items s @ [queue_item_new i task_id (as_i32 (int ?n)) now]\<rparr>"
      by (simp_all add: insert_item_def insert_Inr queue_item_new_def item_ok_def task_exists_def)
    then show "Q () t" using ins fresh by (intro post [of _ i now]) simp_all
  qed
  moreover have "length (items_in_order s) = ?n" "set (items_in_order s) = set (run_queue_items s)" by (simp_all add: items_in_order_def)
  ultimately show ?thesis
    unfolding enqueue_def by (auto simp: wp_simps wp_tx_ok list_ex_iff split: option.splits)
qed

subsection \<open>Every operation keeps the invariant\<close>

lemma row_ok_moves:
  assumes "row_ok q"
  shows "st \<noteq> Scheduled \<Longrightarrow> row_ok (queue_move_to st q)"
    "row_ok ((queue_move_to Scheduled q)\<lparr>rq_start_at := Some at\<rparr>)"
    "row_ok ((queue_move_to Holding q)\<lparr>rq_hold_until := until, rq_hold_reason := reason\<rparr>)"
  using assms by (auto simp: row_ok_def queue_move_to_def Let_def)

text \<open>The tail almost every operation ends with: read the row, move it, publish.\<close>

lemma wp_publish_tail:
  assumes "queue_frame base s"
    and f: "\<And>q. row_ok q \<Longrightarrow> row_ok (f q) \<and> rq_id (f q) = rq_id q"
    and post: "\<And>v t q u. \<lbrakk>queue_frame base t; run_queue_items t = run_queue_items s; run_queues t = [(f q)\<lparr>rq_updated_at := u\<rparr>]\<rbrakk> \<Longrightarrow> Q v t"
  shows "wp (tx_bind the_queue (\<lambda>q. queue_publish (f q))) Q s"
  unfolding wp_bind
proof (rule wp_the_queue [OF assms(1)])
  fix q and t :: db assume t: "queue_frame base t" "run_queues t = [q]" "row_ok q" "run_queue_items t = run_queue_items s"
  show "wp (queue_publish (f q)) Q t"
    using f [OF t(3)] t(4) t(2) by (intro wp_queue_publish [OF t(1)]) (auto intro: post)
qed

lemmas wp_publish_now = wp_publish_tail [where f = "\<lambda>q. q", simplified]

lemma wp_the_queue_publish:
  assumes "queue_frame base s" shows "wp (tx_bind the_queue queue_publish) (\<lambda>_. queue_frame base) s"
  using wp_publish_tail [OF assms, of "\<lambda>q. q" "\<lambda>_. queue_frame base"] by simp

lemma wp_forget: "wp m (\<lambda>_. I) s \<Longrightarrow> wp (tx_bind m (\<lambda>_. tx_ok x)) (\<lambda>_. I) s"
  by (simp add: wp_bind wp_tx_ok)

lemma find_item_Some: "find_item i s = Some item \<Longrightarrow> item \<in> set (run_queue_items s) \<and> qi_id item = i"
  by (auto simp: find_item_def dest: find_row_Some)

lemma in_items_in_order [simp]: "set (items_in_order s) = set (run_queue_items s)"
  by (simp add: items_in_order_def)

lemma frame_queue_settings:
  "preserves (queue_frame base) queue_view_in" "preserves (queue_frame base) (update_settings_in u c sk m e k n)"
proof -
  show "preserves (queue_frame base) queue_view_in"
    unfolding queue_view_in_def
    by (intro preserves_wpI) (auto simp: wp_simps intro!: wp_the_queue wp_reads [OF reads_queue_view])
  have "row_ok (q\<lparr>rq_ceiling_percent := c, rq_skip_permissions := sk, rq_model := m', rq_effort := e',
      rq_session_kind := k, rq_parallel_sessions := n\<rparr>)"
    if "row_ok q" "\<not> (case c of None \<Rightarrow> False | Some c \<Rightarrow> \<not> (CEILING_MIN \<le> c \<and> c \<le> CEILING_MAX))" for q m' e'
    using that by (auto simp: row_ok_def)
  then show "preserves (queue_frame base) (update_settings_in u c sk m e k n)"
    unfolding update_settings_in_def
    by (intro preserves_wpI) (auto simp: wp_simps intro!: wp_the_queue wp_queue_publish)
qed

lemma frame_queue_add:
  "preserves (queue_frame base) (queue_add_in i)" "preserves (queue_frame base) (add_and_arm_in i)"
  unfolding queue_add_in_def add_and_arm_in_def wp_bind
  by (auto intro!: preserves_wpI simp: wp_bind [of "enqueue i"] row_ok_moves
      intro!: wp_enqueue [where base = base] wp_the_queue_publish wp_publish_tail [where base = base])

lemma reordered_rows:
  assumes "distinct (map qi_id all)" "item \<in> set all" "qi_state item = Queued"
  shows "set (reordered all item index) = set all" "distinct (map qi_id (reordered all item index))"
    "length (reordered all item index) = length all"
proof -
  have only: "qi_id c = qi_id item \<longleftrightarrow> c = item" if "c \<in> set all" for c
    using assms(1,2) that by (auto simp: distinct_map inj_on_def)
  show e: "set (reordered all item index) = set all"
    using assms(2,3) only by (auto simp: reordered_def Let_def)
  show d: "distinct (map qi_id (reordered all item index))"
  proof -
    have "distinct (reordered all item index)"
      using assms(1,3) distinct_insert_at [where f = "\<lambda>c :: run_queue_item. c"] by (auto simp: reordered_def Let_def distinct_map)
    then show ?thesis using e assms(1) by (simp add: distinct_map)
  qed
  show "length (reordered all item index) = length all"
    using e d assms(1) by (metis distinct_card distinct_map)
qed

lemma wp_require_item [wp_simps]: "wp (require_item i) Q s = (\<forall>item. find_item i s = Some item \<longrightarrow> Q item s)"
  by (auto simp: require_item_def wp_simps split: option.splits)

lemma items_distinct: "queue_rows base s \<Longrightarrow> distinct (map qi_id (run_queue_items s))"
  by (simp add: queue_rows_def items_ok_def)

lemma distinct_in_order: "distinct (map qi_id (run_queue_items s)) \<Longrightarrow> distinct (map qi_id (items_in_order s))"
  by (simp add: items_in_order_def distinct_map)

lemma wp_renumber_publish:
  assumes rows: "queue_rows base s" and "distinct (map qi_id ordered)" "set ordered = set (run_queue_items s)"
  shows "wp (tx_bind (queue_renumber ordered) (\<lambda>_. tx_bind the_queue queue_publish)) (\<lambda>_. queue_frame base) s"
  unfolding wp_bind [of "queue_renumber ordered"]
  by (rule wp_queue_renumber [OF assms]) (rule wp_the_queue_publish)

lemma frame_queue_remove: "preserves (queue_frame base) (queue_remove_in i)"
proof (rule preserves_wpI)
  fix s assume frame: "queue_frame base s"
  have "wp (delete_items {j}) (\<lambda>_. wp (tx_bind (tx_gets items_in_order) (\<lambda>left. tx_bind (queue_renumber left)
      (\<lambda>_. tx_bind the_queue queue_publish))) (\<lambda>_. queue_frame base)) s" for j
  proof (rule wp_delete_items [OF queue_frame_rows [OF frame]])
    let ?t = "s\<lparr>run_queue_items := filter (\<lambda>item. qi_id item \<notin> {j}) (run_queue_items s)\<rparr>"
    assume rows: "queue_rows base ?t"
    then show "wp (tx_bind (tx_gets items_in_order) (\<lambda>left. tx_bind (queue_renumber left) (\<lambda>_. tx_bind the_queue queue_publish)))
        (\<lambda>_. queue_frame base) ?t"
      unfolding wp_bind [of "tx_gets _"] wp_simps_base
      by (intro wp_renumber_publish distinct_in_order items_distinct) simp_all
  qed
  then show "wp (queue_remove_in i) (\<lambda>_. queue_frame base) s"
    unfolding queue_remove_in_def by (auto simp: wp_require_item wp_bind [of "require_item i"] wp_bind [of "tx_gets (task_title _)"] wp_bind [of "delete_items _"] wp_simps_base)
qed

lemma frame_queue_move: "preserves (queue_frame base) (queue_move_in i index)"
proof (rule preserves_wpI)
  fix s assume frame: "queue_frame base s"
  note rows = queue_frame_rows [OF frame]
  have "wp (tx_bind (queue_renumber (reordered (items_in_order s) item index)) (\<lambda>_. tx_bind the_queue queue_publish))
      (\<lambda>_. queue_frame base) s" if "find_item i s = Some item" "qi_state item = Queued" for item
    using reordered_rows [OF distinct_in_order [OF items_distinct [OF rows]], of item index] find_item_Some [OF that(1)] that(2)
    by (intro wp_renumber_publish [OF rows]) simp_all
  then show "wp (queue_move_in i index) (\<lambda>_. queue_frame base) s"
    unfolding queue_move_in_def by (auto simp: wp_require_item wp_bind [of "require_item i"] wp_bind [of "tx_gets _"] wp_simps_base)
qed

lemma frame_clear_settled: "preserves (queue_frame base) clear_settled_in"
proof (rule preserves_wpI)
  fix s assume frame: "queue_frame base s"
  note rows = queue_frame_rows [OF frame]
  let ?all = "items_in_order s"
  let ?gone = "map qi_id (filter (\<lambda>item. settled (qi_state item)) ?all)" and ?kept = "filter (\<lambda>item. \<not> settled (qi_state item)) ?all"
  let ?t = "s\<lparr>run_queue_items := filter (\<lambda>item. qi_id item \<notin> set ?gone) (run_queue_items s)\<rparr>"
  let ?k = "tx_bind (queue_renumber ?kept) (\<lambda>_. tx_bind the_queue queue_publish)"
  have d: "distinct (map qi_id ?all)" by (rule distinct_in_order [OF items_distinct [OF rows]])
  have dk: "distinct (map qi_id ?kept)" using d by (simp add: distinct_map inj_on_def)
  have kept: "set ?kept = set (run_queue_items ?t)"
    using items_distinct [OF rows] by (auto simp: distinct_map inj_on_def)
  have "wp (delete_items (set ?gone)) (\<lambda>_. wp ?k (\<lambda>_. queue_frame base)) s"
    by (rule wp_delete_items [OF rows]) (rule wp_renumber_publish [OF _ dk kept])
  moreover have "wp ?k (\<lambda>_. queue_frame base) s" if "?gone = []"
  proof -
    have "set ?kept = set (run_queue_items s)" using that by (auto simp: filter_empty_conv)
    then show ?thesis by (rule wp_renumber_publish [OF rows dk])
  qed
  ultimately show "wp clear_settled_in (\<lambda>_. queue_frame base) s"
    unfolding clear_settled_in_def Let_def
    by (auto simp: wp_bind [of "tx_gets _"] wp_bind [of "if _ then _ else _"] wp_simps_base wp_if)
qed

text \<open>Moves of the row alone.\<close>

lemma wp_row_move:
  assumes "queue_frame base s" "run_queues s = [q]" "row_ok (f q)" "rq_id (f q) = rq_id q"
  shows "wp (queue_publish (f q)) (\<lambda>_. queue_frame base) s"
  using assms by (auto intro!: wp_queue_publish)

lemma frame_queue_row_moves:
  "preserves (queue_frame base) (queue_start_in at)" "preserves (queue_frame base) queue_resume_in"
  "preserves (queue_frame base) (queue_hold_in until reason)" "preserves (queue_frame base) queue_finish_in"
  "preserves (queue_frame base) (refresh_for_task_in i)"
  unfolding queue_start_in_def queue_resume_in_def queue_hold_in_def queue_finish_in_def refresh_for_task_in_def
  by (auto intro!: preserves_wpI wp_the_queue [where base = base] wp_queue_publish [where base = base]
      simp: wp_simps wp_tx_ok row_ok_moves split: option.splits)

lemma frame_queue_stop: "preserves (queue_frame base) (queue_stop_in reason)"
proof (rule preserves_wpI)
  fix s assume frame: "queue_frame base s"
  show "wp (queue_stop_in reason) (\<lambda>_. queue_frame base) s"
    unfolding queue_stop_in_def wp_bind wp_simps_base
    by (intro wp_the_queue [OF frame] wp_move_items [where base = base])
      (auto simp: row_ok_moves intro!: wp_queue_publish)
qed

lemma frame_mark_item: "preserves (queue_frame base) (mark_item_in i st reason)"
  unfolding mark_item_in_def
  by (auto intro!: preserves_wpI wp_move_item [where base = base] wp_the_queue [where base = base] wp_queue_publish [where base = base]
      simp: wp_simps wp_tx_ok dest!: find_item_Some item_keys_in split: option.splits)

lemma frame_recover: "preserves (queue_frame base) recover_after_restart_in"
proof (rule preserves_wpI)
  fix s assume frame: "queue_frame base s"
  show "wp recover_after_restart_in (\<lambda>_. queue_frame base) s"
    unfolding recover_after_restart_in_def Let_def wp_bind wp_simps_base
    by (intro wp_move_items [OF frame]) (auto simp: wp_simps wp_tx_ok intro!: wp_the_queue [where base = base] wp_queue_publish [where base = base])
qed

lemma frame_stop_blocked: "preserves (queue_frame base) (stop_blocked_in blocked)"
proof (rule preserves_wpI)
  fix s assume frame: "queue_frame base s"
  have "preserves (queue_frame base) (tx_each (\<lambda>entry. tx_bind (tx_gets (find_item (bi_item_id entry))) (\<lambda>found. case found of
      None \<Rightarrow> tx_ok () | Some item \<Rightarrow> move_item Queued (Some (bi_reason entry)) item)) blocked)"
    by (rule preserves_tx_each)
      (auto intro!: preserves_wpI wp_move_item [where base = base] simp: wp_simps dest!: find_item_Some item_keys_in split: option.splits)
  from wp_preserves [OF this frame] show "wp (stop_blocked_in blocked) (\<lambda>_. queue_frame base) s"
    unfolding stop_blocked_in_def
    by (rule wp_seq)
      (auto simp: wp_simps wp_tx_ok row_ok_moves intro!: wp_the_queue [where base = base] wp_queue_publish [where base = base])
qed

lemmas frame_queue_ops = frame_queue_settings frame_queue_add frame_queue_remove frame_queue_move frame_clear_settled
  frame_queue_row_moves frame_queue_stop frame_mark_item frame_recover frame_stop_blocked

end
