(* ===== verification/Dependencies.thy ===== *)
theory Dependencies
  imports Queue_Facts
begin

section \<open>Dependencies between tasks\<close>

text \<open>
  \<^verbatim>\<open>rekall-console/src/dependency/service/task_dependency_service.rs\<close>. A dependency is added or
  removed in one transaction; the queue is announced again in a second one, so its failure is
  reported although the dependency is stored.
\<close>

record task_dependency_view =
  dv_task_id :: id
  dv_anchor :: str
  dv_title :: str
  dv_met :: bool
  dv_awaiting_review :: bool

definition dependency_view_of :: "task_wait \<Rightarrow> task_dependency_view" where
  "dependency_view_of w = \<lparr>dv_task_id = wt_task_id w, dv_anchor = wt_anchor w, dv_title = wt_title w,
     dv_met = is_met w, dv_awaiting_review = awaits_review w\<rparr>"

definition task_dependency_new :: "id \<Rightarrow> id \<Rightarrow> id \<Rightarrow> instant \<Rightarrow> task_dependency" where
  "task_dependency_new i task_id depends_on now =
     \<lparr>td_id = i, td_task_id = task_id, td_depends_on_task_id = depends_on, td_created_at = now\<rparr>"

definition dependency_views_in :: "id \<Rightarrow> task_dependency_view list action" where
  "dependency_views_in task_id = tx_bind (waits_of_task_in task_id) (\<lambda>waits. tx_ok (map dependency_view_of waits))"

definition require_same_project :: "task \<Rightarrow> task \<Rightarrow> unit result" where
  "require_same_project t dependency =
     refuse_if (tk_project_id t \<noteq> tk_project_id dependency) (IllegalArgument (Msg ''is in another project'' [tk_label dependency]))"

definition require_not_already_added :: "task \<Rightarrow> task \<Rightarrow> unit action" where
  "require_not_already_added t dependency =
     tx_bind (tx_gets (find_pair (tk_id t) (tk_id dependency))) (\<lambda>found. case found of
       None \<Rightarrow> tx_ok ()
     | Some _ \<Rightarrow> tx_fail (Conflict (Msg ''already depends on'' [tk_label t, tk_label dependency])))"

definition require_no_cycle :: "task \<Rightarrow> task \<Rightarrow> unit action" where
  "require_no_cycle t dependency =
     tx_bind (tx_gets (dependencies_of_project (tk_project_id t))) (\<lambda>rows.
     let existing = map (\<lambda>d. (td_task_id d, td_depends_on_task_id d)) rows
     in if closes_a_cycle existing (tk_id t) (tk_id dependency)
        then tx_fail (IllegalArgument (Msg ''that would make a task wait for itself'' [tk_label t, tk_label dependency]))
        else tx_ok ())"

definition require_allowed :: "task \<Rightarrow> task \<Rightarrow> unit action" where
  "require_allowed t dependency =
     tx_bind (tx_lift (require_workable ''never takes part in a dependency'' t)) (\<lambda>_.
     tx_bind (tx_lift (require_workable ''never takes part in a dependency'' dependency)) (\<lambda>_.
     tx_bind (tx_lift (require_same_project t dependency)) (\<lambda>_.
     tx_bind (require_not_already_added t dependency) (\<lambda>_.
     require_no_cycle t dependency))))"

definition dependency_list_of :: "id \<Rightarrow> db \<Rightarrow> task_dependency_view list result" where
  "dependency_list_of task_id = in_read (tx_bind (require_task task_id) (\<lambda>_. dependency_views_in task_id))"

definition dependency_add_in :: "id \<Rightarrow> id \<Rightarrow> task_dependency_view list action" where
  "dependency_add_in task_id depends_on =
     tx_bind (require_task task_id) (\<lambda>t.
     tx_bind (require_task depends_on) (\<lambda>dependency.
     tx_bind (require_allowed t dependency) (\<lambda>_.
     tx_bind ctx_now (\<lambda>now. tx_bind random_id (\<lambda>i.
     tx_bind (insert_dependency (task_dependency_new i (tk_id t) (tk_id dependency) now)) (\<lambda>_.
     dependency_views_in (tk_id t)))))))"

definition delete_dependency :: "id \<Rightarrow> unit action" where
  "delete_dependency i = tx_modify (\<lambda>s. s\<lparr>task_dependencies := filter (\<lambda>d. td_id d \<noteq> i) (task_dependencies s)\<rparr>)"

definition dependency_remove_in :: "id \<Rightarrow> id \<Rightarrow> task_dependency_view list action" where
  "dependency_remove_in task_id depends_on =
     tx_bind (tx_gets (find_pair task_id depends_on)) (\<lambda>found. case found of
       None \<Rightarrow> tx_fail (NotFound (Msg ''that task does not depend on the other one'' []))
     | Some dependency \<Rightarrow> tx_bind (delete_dependency (td_id dependency)) (\<lambda>_. dependency_views_in task_id))"

text \<open>The second transaction of \<open>add\<close> and \<open>remove\<close>.\<close>

definition then_refresh :: "id \<Rightarrow> 'a result \<times> db \<Rightarrow> 'a result \<times> db" where
  "then_refresh task_id r = (case r of
       (Inl e, t) \<Rightarrow> (Inl e, t)
     | (Inr views, t) \<Rightarrow> (case refresh_for_task task_id t of
           (Inl e, t') \<Rightarrow> (Inl e, t') | (Inr _, t') \<Rightarrow> (Inr views, t')))"

definition dependency_add :: "id \<Rightarrow> id \<Rightarrow> db \<Rightarrow> task_dependency_view list result \<times> db" where
  "dependency_add task_id depends_on s = then_refresh task_id (in_write (dependency_add_in task_id depends_on) s)"

definition dependency_remove :: "id \<Rightarrow> id \<Rightarrow> db \<Rightarrow> task_dependency_view list result \<times> db" where
  "dependency_remove task_id depends_on s = then_refresh task_id (in_write (dependency_remove_in task_id depends_on) s)"

subsection \<open>The dependencies never go round\<close>

definition dep_edges :: "db \<Rightarrow> (id \<times> id) set" where
  "dep_edges s = (\<lambda>d. (td_task_id d, td_depends_on_task_id d)) ` set (task_dependencies s)"

definition project_of_task :: "db \<Rightarrow> id \<Rightarrow> id option" where
  "project_of_task s i = map_option tk_project_id (find_task i s)"

definition deps_ok :: "db \<Rightarrow> bool" where
  "deps_ok s \<longleftrightarrow> distinct (map td_id (task_dependencies s)) \<and> acyclic (dep_edges s)
     \<and> (\<forall>(i, j) \<in> dep_edges s. \<exists>p. project_of_task s i = Some p \<and> project_of_task s j = Some p)"

lemma deps_ok_table: "table_invariant deps_ok"
  by (simp add: table_invariant_def deps_ok_def dep_edges_def project_of_task_def find_task_def)

lemma deps_ok_cong:
  "deps_ok s \<Longrightarrow> task_dependencies t = task_dependencies s \<Longrightarrow> (\<And>i. project_of_task t i = project_of_task s i) \<Longrightarrow> deps_ok t"
  by (simp add: deps_ok_def dep_edges_def)

lemma path_in_project:
  assumes "deps_ok s" "(i, j) \<in> (dep_edges s)\<^sup>*" "project_of_task s i = Some p"
  shows "(i, j) \<in> {(a, b). (a, b) \<in> dep_edges s \<and> project_of_task s a = Some p}\<^sup>* \<and> project_of_task s j = Some p"
  using assms(2,3)
proof (induction rule: rtrancl_induct)
  case (step b c)
  then have b: "project_of_task s b = Some p" by simp
  moreover have "project_of_task s c = Some p" using assms(1) step(2) b by (auto simp: deps_ok_def)
  ultimately show ?case using step by (auto intro: rtrancl_into_rtrancl)
qed simp

text \<open>The rows a cycle is looked for in are those of the project: enough, since no path leaves it.\<close>

lemma project_edges:
  assumes "distinct (map tk_id (tasks s))"
  shows "(\<lambda>d. (td_task_id d, td_depends_on_task_id d)) ` set (dependencies_of_project p s)
    = {(a, b). (a, b) \<in> dep_edges s \<and> project_of_task s a = Some p}"
proof -
  have "i \<in> tk_id ` set (tasks_of_project p s) \<longleftrightarrow> project_of_task s i = Some p" for i
  proof
    assume "i \<in> tk_id ` set (tasks_of_project p s)"
    then obtain t where "t \<in> set (tasks s)" "tk_id t = i" "tk_project_id t = p" by (auto simp: tasks_of_project_def)
    then show "project_of_task s i = Some p"
      using find_row_key [OF assms] by (auto simp: project_of_task_def find_task_def)
  next
    assume "project_of_task s i = Some p"
    then show "i \<in> tk_id ` set (tasks_of_project p s)"
      by (auto simp: project_of_task_def tasks_of_project_def dest!: find_task_Some)
  qed
  then show ?thesis by (auto simp: dependencies_of_project_def dep_edges_def)
qed

lemma reads_dependency_views: "reads (dependency_views_in i)"
  unfolding dependency_views_in_def by (intro reads_rules reads_waits)

lemma wp_require_task [wp_simps]: "wp (require_task i) Q s = (\<forall>t. find_task i s = Some t \<longrightarrow> Q t s)"
  by (auto simp: require_task_def wp_simps split: option.splits)

lemma wp_require_allowed:
  assumes "\<lbrakk>\<not> is_epic t; \<not> is_epic d; tk_project_id t = tk_project_id d; find_pair (tk_id t) (tk_id d) s = None;
      \<not> closes_a_cycle (map (\<lambda>d. (td_task_id d, td_depends_on_task_id d)) (dependencies_of_project (tk_project_id t) s))
          (tk_id t) (tk_id d)\<rbrakk> \<Longrightarrow> Q () s"
  shows "wp (require_allowed t d) Q s"
  using assms
  by (auto simp: require_allowed_def require_workable_def require_same_project_def require_not_already_added_def
      require_no_cycle_def Let_def wp_simps split: option.splits)

lemma deps_ok_insert:
  assumes ok: "deps_ok s" "distinct (map tk_id (tasks s))"
    and t: "find_task i s = Some t" "find_task j s = Some d" "tk_project_id t = tk_project_id d"
    and no: "\<not> closes_a_cycle (map (\<lambda>d. (td_task_id d, td_depends_on_task_id d)) (dependencies_of_project (tk_project_id t) s)) i j"
    and new: "td_id row \<notin> td_id ` set (task_dependencies s)" "td_task_id row = i" "td_depends_on_task_id row = j"
  shows "deps_ok (s\<lparr>clock := c, entropy := e, task_dependencies := task_dependencies s @ [row]\<rparr>)"
proof -
  let ?t = "s\<lparr>clock := c, entropy := e, task_dependencies := task_dependencies s @ [row]\<rparr>"
  have edges: "dep_edges ?t = insert (i, j) (dep_edges s)" using new by (auto simp: dep_edges_def)
  have pr: "project_of_task s i = Some (tk_project_id t)" "project_of_task s j = Some (tk_project_id t)"
    using t by (simp_all add: project_of_task_def)
  have "(j, i) \<notin> {(a, b). (a, b) \<in> dep_edges s \<and> project_of_task s a = Some (tk_project_id t)}\<^sup>*"
    using no unfolding closes_a_cycle_path set_map project_edges [OF ok(2)] .
  then have "(j, i) \<notin> (dep_edges s)\<^sup>*" using path_in_project [OF ok(1) _ pr(2)] by blast
  then have "acyclic (dep_edges ?t)" using ok(1) by (simp add: edges acyclic_insert deps_ok_def)
  moreover have "project_of_task ?t k = project_of_task s k" for k by (simp add: project_of_task_def find_task_def)
  ultimately show ?thesis using ok(1) new(1) pr by (auto simp: deps_ok_def edges)
qed

definition dep_frame :: "db \<Rightarrow> db \<Rightarrow> bool" where
  "dep_frame base s \<longleftrightarrow> deps_ok s \<and> distinct (map tk_id (tasks s)) \<and> projects s = projects base \<and> tasks s = tasks base
     \<and> task_steps s = task_steps base \<and> step_links s = step_links base \<and> step_visits s = step_visits base
     \<and> time_entries s = time_entries base \<and> run_queues s = run_queues base \<and> run_queue_items s = run_queue_items base"

lemma dep_frame_table: "table_invariant (dep_frame base)"
  using deps_ok_table by (simp add: table_invariant_def dep_frame_def)

lemma dependency_add_effect:
  assumes frame: "dep_frame base s"
  shows "wp (dependency_add_in i j) (\<lambda>_ t. dep_frame base t \<and> dep_edges t = insert (i, j) (dep_edges s)
     \<and> project_of_task s i \<noteq> None \<and> project_of_task s i = project_of_task s j) s" (is "wp _ ?Q s")
proof -
  have "wp (insert_dependency (task_dependency_new k (tk_id t) (tk_id d) now)) (\<lambda>_. wp (dependency_views_in (tk_id t)) ?Q)
      (s\<lparr>clock := c, entropy := e\<rparr>)"
    if r: "find_task i s = Some t" "find_task j s = Some d" "tk_project_id t = tk_project_id d"
      "\<not> closes_a_cycle (map (\<lambda>d. (td_task_id d, td_depends_on_task_id d)) (dependencies_of_project (tk_project_id t) s)) (tk_id t) (tk_id d)"
    for t d k now c e
  proof (rule wpI)
    fix x u assume "insert_dependency (task_dependency_new k (tk_id t) (tk_id d) now) (s\<lparr>clock := c, entropy := e\<rparr>) = Inr (x, u)"
    then have u: "u = s\<lparr>clock := c, entropy := e, task_dependencies := task_dependencies s @ [task_dependency_new k (tk_id t) (tk_id d) now]\<rparr>"
      and k: "k \<notin> td_id ` set (task_dependencies s)"
      by (simp_all add: insert_dependency_def insert_Inr task_dependency_new_def)
    note ids = find_task_Some [OF r(1)] find_task_Some [OF r(2)]
    have "deps_ok u" unfolding u
      using frame r k ids
      by (intro deps_ok_insert [where t = t and d = d and i = i and j = j]) (auto simp: dep_frame_def task_dependency_new_def)
    then have "dep_frame base u" using frame by (auto simp: dep_frame_def u)
    moreover have "dep_edges u = insert (i, j) (dep_edges s)"
      using ids by (auto simp: u dep_edges_def task_dependency_new_def)
    ultimately show "wp (dependency_views_in (tk_id t)) ?Q u"
      using r by (intro wp_reads reads_dependency_views) (simp add: project_of_task_def)
  qed
  then show ?thesis
    unfolding dependency_add_in_def by (auto simp: wp_simps intro!: wp_require_allowed)
qed

lemma frame_dependency_add: "preserves (dep_frame base) (dependency_add_in i j)"
  by (rule preserves_wpI) (rule wp_mono [OF dependency_add_effect], auto)

lemma frame_dependency_remove: "preserves (dep_frame base) (dependency_remove_in i j)"
proof (rule preserves_wpI)
  fix s assume frame: "dep_frame base s"
  let ?t = "\<lambda>k. s\<lparr>task_dependencies := filter (\<lambda>d. td_id d \<noteq> k) (task_dependencies s)\<rparr>"
  have "deps_ok (?t k)" for k
  proof -
    have sub: "dep_edges (?t k) \<subseteq> dep_edges s" by (auto simp: dep_edges_def)
    have "project_of_task (?t k) a = project_of_task s a" for a by (simp add: project_of_task_def find_task_def)
    moreover have "acyclic (dep_edges (?t k))" using frame sub acyclic_subset by (auto simp: dep_frame_def deps_ok_def)
    ultimately show ?thesis using frame sub by (auto simp: dep_frame_def deps_ok_def distinct_map inj_on_def)
  qed
  then have "dep_frame base (?t k)" for k using frame by (auto simp: dep_frame_def)
  then show "wp (dependency_remove_in i j) (\<lambda>_. dep_frame base) s"
    unfolding dependency_remove_in_def delete_dependency_def
    by (auto simp: wp_simps intro!: wp_reads [OF reads_dependency_views] split: option.splits)
qed

lemma dep_frame_refl: "deps_ok s \<Longrightarrow> tasks_ok s \<Longrightarrow> dep_frame s s"
  by (simp add: dep_frame_def tasks_ok_def)

text \<open>Announcing the queue again touches no dependency.\<close>

lemma refresh_keeps:
  assumes "queue_wf s" "refresh_for_task i s = (r, t)"
  shows "queue_wf t \<and> same_tables s t"
proof -
  have "queue_frame (tx_begin s) (tx_begin s)"
    using assms(1) by (intro queue_frame_refl) (simp add: queue_wf_table [THEN table_invariantD(4)])
  then have "queue_frame s s" using assms(1) by (simp add: queue_frame_refl)
  from in_write_invariant [OF queue_frame_table frame_queue_row_moves(5) this, of i]
  show ?thesis using assms(2) by (simp add: refresh_for_task_def queue_frame_def)
qed

lemma same_tables_deps: "same_tables s t \<Longrightarrow> deps_ok s \<Longrightarrow> deps_ok t" "same_tables s t \<Longrightarrow> dep_edges t = dep_edges s"
  "same_tables s t \<Longrightarrow> project_of_task t i = project_of_task s i"
  by (simp_all add: same_tables_def deps_ok_def dep_edges_def project_of_task_def find_task_def)

lemma begin_deps [simp]:
  "dep_edges (tx_begin s) = dep_edges s" "dep_edges (tx_commit s) = dep_edges s"
  "project_of_task (tx_begin s) i = project_of_task s i"
  "deps_ok (tx_begin s) = deps_ok s" "deps_ok (tx_commit s) = deps_ok s" "queue_wf (tx_commit s) = queue_wf s"
  by (simp_all add: deps_ok_table [THEN table_invariantD(4)] deps_ok_table [THEN table_invariantD(5)]
      queue_wf_table [THEN table_invariantD(5)])
    (simp_all add: tx_begin_def tx_commit_def dep_edges_def project_of_task_def find_task_def)


definition second_task :: task where
  "second_task = task_new 3 (lit ''u'') (lit ''second'') 1 0"

definition dep_db :: db where
  "dep_db = sample_db\<lparr>tasks := [sample_task, second_task], task_dependencies := [task_dependency_new 50 3 2 0]\<rparr>"

lemma dep_db_ok: "deps_ok dep_db" "tasks_ok dep_db" "queue_wf dep_db"
proof -
  have edges: "dep_edges dep_db = {(3, 2)}" by (simp add: dep_db_def dep_edges_def task_dependency_new_def)
  have "acyclic ({} :: (id \<times> id) set)" by (simp add: acyclic_def)
  then have "acyclic (dep_edges dep_db)" by (simp add: edges acyclic_insert)
  moreover have "project_of_task dep_db 3 = Some 1" "project_of_task dep_db 2 = Some 1"
    by (simp_all add: project_of_task_def dep_db_def second_task_def run_defs)
  moreover have "distinct (map td_id (task_dependencies dep_db))" by (simp add: dep_db_def)
  ultimately show "deps_ok dep_db" by (simp add: deps_ok_def edges)
qed (simp_all add: tasks_ok_def task_moments_ok_def queue_wf_def items_ok_def queue_dense_def dep_db_def second_task_def run_defs)


text \<open>The definitions above, for running the model on concrete input.\<close>

lemmas dependencies_run [run_defs] = dependency_view_of_def task_dependency_new_def dependency_views_in_def
  require_same_project_def require_not_already_added_def require_no_cycle_def
  require_allowed_def dependency_list_of_def dependency_add_in_def delete_dependency_def
  dependency_remove_in_def then_refresh_def dependency_add_def dependency_remove_def

end
