(* ===== verification/Foreign_Tables.thy ===== *)
theory Foreign_Tables
  imports Flow_Facts Dependencies
begin

section \<open>What step and flow services leave alone\<close>

text \<open>
  The step and flow services write steps, routes and visits, and stop a timer when work is
  accepted. An invariant that reads none of the three tables and survives a stopped timer
  is kept by every one of their operations: the locale proves it once, and the invariants of the
  tasks, the time entries, the dependencies and the queue are its instances.
\<close>

locale foreign_invariant =
  fixes I :: "db \<Rightarrow> bool"
  assumes table: "table_invariant I"
    and steps: "I (s\<lparr>task_steps := a\<rparr>) = I s"
    and links: "I (s\<lparr>step_links := b\<rparr>) = I s"
    and visits: "I (s\<lparr>step_visits := c\<rparr>) = I s"
    and timer: "preserves I (stop_timer i)"
begin

lemma foreign_update:
  "I (task_steps_update f s) = I s" "I (step_links_update g s) = I s" "I (step_visits_update h s) = I s"
proof -
  have "task_steps_update f s = s\<lparr>task_steps := f (task_steps s)\<rparr>"
    "step_links_update g s = s\<lparr>step_links := g (step_links s)\<rparr>"
    "step_visits_update h s = s\<lparr>step_visits := h (step_visits s)\<rparr>" by simp_all
  then show "I (task_steps_update f s) = I s" "I (step_links_update g s) = I s" "I (step_visits_update h s) = I s"
    using steps links visits by metis+
qed

lemma foreign_rows:
  "preserves I (insert_step r)" "preserves I (update_step r)" "preserves I (delete_step_row i)"
  "preserves I (insert_link l)" "preserves I (update_link l)" "preserves I (delete_link i)"
  "preserves I (insert_visit v)" "preserves I (update_visit v)" "preserves I (delete_visits_of_task i)"
  by (auto intro!: preservesI simp: insert_defs update_step_def update_link_def update_visit_def insert_Inr update_Inr delete_step_row_def delete_link_def
      delete_visits_of_task_def foreign_update)

lemmas foreign_base = foreign_rows preserves_ctx_now [OF table] preserves_random_id [OF table]
  preserves_tx_publish [OF table] timer reads_views [THEN reads_preserves] preserves_publish_steps [OF table]

lemma foreign_saves:
  "preserves I (save_step a b)" "preserves I (save_link c d)"
  unfolding save_step_def save_link_def update_if_changed_def Let_def
  by (intro preserves_intro foreign_base)+

lemma foreign_steps:
  "preserves I (step_require i)" "preserves I (save_marked st r)" "preserves I (renumber rs)" "preserves I (settle_drafts_at_tail rs)"
  unfolding step_require_def save_marked_def renumber_def settle_drafts_at_tail_def Let_def
  by (intro preserves_intro foreign_base foreign_saves)+

lemma foreign_step_adds:
  "preserves I (step_insert_in i title body st)" "preserves I (step_add_in i title body)" "preserves I (open_in r)"
  "preserves I (release_drafts_in i)" "preserves I (release_in i)" "preserves I (begin_session_in i b)"
  "preserves I (limit_visits_in i budget)" "preserves I (answer_checklist i)"
  unfolding step_add_in_def step_insert_in_def open_in_def release_drafts_in_def release_in_def begin_session_in_def
    limit_visits_in_def answer_checklist_def Let_def save_marked_def
  by (intro preserves_intro preserves_require preserves_resolve foreign_base foreign_saves foreign_steps)+

lemma foreign_step_moves:
  "preserves I (step_propose_in u pl label title body starts staging)" "preserves I (step_edit_in i title body don dr)"
  "preserves I (step_send_back_in i)" "preserves I (transition_in u t reference st)"
  "preserves I (step_transition_in u pl label reference st)" "preserves I (reopen_for_route_in i)"
  "preserves I (move_if_in i a b)" "preserves I (step_move_to_in i position)" "preserves I (place_in_flow_in i place)"
  "preserves I (clear_flow_places_in i)" "preserves I (delete_in r)" "preserves I (step_delete_in i)"
  "preserves I (step_remove_in u pl label reference)" "preserves I (clear_unstarted_in i)"
  unfolding step_propose_in_def step_edit_in_def step_send_back_in_def transition_in_def step_transition_in_def
    reopen_for_route_in_def move_if_in_def step_move_to_in_def place_in_flow_in_def clear_flow_places_in_def
    step_delete_in_def delete_in_def step_remove_in_def clear_unstarted_in_def Let_def
  by (intro preserves_intro preserves_require preserves_resolve foreign_base foreign_saves foreign_steps foreign_step_adds)+

lemma foreign_links:
  "preserves I (target_step r target)" "preserves I (link_insert_in u r to oc)" "preserves I (link_answer i)"
  "preserves I (link_add_in u i target oc)" "preserves I (link_propose_in u i target raw)"
  "preserves I (link_edit_in u i new_target oc)" "preserves I (link_delete_in i)"
  unfolding target_step_def link_insert_in_def link_answer_def link_add_in_def link_propose_in_def link_edit_in_def
    link_delete_in_def Let_def
  by (intro preserves_intro preserves_require foreign_base foreign_saves)+

lemma foreign_visits:
  "preserves I (visit_close v oc rp)" "preserves I (visit_enter_new r)" "preserves I (enter_in r)" "preserves I (leave_in r oc rp)"
  unfolding visit_close_def visit_enter_new_def enter_in_def leave_in_def
  by (intro preserves_intro foreign_base)+

lemma foreign_flow:
  "preserves I (is_flow_in i)" "preserves I (is_start_in u i reference st)" "preserves I (enter_step i)" "preserves I (leave_by r oc rp)"
  "preserves I (flow_transition_in u pl label reference st oc rp)" "preserves I (flow_reset_in i)"
  unfolding is_flow_in_def is_start_in_def enter_step_def leave_by_def flow_transition_in_def flow_reset_in_def clear_in_def routes_from_in_def
  by (intro preserves_intro preserves_require preserves_resolve foreign_base foreign_step_moves foreign_visits)+

lemma foreign_plans:
  "preserves I (lay_step i planned)" "preserves I (lay_route u drafts dr route)" "preserves I (lay_in u i plan)"
  "preserves I (flow_propose_in u pl label plan staging)" "preserves I (flow_replan_in u pl label plan staging)"
  unfolding lay_step_def lay_route_def lay_in_def flow_propose_in_def flow_replan_in_def Let_def
  by (intro preserves_intro preserves_require preserves_resolve foreign_base foreign_step_adds foreign_step_moves foreign_links)+

lemma foreign_write: "preserves I m \<Longrightarrow> I s \<Longrightarrow> I (snd (in_write m s))"
  by (rule in_write_invariant [OF table])

end

subsection \<open>What the time entry service leaves alone\<close>

locale untimed_invariant =
  fixes I :: "db \<Rightarrow> bool"
  assumes table: "table_invariant I"
    and entries: "I (time_entries_update f s) = I s"
begin

lemma untimed_rows: "preserves I (insert_entry e)" "preserves I (update_entry e)" "preserves I (entry_delete_in i)"
proof -
  have "I (s\<lparr>time_entries := es\<rparr>) = I s" for s es using entries [of "\<lambda>_. es" s] by simp
  then show "preserves I (insert_entry e)" "preserves I (update_entry e)" "preserves I (entry_delete_in i)"
    by (auto intro!: preservesI simp: insert_entry_def update_entry_def insert_Inr update_Inr entry_delete_in_def entries)
qed

lemma untimed_reads: "preserves I (running_entry_of_task i)" "preserves I (entry_view_load e)"
  unfolding running_entry_of_task_def by (intro preserves_intro reads_preserves reads_entry_view)+

lemmas untimed_base = untimed_rows untimed_reads preserves_ctx_now [OF table] preserves_random_id [OF table]

lemma untimed_ops:
  "preserves I (stop_timer i)" "preserves I (entry_start_in i)" "preserves I (stop_if_running_in i)" "preserves I (entry_stop_in i)"
  "preserves I (entry_edit_in i started stopped)" "preserves I stop_all_on_shutdown_in"
  unfolding stop_timer_def entry_start_in_def entry_stop_in_def stop_if_running_in_def entry_edit_in_def stop_all_on_shutdown_in_def Let_def
  by (intro preserves_intro preserves_require untimed_base)+

lemma untimed_idle: "preserves I (stop_idle_in idle)"
proof -
  have "preserves I (stop_idle_each idle now n es)" for now n es
    by (induction es arbitrary: n) (auto intro!: preserves_intro untimed_base)
  then show ?thesis unfolding stop_idle_in_def by (intro preserves_intro untimed_base)
qed

end

subsection \<open>The instances\<close>

text \<open>Everything but the steps, routes and visits; everything but the time entries.\<close>

definition rest_ok :: "db \<Rightarrow> bool" where
  "rest_ok s \<longleftrightarrow> tasks_ok s \<and> timers_ok s \<and> deps_ok s \<and> queue_wf s"

definition untimed_ok :: "db \<Rightarrow> bool" where
  "untimed_ok s \<longleftrightarrow> flow_ok s \<and> tasks_ok s \<and> deps_ok s \<and> queue_wf s"

interpretation untimed: untimed_invariant untimed_ok
proof
  show "table_invariant untimed_ok"
    using flow_ok_table tasks_ok_table deps_ok_table queue_wf_table by (simp add: table_invariant_def untimed_ok_def)
  show "untimed_ok (time_entries_update f s) = untimed_ok s" for f s
    by (simp add: untimed_ok_def flow_ok_def steps_ok_def rows_ok_def dense_def positions_of_def links_ok_def visits_ok_def
        step_keys_def open_visits_def tasks_ok_def task_ok_def deps_ok_def dep_edges_def project_of_task_def find_task_def
        queue_wf_def items_ok_def queue_dense_def task_exists_def)
qed

interpretation untimed_rest: untimed_invariant "\<lambda>s. tasks_ok s \<and> deps_ok s \<and> queue_wf s"
proof
  show "table_invariant (\<lambda>s. tasks_ok s \<and> deps_ok s \<and> queue_wf s)"
    using tasks_ok_table deps_ok_table queue_wf_table by (simp add: table_invariant_def)
qed (simp add: tasks_ok_def task_ok_def deps_ok_def dep_edges_def project_of_task_def find_task_def
    queue_wf_def items_ok_def queue_dense_def task_exists_def)

lemma timer_timers: "preserves timers_ok (stop_timer i)"
  unfolding stop_timer_def
  by (intro preserves_intro preserves_require preserves_ctx_now timers_ok_table timers_update_stopped)
    (simp_all add: running_entry_of_task_def preserves_intro)

interpretation foreign: foreign_invariant rest_ok
proof
  show "table_invariant rest_ok"
    using timers_ok_table tasks_ok_table deps_ok_table queue_wf_table by (simp add: table_invariant_def rest_ok_def)
  show "preserves rest_ok (stop_timer i)" for i
    using preserves_conj [OF timer_timers untimed_rest.untimed_ops(1), of i] unfolding rest_ok_def preserves_def by blast
qed (simp_all add: rest_ok_def tasks_ok_def task_ok_def timers_ok_def deps_ok_def dep_edges_def project_of_task_def find_task_def
    queue_wf_def items_ok_def queue_dense_def task_exists_def)

subsection \<open>The invariant of the whole store\<close>

definition store_ok :: "db \<Rightarrow> bool" where
  "store_ok s \<longleftrightarrow> flow_ok s \<and> rest_ok s"

lemma store_ok_split: "store_ok s \<longleftrightarrow> timers_ok s \<and> untimed_ok s"
  by (auto simp: store_ok_def rest_ok_def untimed_ok_def)

lemma store_ok_table: "table_invariant store_ok"
  using flow_ok_table foreign.table by (simp add: table_invariant_def store_ok_def)

lemma store_ok_steps: "preserves flow_ok m \<Longrightarrow> preserves rest_ok m \<Longrightarrow> preserves store_ok m"
  unfolding store_ok_def preserves_def by blast

lemma store_ok_timed: "preserves timers_ok m \<Longrightarrow> preserves untimed_ok m \<Longrightarrow> preserves store_ok m"
  unfolding store_ok_split preserves_def by blast

text \<open>Frames of the other services: their own tables are fine, the rest did not change.\<close>

lemma flow_ok_cong:
  assumes "flow_ok s" "task_steps t = task_steps s" "step_links t = step_links s" "step_visits t = step_visits s"
    and "tk_id ` set (tasks t) = tk_id ` set (tasks s)"
  shows "flow_ok t"
  using assms by (simp add: flow_ok_def steps_ok_def rows_ok_def dense_def positions_of_def links_ok_def visits_ok_def
      step_keys_def open_visits_def task_exists_def)

lemma store_ok_queue_frame: "queue_frame s t \<Longrightarrow> store_ok s \<Longrightarrow> store_ok t"
  unfolding store_ok_def rest_ok_def queue_frame_def
  using flow_ok_cong [of s t] same_tables_deps(1) [of s t]
  by (auto simp: same_tables_def tasks_ok_def task_ok_def timers_ok_def task_exists_def)

lemma store_ok_dep_frame: "dep_frame s t \<Longrightarrow> store_ok s \<Longrightarrow> store_ok t"
  unfolding store_ok_def rest_ok_def dep_frame_def
  using flow_ok_cong [of s t]
  by (auto simp: tasks_ok_def task_ok_def timers_ok_def queue_wf_def items_ok_def queue_dense_def task_exists_def)

lemma task_keys_projects:
  assumes "task_keys t = task_keys s"
  shows "project_of_task t i = project_of_task s i" "tk_id ` set (tasks t) = tk_id ` set (tasks s)"
proof -
  have find: "map_option tk_project_id (find_row tk_id i ts) = map_option tk_project_id (find_row tk_id i ts')"
    if "map (\<lambda>t. (tk_id t, tk_project_id t, tk_label t, tk_kind t)) ts = map (\<lambda>t. (tk_id t, tk_project_id t, tk_label t, tk_kind t)) ts'" for ts ts'
    using that by (induction ts arbitrary: ts') (auto simp: find_row_def Cons_eq_map_conv)
  then show "project_of_task t i = project_of_task s i"
    using assms by (simp add: project_of_task_def find_task_def task_keys_def)
  have "map tk_id (tasks t) = map fst (task_keys t)" "map tk_id (tasks s) = map fst (task_keys s)"
    by (simp_all add: task_keys_def comp_def)
  then show "tk_id ` set (tasks t) = tk_id ` set (tasks s)" using assms by (metis list.set_map)
qed

lemma store_ok_review_frame: "review_frame s t \<Longrightarrow> store_ok s \<Longrightarrow> store_ok t"
  unfolding store_ok_def rest_ok_def review_frame_def
  using flow_ok_cong [of s t] deps_ok_cong [of s t] task_keys_projects [of t s]
  by (auto simp: queue_wf_def items_ok_def queue_dense_def task_exists_def)

lemma frame_store_ok:
  assumes "\<And>s t. F s t \<Longrightarrow> store_ok s \<Longrightarrow> store_ok t" "\<And>s. store_ok s \<Longrightarrow> F s s" "\<And>base. preserves (F base) m"
  shows "preserves store_ok m"
  using assms unfolding preserves_def by blast

lemma store_ok_frames: "store_ok s \<Longrightarrow> queue_frame s s" "store_ok s \<Longrightarrow> dep_frame s s" "store_ok s \<Longrightarrow> review_frame s s"
  by (simp_all add: store_ok_def rest_ok_def queue_frame_refl dep_frame_refl review_frame_refl)

lemmas store_ok_by_queue = frame_store_ok [where F = queue_frame, OF store_ok_queue_frame store_ok_frames(1)]
  and store_ok_by_deps = frame_store_ok [where F = dep_frame, OF store_ok_dep_frame store_ok_frames(2)]
  and store_ok_by_review = frame_store_ok [where F = review_frame, OF store_ok_review_frame store_ok_frames(3)]

lemma store_ok_ctx [preserves_intro]:
  "preserves store_ok ctx_now" "preserves store_ok random_id" "preserves store_ok (tx_publish e)"
  by (intro preserves_ctx_now preserves_random_id preserves_tx_publish store_ok_table)+

end
