(* ===== verification/Task_Authoring.thy ===== *)
theory Task_Authoring
  imports Foreign_Tables
begin

section \<open>Tasks a session creates and files under epics\<close>

text \<open>
  \<^verbatim>\<open>rekall-core/src/task\<close>: \<^verbatim>\<open>TaskAuthoringService\<close> creates a task or an epic together with the steps and routes of a plan, in one
  transaction; \<^verbatim>\<open>EpicMembershipService\<close> files a task under an epic of its project. The last part shows what a creation leaves in
  the tables and that both keep the invariant of the store.
\<close>

subsection \<open>Operations\<close>

record task_brief =
  bf_title :: "str option"
  bf_label :: "str option"
  bf_description :: "str option"
  bf_kind :: task_kind
  bf_epic :: "str option"

record created_task =
  cr_title :: str
  cr_kind :: task_kind
  cr_task_anchor :: str
  cr_steps :: nat
  cr_routes :: nat

record epic_joined =
  ej_task_anchor :: str
  ej_epic_anchor :: str
  ej_epic_title :: str
  ej_left :: "str option"

text \<open>The table's own constraints on a new row: its project, its epic, and one label per project.\<close>

definition new_task_ok :: "db \<Rightarrow> task \<Rightarrow> bool" where
  "new_task_ok s t = (task_ok s t \<and> (case tk_epic_id t of None \<Rightarrow> True | Some e \<Rightarrow> task_exists s e)
     \<and> list_all (\<lambda>x. \<not> (tk_project_id x = tk_project_id t \<and> tk_label x = tk_label t)) (tasks s))"

definition insert_new_task :: "task \<Rightarrow> task action" where
  "insert_new_task = insert_row tasks tasks_update tk_id new_task_ok"

interpretation new_task_table: keyed_table tasks tasks_update tk_id new_task_ok
  by unfold_locales simp

definition task_required_title :: "str option \<Rightarrow> str result" where
  "task_required_title title = (case present title of
       None \<Rightarrow> Inl (IllegalArgument (Msg ''A task needs a title'' []))
     | Some t \<Rightarrow> Inr t)"

definition require_plan_fits :: "unicode_case \<Rightarrow> flow_plan \<Rightarrow> unit result" where
  "require_plan_fits u plan = (if plan = [] then Inr () else check_as_written u plan)"

definition require_epic_stepless :: "task_kind \<Rightarrow> flow_plan \<Rightarrow> unit result" where
  "require_epic_stepless kind plan = refuse_if (kind = Epic \<and> plan \<noteq> []) (IllegalArgument (Msg ''An epic holds no steps'' []))"

definition require_label_free :: "unicode_case \<Rightarrow> task \<Rightarrow> unit action" where
  "require_label_free u t = tx_bind (tx_gets (label_taken u (tk_project_id t) (tk_label t) None)) (\<lambda>taken.
     if taken then tx_fail (IllegalArgument (Msg ''Another task on this project already uses the label'' [tk_label t])) else tx_ok ())"

definition file_under :: "unicode_case \<Rightarrow> project \<Rightarrow> str option \<Rightarrow> task \<Rightarrow> task action" where
  "file_under u p epic t = (case epic of
       None \<Rightarrow> tx_ok t
     | Some epic_label \<Rightarrow> tx_bind (resolve_task u (Some (pr_label p)) epic_label) (\<lambda>e.
         tx_bind (tx_lift (require_joinable t e)) (\<lambda>_. tx_ok (t\<lparr>tk_epic_id := Some (tk_id e)\<rparr>))))"

definition task_create_in :: "unicode_case \<Rightarrow> str \<Rightarrow> task_brief \<Rightarrow> flow_plan \<Rightarrow> created_task action" where
  "task_create_in u project_label brief plan =
     tx_bind (resolve_project u project_label) (\<lambda>p.
     tx_bind (tx_lift (task_required_title (bf_title brief))) (\<lambda>title.
     tx_bind (tx_lift (slug_of u (Some (case bf_label brief of Some l \<Rightarrow> l | None \<Rightarrow> title)))) (\<lambda>label.
     tx_bind ctx_now (\<lambda>now.
     tx_bind random_id (\<lambda>i.
     let described = (task_new i label title (pr_id p) now)\<lparr>tk_description := present (bf_description brief), tk_kind := bf_kind brief\<rparr>
     in tx_bind (file_under u p (bf_epic brief) described) (\<lambda>t.
        tx_bind (tx_lift (task_validate t)) (\<lambda>_.
        tx_bind (require_label_free u t) (\<lambda>_.
        tx_bind (insert_new_task t) (\<lambda>_.
        tx_bind (tx_publish (TaskStreamEvent (tk_id t) (pr_id p))) (\<lambda>_.
        tx_bind (lay_in u (tk_id t) plan) (\<lambda>laid.
        tx_bind (release_drafts_in (tk_id t)) (\<lambda>_.
        tx_bind (publish_steps_in (tk_id t)) (\<lambda>_.
        tx_ok \<lparr>cr_title = tk_title t, cr_kind = tk_kind t, cr_task_anchor = task_anchor t (pr_label p),
          cr_steps = pf_steps laid, cr_routes = pf_routes laid\<rparr>)))))))))))))"

definition task_create :: "unicode_case \<Rightarrow> str \<Rightarrow> task_brief \<Rightarrow> flow_plan \<Rightarrow> db \<Rightarrow> created_task result \<times> db" where
  "task_create u project_label brief plan s = (case require_plan_fits u plan of
       Inl e \<Rightarrow> (Inl e, s)
     | Inr _ \<Rightarrow> (case require_epic_stepless (bf_kind brief) plan of
           Inl e \<Rightarrow> (Inl e, s)
         | Inr _ \<Rightarrow> in_write (task_create_in u project_label brief plan) s))"

definition epic_left :: "task \<Rightarrow> task \<Rightarrow> str option action" where
  "epic_left t epic = (case tk_epic_id t of
       None \<Rightarrow> tx_ok None
     | Some current \<Rightarrow> if current = tk_id epic then tx_ok None
         else tx_bind (require_task current) (\<lambda>x. tx_ok (Some (tk_label x))))"

definition epic_join_in :: "unicode_case \<Rightarrow> str option \<Rightarrow> str \<Rightarrow> str \<Rightarrow> epic_joined action" where
  "epic_join_in u project_label task_label epic_label =
     tx_bind (resolve_task u project_label task_label) (\<lambda>before.
     tx_bind (project_of before) (\<lambda>p.
     tx_bind (resolve_task u (Some (pr_label p)) epic_label) (\<lambda>epic.
     tx_bind (tx_lift (require_joinable before epic)) (\<lambda>_.
     tx_bind (epic_left before epic) (\<lambda>left.
     tx_bind (save_task before (before\<lparr>tk_epic_id := Some (tk_id epic)\<rparr>)) (\<lambda>_.
     tx_bind (tx_publish (TaskStreamEvent (tk_id before) (pr_id p))) (\<lambda>_.
     tx_ok \<lparr>ej_task_anchor = task_anchor before (pr_label p), ej_epic_anchor = task_anchor epic (pr_label p),
       ej_epic_title = tk_title epic, ej_left = left\<rparr>)))))))"

definition epic_join :: "unicode_case \<Rightarrow> str option \<Rightarrow> str \<Rightarrow> str \<Rightarrow> db \<Rightarrow> epic_joined result \<times> db" where
  "epic_join u project_label task_label epic_label = in_write (epic_join_in u project_label task_label epic_label)"

lemmas authoring_run [run_defs] = new_task_ok_def insert_new_task_def task_required_title_def require_plan_fits_def require_epic_stepless_def
  require_label_free_def file_under_def task_create_in_def task_create_def epic_left_def epic_join_in_def epic_join_def

subsection \<open>The store stays well formed\<close>

lemma store_ok_new_task:
  assumes ok: "store_ok s" and row: "task_validate t = Inr ()" "task_moments_ok t" "task_ok s t" "tk_id t \<notin> tk_id ` set (tasks s)"
  shows "store_ok (s\<lparr>tasks := tasks s @ [t]\<rparr>)"
proof -
  let ?s = "s\<lparr>tasks := tasks s @ [t]\<rparr>"
  have exists: "task_exists s i \<Longrightarrow> task_exists ?s i" for i by (simp add: task_exists_def)
  have "flow_ok ?s" using ok exists
    by (auto simp: store_ok_def flow_ok_def steps_ok_def rows_ok_def dense_def positions_of_def links_ok_def visits_ok_def step_keys_def open_visits_def)
  moreover have "tasks_ok ?s" using ok row by (auto simp: store_ok_def rest_ok_def tasks_ok_def task_ok_def)
  moreover have "timers_ok ?s" using ok exists by (auto simp: store_ok_def rest_ok_def timers_ok_def)
  moreover have "deps_ok ?s"
  proof -
    have "project_of_task ?s i = Some p" if "project_of_task s i = Some p" for i p
      using that by (auto simp: project_of_task_def find_task_def find_row_append split: option.splits)
    moreover have "dep_edges ?s = dep_edges s" by (simp add: dep_edges_def)
    ultimately show ?thesis using ok unfolding store_ok_def rest_ok_def deps_ok_def by fastforce
  qed
  moreover have "queue_wf ?s" using ok exists by (auto simp: store_ok_def rest_ok_def queue_wf_def items_ok_def queue_dense_def)
  ultimately show ?thesis by (simp add: store_ok_def rest_ok_def)
qed

subsection \<open>What a creation leaves behind\<close>

interpretation task_rows_untimed: untimed_invariant "\<lambda>s. tasks s = ts" for ts
  by unfold_locales (simp_all add: table_invariant_def)

interpretation task_rows: foreign_invariant "\<lambda>s. tasks s = ts" for ts
  using task_rows_untimed.untimed_ops(1) by unfold_locales (simp_all add: table_invariant_def)

lemma file_under_cases:
  assumes "file_under u p epic t s = Inr (t', s')"
  obtains "epic = None" "t' = t" "s' = s"
  | x where "x \<in> set (tasks s)" "is_epic x" "tk_project_id x = tk_project_id t" "\<not> is_epic t" "t' = t\<lparr>tk_epic_id := Some (tk_id x)\<rparr>" "s' = s"
proof (cases epic)
  case None
  then show ?thesis using assms that(1) by (simp add: file_under_def tx_ok_def)
next
  case (Some label)
  then obtain x where x: "resolve_task u (Some (pr_label p)) label s = Inr (x, s)" "require_joinable t x = Inr ()"
      and t': "t' = t\<lparr>tk_epic_id := Some (tk_id x)\<rparr>" "s' = s"
    using assms by (auto simp: file_under_def tx_bind_Inr dest: resolve_task_Inr(1))
  have "x \<in> set (tasks s)" "is_epic x" "tk_project_id x = tk_project_id t" "\<not> is_epic t"
    using resolve_task_Inr(2) [OF x(1)] x(2) by (auto simp: require_joinable_def split: if_splits)
  then show ?thesis using t' by (rule that(2))
qed

lemma resolve_project_Inr: "resolve_project u label s = Inr (p, s') \<Longrightarrow> s' = s \<and> p \<in> set (projects s)"
proof -
  assume "resolve_project u label s = Inr (p, s')"
  then have found: "s' = s" "projects_by_label u label s = [p]" by (auto simp: resolve_project_def tx_bind_Inr Let_def split: list.splits)
  have "p \<in> set (projects_by_label u label s)" using found(2) by simp
  then show ?thesis using found(1) by (simp add: projects_by_label_def)
qed

lemma label_free_Inr: "require_label_free u t s = Inr (x, s') \<longleftrightarrow> \<not> label_taken u (tk_project_id t) (tk_label t) None s \<and> s' = s"
  by (auto simp: require_label_free_def tx_bind_Inr)

lemma tx_map_length: "tx_map f xs s = Inr (ys, t) \<Longrightarrow> length ys = length xs"
  by (induction xs arbitrary: s ys) (auto simp: tx_bind_Inr)

lemma lay_in_counts: "lay_in u i plan s = Inr (laid, t) \<Longrightarrow> pf_steps laid = length plan \<and> pf_routes laid = route_count plan"
  by (auto simp: lay_in_def tx_bind_Inr dest: tx_map_length)

text \<open>The row of a new task: its names from the brief, its work still to do, an epic of its own project or none.\<close>

definition fresh_task :: "unicode_case \<Rightarrow> task_brief \<Rightarrow> db \<Rightarrow> task \<Rightarrow> bool" where
  "fresh_task u brief s t \<longleftrightarrow> tk_id t \<notin> tk_id ` set (tasks s) \<and> tk_project_id t \<in> pr_id ` set (projects s)
     \<and> task_required_title (bf_title brief) = Inr (tk_title t)
     \<and> slug_of u (Some (case bf_label brief of Some l \<Rightarrow> l | None \<Rightarrow> tk_title t)) = Inr (tk_label t)
     \<and> tk_description t = present (bf_description brief) \<and> tk_kind t = bf_kind brief \<and> tk_status t = Todo \<and> tk_review_state t = Open
     \<and> task_validate t = Inr () \<and> \<not> label_taken u (tk_project_id t) (tk_label t) None s
     \<and> (case tk_epic_id t of None \<Rightarrow> bf_epic brief = None
        | Some e \<Rightarrow> \<exists>x \<in> set (tasks s). tk_id x = e \<and> is_epic x \<and> tk_project_id x = tk_project_id t \<and> \<not> is_epic t)"

lemma store_ok_lay: "preserves store_ok (lay_in u i plan)"
  by (rule store_ok_steps [OF flow_ok_lay_in foreign.foreign_plans(3)])

lemma store_ok_release: "preserves store_ok (release_drafts_in i)"
  by (rule store_ok_steps [OF frame_release_drafts_in [THEN frame_flow_ok] foreign.foreign_step_adds(4)])

lemma task_create_in_run:
  assumes ok: "store_ok s" and run: "task_create_in u project_label brief plan s = Inr (created, t)"
  shows "\<exists>row. fresh_task u brief s row \<and> tasks t = tasks s @ [row] \<and> store_ok t
    \<and> cr_steps created = length plan \<and> cr_routes created = route_count plan"
proof -
  let ?described = "\<lambda>i label title p now. (task_new i label title (pr_id p) now)\<lparr>tk_description := present (bf_description brief), tk_kind := bf_kind brief\<rparr>"
  obtain p title label now i s0 row s1 s1' s2 s3 laid s4 s5 where p: "resolve_project u project_label s = Inr (p, s0)"
    and title: "task_required_title (bf_title brief) = Inr title"
    and label: "slug_of u (Some (case bf_label brief of Some l \<Rightarrow> l | None \<Rightarrow> title)) = Inr label"
    and filed: "file_under u p (bf_epic brief) (?described i label title p now) (s0\<lparr>clock := stl (clock s0), entropy := stl (entropy s0)\<rparr>) = Inr (row, s1)"
    and valid: "task_validate row = Inr ()" and free: "require_label_free u row s1 = Inr ((), s1')"
    and insert: "insert_new_task row s1' = Inr (row, s2)"
    and event: "tx_publish (TaskStreamEvent (tk_id row) (pr_id p)) s2 = Inr ((), s3)"
    and laid: "lay_in u (tk_id row) plan s3 = Inr (laid, s4)"
    and released: "release_drafts_in (tk_id row) s4 = Inr ((), s5)" and published: "publish_steps_in (tk_id row) s5 = Inr ((), t)"
    and answer: "cr_steps created = pf_steps laid" "cr_routes created = pf_routes laid"
    using run unfolding task_create_in_def Let_def
    by (auto simp: tx_bind_Inr ctx_now_def random_id_def insert_new_task_def new_task_table.insert_Inr)
  have p: "s0 = s" "p \<in> set (projects s)" using resolve_project_Inr [OF p] by simp_all
  let ?s = "s\<lparr>clock := stl (clock s), entropy := stl (entropy s)\<rparr>"
  have states: "s1 = ?s" "s1' = ?s" "\<not> label_taken u (tk_project_id row) (tk_label row) None s"
    using filed free by (auto simp: p label_free_Inr label_taken_def elim: file_under_cases)
  have new: "tk_id row \<notin> tk_id ` set (tasks s)" "new_task_ok ?s row" and s2: "s2 = ?s\<lparr>tasks := tasks s @ [row]\<rparr>"
    using insert by (auto simp: insert_new_task_def new_task_table.insert_Inr states)
  have cols: "tk_title row = title" "tk_label row = label" "tk_project_id row = pr_id p" "tk_description row = present (bf_description brief)"
    "tk_kind row = bf_kind brief" "tk_status row = Todo" "tk_review_state row = Open" "task_moments_ok row"
    and epic: "case tk_epic_id row of None \<Rightarrow> bf_epic brief = None
      | Some e \<Rightarrow> \<exists>x \<in> set (tasks s). tk_id x = e \<and> is_epic x \<and> tk_project_id x = tk_project_id row \<and> \<not> is_epic row"
    using filed [unfolded p(1)] by (auto simp: task_new_def task_moments_ok_def is_epic_def elim!: file_under_cases)
  have row: "fresh_task u brief s row"
    unfolding fresh_task_def cols(1) using title label valid new(1) states(3) p(2) epic cols by simp
  have "store_ok (?s\<lparr>tasks := tasks ?s @ [row]\<rparr>)" using ok new cols(8) valid
    by (intro store_ok_new_task) (simp_all add: new_task_ok_def table_invariantD [OF store_ok_table])
  then have "store_ok s2" by (simp add: s2)
  then have "store_ok s3" "tasks s3 = tasks s @ [row]" using event by (auto simp: tx_publish_def tx_modify_def table_invariantD [OF store_ok_table] s2)
  then have "store_ok s4" "tasks s4 = tasks s @ [row]"
    using preservesD [OF store_ok_lay] preservesD [OF task_rows.foreign_plans(3)] laid by blast+
  then have "store_ok s5" "tasks s5 = tasks s @ [row]"
    using preservesD [OF store_ok_release] preservesD [OF task_rows.foreign_step_adds(4)] released by blast+
  then have "store_ok t" "tasks t = tasks s @ [row]"
    using preservesD [OF preserves_publish_steps [OF store_ok_table]] preservesD [OF preserves_publish_steps [OF task_rows.table]] published by blast+
  then show ?thesis using row lay_in_counts [OF laid] answer by auto
qed

lemma store_ok_create: "preserves store_ok (task_create_in u project_label brief plan)"
  by (rule preservesI) (auto dest: task_create_in_run)

lemma frame_join: "preserves (review_frame base) (epic_join_in u project_label task_label epic_label)"
proof (rule preservesI)
  fix s joined t assume frame: "review_frame base s" and run: "epic_join_in u project_label task_label epic_label s = Inr (joined, t)"
  obtain before p epic x s0 s1 s2 s3 s4 left where read: "resolve_task u project_label task_label s = Inr (before, s0)" "project_of before s0 = Inr (p, s1)"
      "resolve_task u (Some (pr_label p)) epic_label s1 = Inr (epic, s2)" "epic_left before epic s2 = Inr (left, s3)"
    and saved: "save_task before (before\<lparr>tk_epic_id := Some (tk_id epic)\<rparr>) s3 = Inr (x, s4)"
    and t: "tx_publish (TaskStreamEvent (tk_id before) (pr_id p)) s4 = Inr ((), t)"
    using run unfolding epic_join_in_def by (auto simp: tx_bind_Inr)
  have "s3 = s2" using read(4) by (auto simp: epic_left_def tx_bind_Inr require_task_Inr split: option.splits if_splits)
  then have save: "save_task before (before\<lparr>tk_epic_id := Some (tk_id epic)\<rparr>) s = Inr (x, s4)" and before: "before \<in> set (tasks s)"
    using saved read(2) resolve_task_Inr(1) [OF read(3)] resolve_task_Inr(1,2) [OF read(1)] by (simp_all add: project_of_Inr)
  have ok: "distinct (map tk_id (tasks s))" "task_moments_ok before" "task_validate before = Inr ()"
    using frame before by (auto simp: review_frame_def tasks_ok_def)
  obtain u where x: "x = before\<lparr>tk_epic_id := Some (tk_id epic), tk_updated_at := u\<rparr>"
    and s4: "s4 = s\<lparr>tasks := replace_row tk_id x (tasks s), clock := stl (clock s)\<rparr>"
    using save_task_Inr [OF save ok(1) before] by auto
  have "review_frame base s4" unfolding s4
    using ok by (intro review_frame_save [OF frame before]) (simp_all add: x task_moments_ok_def task_validate_def cong: task_step_state.case_cong)
  then show "review_frame base t" using t by (auto simp: tx_publish_def tx_modify_def)
qed

lemma store_ok_join: "preserves store_ok (epic_join_in u project_label task_label epic_label)"
  by (auto intro: store_ok_by_review frame_join)


definition epic_db :: db where
  "epic_db = empty_db\<lparr>projects := [sample_project], tasks := [sample_task\<lparr>tk_kind := Epic\<rparr>]\<rparr>"

lemma epic_db_ok: "store_ok epic_db"
  by (simp add: store_ok_def flow_ok_def rest_ok_def steps_ok_def rows_ok_def dense_def positions_of_def links_ok_def visits_ok_def step_keys_def
      open_visits_def tasks_ok_def timers_ok_def deps_ok_def dep_edges_def queue_wf_def items_ok_def queue_dense_def task_moments_ok_def
      acyclic_def epic_db_def run_defs)


end
