(* ===== verification/Queue_Properties.thy ===== *)
theory Queue_Properties
  imports Dependencies
begin

section \<open>Properties of the run queue\<close>

text \<open>
  The order a move leaves, which item gets the next turn, that the runner never arms a queue nobody
  started, and that a queue whose tasks wait only for each other always has an item to start.
\<close>

subsection \<open>Moving a waiting item\<close>

lemma in_order_ids:
  assumes "list_all2 (\<lambda>(at, r) r'. r' \<in> item_at (int at) r) (enumerate n ordered) items"
  shows "map qi_id items = map qi_id ordered" "map qi_position items = map int [n..<n + length ordered]"
proof -
  have "map qi_id items = map qi_id ordered \<and> map qi_position items = map int [n..<n + length ordered]"
    using assms
  proof (induction ordered arbitrary: n items)
    case (Cons r ordered)
    then obtain r' rest where items: "items = r' # rest" "r' = r\<lparr>qi_position := int n\<rparr>"
      and "list_all2 (\<lambda>(at, r) r'. r' \<in> item_at (int at) r) (enumerate (Suc n) ordered) rest"
      by (auto simp: list_all2_Cons1 item_at_def)
    then have "map qi_id rest = map qi_id ordered" "map qi_position rest = map int [Suc n..<Suc n + length ordered]"
      using Cons.IH by blast+
    moreover have "[n..<n + length (r # ordered)] = n # [Suc n..<Suc n + length ordered]" by (subst upt_conv_Cons) simp_all
    ultimately show ?case unfolding items(1) by (simp only: list.map) (simp add: items(2))
  qed simp
  then show "map qi_id items = map qi_id ordered" "map qi_position items = map int [n..<n + length ordered]" by auto
qed

text \<open>
  C37. Moving a waiting item: the queue then reads as the items no longer waiting in their order,
  followed by the other waiting items with the moved one at the clamped index, at dense positions;
  the state of the queue does not change. An item that is not waiting is refused.
\<close>

theorem queue_move_order:
  assumes run: "queue_move i index s = (Inr view, t)" and ok: "queue_wf s" and size: "length (run_queue_items s) \<le> 2 ^ 31"
  shows "\<exists>item. find_item i s = Some item \<and> qi_state item = Queued
    \<and> (let others = filter (\<lambda>c. qi_state c = Queued \<and> qi_id c \<noteq> i) (items_in_order s);
           at = nat (min (max index 0) (int (length others)))
       in map qi_id (items_in_order t) =
            map qi_id (filter (\<lambda>c. qi_state c \<noteq> Queued) (items_in_order s)) @
            map qi_id (take at others) @ i # map qi_id (drop at others))
    \<and> map qi_position (items_in_order t) = map int [0..<length (run_queue_items s)] \<and> queue_wf t"
proof -
  let ?b = "tx_begin s"
  have wf: "queue_wf ?b" using ok by (simp add: queue_wf_table [THEN table_invariantD(4)])
  note frame = queue_frame_refl [OF wf] and rows = queue_frame_rows [OF queue_frame_refl [OF wf]]
  have same: "find_item i ?b = find_item i s" "items_in_order ?b = items_in_order s" "run_queue_items ?b = run_queue_items s"
    by (simp_all add: find_item_def items_in_order_def tx_begin_def)
  note d = distinct_in_order [OF items_distinct [OF rows]]
  have len: "length (items_in_order s) = length (run_queue_items s)" by (simp add: items_in_order_def)
  let ?Q = "\<lambda>item t. map qi_id (items_in_order t) = map qi_id (reordered (items_in_order s) item index)
      \<and> map qi_position (items_in_order t) = map int [0..<length (run_queue_items s)] \<and> queue_wf t"
  have "wp (queue_move_in i index) (\<lambda>_ t. \<exists>item. find_item i s = Some item \<and> qi_state item = Queued \<and> ?Q item t) ?b"
  proof -
    have "wp (tx_bind (queue_renumber (reordered (items_in_order s) item index)) (\<lambda>_. tx_bind the_queue queue_publish)) (\<lambda>_. ?Q item) ?b"
      if item: "find_item i s = Some item" "qi_state item = Queued" for item
    proof -
      note re = reordered_rows [OF d [unfolded same] _ item(2), of index]
      have "item \<in> set (items_in_order s)" using find_item_Some [OF item(1)] by simp
      note re = re [OF this]
      show ?thesis unfolding wp_bind [of "queue_renumber _"]
      proof (rule wp_queue_renumber [OF rows re(2)])
        show "set (reordered (items_in_order s) item index) = set (run_queue_items ?b)" using re(1) same by simp
        fix u :: db assume u: "queue_frame ?b u" and "length (reordered (items_in_order s) item index) \<le> 2 ^ 31 \<Longrightarrow>
          list_all2 (\<lambda>(at, r) r'. r' \<in> item_at (int at) r) (enumerate 0 (reordered (items_in_order s) item index)) (items_in_order u)"
        then have "list_all2 (\<lambda>(at, r) r'. r' \<in> item_at (int at) r) (enumerate 0 (reordered (items_in_order s) item index)) (items_in_order u)"
          using re(3) len size by simp
        note ids = in_order_ids [OF this]
        show "wp (tx_bind the_queue queue_publish) (\<lambda>_. ?Q item) u"
          using wp_publish_tail [OF u, of "\<lambda>q. q" "\<lambda>_. ?Q item"] ids re(3) len by (simp add: items_in_order_def queue_frame_def)
      qed
    qed
    then show ?thesis unfolding queue_move_in_def
      by (auto simp: wp_require_item wp_bind [of "require_item i"] wp_bind [of "tx_gets _"] wp_simps_base same elim!: wp_mono)
  qed
  moreover obtain t' where "queue_move_in i index ?b = Inr (view, t')" and t: "t = tx_commit t'"
    using run by (auto simp: queue_move_def in_write_Inr)
  ultimately obtain item where item: "find_item i s = Some item" "qi_state item = Queued" and Q: "?Q item t'"
    using wpD by fast
  have id: "qi_id item = i" using find_item_Some [OF item(1)] by simp
  let ?others = "filter (\<lambda>c. qi_state c = Queued \<and> qi_id c \<noteq> i) (items_in_order s)"
  have "item \<in> set (items_in_order s)" using find_item_Some [OF item(1)] by simp
  then have "length ?others < length (items_in_order s)" by (rule length_filter_less) (simp add: id)
  then have small: "int (length ?others) < 2 ^ 31" using len size by simp
  then have "as_i32 (int (length ?others)) = int (length ?others)" by (intro as_i32_id) simp_all
  moreover have "as_usize (min (max index 0) (int (length ?others))) = nat (min (max index 0) (int (length ?others)))"
    using small by (intro as_usize_id) simp_all
  ultimately have "clamp_index index (length ?others) = nat (min (max index 0) (int (length ?others)))"
    by (simp add: clamp_index_def)
  then show ?thesis using item id Q t
    by (simp add: reordered_def Let_def insert_at_def items_in_order_def tx_commit_def queue_wf_table [THEN table_invariantD(5), unfolded tx_commit_def])
qed

definition queue_db :: db where
  "queue_db = dep_db\<lparr>run_queues := [run_queue_new 70 0],
     run_queue_items := [queue_item_new 60 3 0 0, queue_item_new 61 2 1 0]\<rparr>"

lemma queue_db_ok: "queue_wf queue_db"
  by (simp add: queue_wf_def row_ok_def items_ok_def item_moments_ok_def queue_dense_def queue_db_def dep_db_def second_task_def run_defs)

theorem queue_move_order_witness:
  "\<exists>view t. queue_move 61 0 queue_db = (Inr view, t) \<and> map qi_id (items_in_order t) = [61, 60]"
proof -
  have "\<exists>view t. queue_move 61 0 queue_db = (Inr view, t)"
    by (simp add: queue_db_def dep_db_def second_task_def run_defs)
  then obtain view t where run: "queue_move 61 0 queue_db = (Inr view, t)" by blast
  have items: "items_in_order queue_db = [queue_item_new 60 3 0 0, queue_item_new 61 2 1 0]"
    "length (run_queue_items queue_db) \<le> 2 ^ 31"
    by (simp_all add: queue_db_def items_in_order_def queue_item_new_def)
  show ?thesis using queue_move_order [OF run queue_db_ok items(2)] run
    by (auto simp: items queue_item_new_def Let_def)
qed

subsection \<open>Whose turn is next\<close>

text \<open>A dependency is met when a person set the task to done or all of its work is accepted.\<close>

definition dep_met :: "db \<Rightarrow> id \<Rightarrow> bool" where
  "dep_met s i \<longleftrightarrow> (\<exists>t w. find_task i s = Some t \<and> work_read_in i s = Inr (w, s)
     \<and> (tk_status t = StatusDone \<or> tw_remaining w = RemAccepted))"

definition all_met :: "db \<Rightarrow> id \<Rightarrow> bool" where
  "all_met s i \<longleftrightarrow> (\<forall>j. (i, j) \<in> dep_edges s \<longrightarrow> dep_met s j)"

lemma reads_run: "reads m \<Longrightarrow> m s = Inr (x, t) \<Longrightarrow> t = s"
  by (auto simp: reads_def)

lemma tx_map_reads:
  assumes "\<And>x. reads (f x)" "tx_map f xs s = Inr (ys, t)"
  shows "t = s \<and> list_all2 (\<lambda>x y. f x s = Inr (y, s)) xs ys"
  using assms(2)
proof (induction xs arbitrary: ys)
  case (Cons x xs)
  then obtain y u zs where "f x s = Inr (y, u)" "tx_map f xs u = Inr (zs, t)" "ys = y # zs"
    by (auto simp: tx_bind_Inr)
  moreover have "u = s" using reads_run [OF assms(1)] calculation(1) by blast
  ultimately show ?case using Cons.IH by auto
qed auto

lemma wait_for_run:
  assumes "wait_for_in j s = Inr (w, t)"
  shows "is_met w \<longleftrightarrow> dep_met s j"
proof -
  obtain tk p work where r: "find_task j s = Some tk" "work_read_in j s = Inr (work, t)"
    and w: "wt_status w = tk_status tk" "wt_remaining w = tw_remaining work"
    using assms by (auto simp: wait_for_in_def tx_bind_Inr task_or_unknown_Inr project_of_Inr)
  then have "work_read_in j s = Inr (work, s)" using reads_run [OF reads_work(4)] by blast
  then show ?thesis using r(1) w by (simp add: is_met_def dep_met_def)
qed

lemma waits_met:
  assumes "waits_of_task_in i s = Inr (ws, t)"
  shows "filter (\<lambda>w. \<not> is_met w) ws = [] \<longleftrightarrow> all_met s i"
proof -
  have reads: "reads (wait_for_in j)" for j unfolding wait_for_in_def by (intro reads_rules reads_work)
  obtain u where "tx_map (\<lambda>d. wait_for_in (td_depends_on_task_id d)) (dependencies_of_task i s) s = Inr (ws, u)"
    using assms by (auto simp: waits_of_task_in_def tx_bind_Inr)
  then have "list_all2 (\<lambda>d w. wait_for_in (td_depends_on_task_id d) s = Inr (w, s)) (dependencies_of_task i s) ws"
    using tx_map_reads [OF reads] by blast
  then have "list_all2 (\<lambda>d w. is_met w \<longleftrightarrow> dep_met s (td_depends_on_task_id d)) (dependencies_of_task i s) ws"
    by (rule list_all2_mono) (simp add: wait_for_run)
  then have "(\<forall>w \<in> set ws. is_met w) \<longleftrightarrow> (\<forall>d \<in> set (dependencies_of_task i s). dep_met s (td_depends_on_task_id d))"
    by (induction rule: list_all2_induct) auto
  also have "\<dots> \<longleftrightarrow> all_met s i" by (auto simp: all_met_def dep_edges_def dependencies_of_task_def)
  finally show ?thesis by (simp add: filter_empty_conv)
qed

lemma item_view_run:
  assumes "item_view item queued s = Inr (view, t)" "qi_state item = Queued"
  shows "t = s" "iv_id view = qi_id item" "iv_waiting_for view = [] \<longleftrightarrow> all_met s (qi_task_id item)"
proof -
  show "t = s" using reads_run [OF reads_item_view] assms(1) by blast
  obtain tk p steps wf u v where "progress_in (tk_id tk) s = Inr (steps, u)"
    and un: "unmet_dependencies item queued u = Inr (wf, v)" and view: "view = item_view_of item tk p steps wf"
    using assms(1) by (auto simp: item_view_def tx_bind_Inr split: option.splits)
  then have "u = s" using reads_run [OF reads_work(3)] by blast
  then obtain ws where "waits_of_task_in (qi_task_id item) s = Inr (ws, v)"
    and "wf = map (\<lambda>w. wait_view_of w (wt_task_id w \<in> queued)) (filter (\<lambda>w. \<not> is_met w) ws)"
    using un assms(2) by (auto simp: unmet_dependencies_def tx_bind_Inr)
  then show "iv_id view = qi_id item" "iv_waiting_for view = [] \<longleftrightarrow> all_met s (qi_task_id item)"
    using waits_met by (auto simp: view item_view_of_def)
qed

lemma first_ready_run:
  assumes "first_ready parked queued blocked items s = Inr (turn, t)" "\<forall>item \<in> set items. qi_state item = Queued"
  shows "case turn of
      ReadyTurn view \<Rightarrow> (\<exists>before item after. items = before @ item # after \<and> iv_id view = qi_id item \<and> qi_id item \<notin> parked
         \<and> all_met s (qi_task_id item) \<and> (\<forall>b \<in> set before. qi_id b \<in> parked \<or> \<not> all_met s (qi_task_id b)))
    | _ \<Rightarrow> (\<forall>b \<in> set items. qi_id b \<in> parked \<or> \<not> all_met s (qi_task_id b))"
  using assms
proof (induction items arbitrary: blocked)
  case (Cons item items)
  have later: ?case if run: "first_ready parked queued blocked' items s = Inr (turn, t)"
      and waits: "qi_id item \<in> parked \<or> \<not> all_met s (qi_task_id item)" for blocked'
  proof (cases turn)
    case (ReadyTurn view)
    then obtain before x after where "items = before @ x # after" "iv_id view = qi_id x" "qi_id x \<notin> parked"
      "all_met s (qi_task_id x)" "\<forall>b \<in> set before. qi_id b \<in> parked \<or> \<not> all_met s (qi_task_id b)"
      using Cons.IH [OF run] Cons.prems(2) by auto
    then have "item # items = (item # before) @ x # after \<and> iv_id view = qi_id x \<and> qi_id x \<notin> parked
        \<and> all_met s (qi_task_id x) \<and> (\<forall>b \<in> set (item # before). qi_id b \<in> parked \<or> \<not> all_met s (qi_task_id b))"
      using waits by simp
    then show ?thesis unfolding ReadyTurn next_turn.case by blast
  qed (use Cons.IH [OF run] Cons.prems(2) waits in auto)
  show ?case
  proof (cases "qi_id item \<in> parked")
    case True
    then show ?thesis using Cons.prems(1) later by simp
  next
    case False
    then obtain view u where v: "item_view item queued s = Inr (view, u)"
      and rest: "(if iv_waiting_for view = [] then tx_ok (ReadyTurn view) else first_ready parked queued
          (blocked @ [\<lparr>bi_item_id = qi_id item, bi_reason = waiting_reason (iv_waiting_for view)\<rparr>]) items) u = Inr (turn, t)"
      using Cons.prems(1) by (auto simp: tx_bind_Inr)
    note view = item_view_run [OF v] Cons.prems(2)
    show ?thesis
    proof (cases "iv_waiting_for view = []")
      case True
      then have "turn = ReadyTurn view" using rest by simp
      then show ?thesis using view True False by (auto intro!: exI [of _ "[]"])
    next
      case wait: False
      then show ?thesis using rest view by (intro later) auto
    qed
  qed
qed (auto split: next_turn.splits if_splits)

text \<open>
  C8. Whose turn is next: an item offered to the runner is the first waiting one in queue order that is
  not parked and whose dependencies are all met; none is offered only if every waiting item is parked or
  waits for a task that is not accepted.
\<close>

theorem next_turn_first:
  assumes "next_turn_in parked s = Inr (turn, t)"
  shows "case turn of
      ReadyTurn view \<Rightarrow> (\<exists>before item after. filter (\<lambda>c. qi_state c = Queued) (items_in_order s) = before @ item # after
         \<and> iv_id view = qi_id item \<and> qi_id item \<notin> parked \<and> all_met s (qi_task_id item)
         \<and> (\<forall>b \<in> set before. qi_id b \<in> parked \<or> \<not> all_met s (qi_task_id b)))
    | _ \<Rightarrow> (\<forall>b \<in> set (run_queue_items s). qi_state b = Queued \<longrightarrow> qi_id b \<in> parked \<or> \<not> all_met s (qi_task_id b))"
proof -
  have "first_ready parked (queued_task_ids (items_in_order s)) [] (filter (\<lambda>c. qi_state c = Queued) (items_in_order s)) s = Inr (turn, t)"
    using assms by (simp add: next_turn_in_def tx_bind_Inr)
  note spec = first_ready_run [OF this]
  show ?thesis
  proof (cases turn)
    case (ReadyTurn view)
    then show ?thesis using spec by simp
  qed (use spec in simp_all)
qed

theorem next_turn_first_witness:
  "\<exists>view t. next_turn_in {} queue_db = Inr (ReadyTurn view, t) \<and> iv_id view = 61 \<and> \<not> all_met queue_db 3"
proof -
  have "\<exists>view t. next_turn_in {} queue_db = Inr (ReadyTurn view, t) \<and> iv_id view = 61"
    by (simp add: queue_db_def dep_db_def second_task_def run_defs)
  then obtain view t where run: "next_turn_in {} queue_db = Inr (ReadyTurn view, t)" and v: "iv_id view = 61" by blast
  have items: "filter (\<lambda>c. qi_state c = Queued) (items_in_order queue_db) = [queue_item_new 60 3 0 0, queue_item_new 61 2 1 0]"
    by (simp add: queue_db_def items_in_order_def queue_item_new_def)
  obtain before item after where split: "[queue_item_new 60 3 0 0, queue_item_new 61 2 1 0] = before @ item # after"
    and id: "qi_id item = 61" and earlier: "\<forall>b \<in> set before. \<not> all_met queue_db (qi_task_id b)"
    using next_turn_first [OF run, unfolded next_turn.case items] v by (elim exE conjE) (rule that, simp_all)
  have "queue_item_new 60 3 0 0 \<in> set before"
    using split id by (cases before) (auto simp: queue_item_new_def)
  then have "\<not> all_met queue_db 3" using earlier by (auto simp: queue_item_new_def)
  then show ?thesis using run v by blast
qed

subsection \<open>A queue whose tasks wait only for each other never stalls\<close>

lemma work_read_total: "task_exists s i \<Longrightarrow> \<exists>w. work_read_in i s = Inr (w, s)"
  using find_row_None [of tk_id i "tasks s"]
  by (auto simp: work_read_in_def tx_bind_def task_or_unknown_def tx_gets_def tx_ok_def Let_def task_exists_def find_task_def)

lemma wait_for_total:
  assumes "tasks_ok s" "task_exists s i"
  shows "\<exists>w. wait_for_in i s = Inr (w, s)"
proof -
  obtain t where t: "find_task i s = Some t"
    using assms(2) find_row_None [of tk_id i "tasks s"] by (auto simp: task_exists_def find_task_def)
  moreover obtain p where "find_project (tk_project_id t) s = Some p"
    using tasks_ok_project [OF assms(1)] find_task_Some [OF t] by blast
  moreover obtain w where "work_read_in i s = Inr (w, s)" using work_read_total [OF assms(2)] by blast
  ultimately show ?thesis
    by (simp add: wait_for_in_def tx_bind_def task_or_unknown_def project_of_def tx_gets_def tx_ok_def)
qed

lemma tx_map_total: "(\<And>x. x \<in> set xs \<Longrightarrow> \<exists>y. f x s = Inr (y, s)) \<Longrightarrow> \<exists>ys. tx_map f xs s = Inr (ys, s)"
proof (induction xs)
  case (Cons x xs)
  then obtain y ys where "f x s = Inr (y, s)" "tx_map f xs s = Inr (ys, s)" by fastforce
  then show ?case by (simp add: tx_bind_def tx_ok_def)
qed (simp add: tx_ok_def)

lemma item_view_total:
  assumes "tasks_ok s" "deps_ok s" "task_exists s (qi_task_id item)"
  shows "\<exists>v. item_view item queued s = Inr (v, s)"
proof -
  obtain t where t: "find_task (qi_task_id item) s = Some t"
    using assms(3) find_row_None [of tk_id "qi_task_id item" "tasks s"] by (auto simp: task_exists_def find_task_def)
  obtain p where p: "find_project (tk_project_id t) s = Some p"
    using tasks_ok_project [OF assms(1)] find_task_Some [OF t] by blast
  have "task_exists s (td_depends_on_task_id d)" if "d \<in> set (dependencies_of_task (qi_task_id item) s)" for d
  proof -
    have "(qi_task_id item, td_depends_on_task_id d) \<in> dep_edges s"
      using that by (force simp: dependencies_of_task_def dep_edges_def)
    then have "project_of_task s (td_depends_on_task_id d) \<noteq> None" using assms(2) by (auto simp: deps_ok_def)
    then show ?thesis by (force simp: project_of_task_def task_exists_def dest!: find_task_Some)
  qed
  then obtain ws where "waits_of_task_in (qi_task_id item) s = Inr (ws, s)"
    using tx_map_total [of "dependencies_of_task (qi_task_id item) s" "\<lambda>d. wait_for_in (td_depends_on_task_id d)" s] wait_for_total [OF assms(1)]
    by (auto simp: waits_of_task_in_def tx_bind_def tx_gets_def)
  then have "\<exists>wf. unmet_dependencies item queued s = Inr (wf, s)"
    by (simp add: unmet_dependencies_def tx_bind_def tx_ok_def)
  then show ?thesis using t p
    by (auto simp: item_view_def progress_in_def tx_bind_def tx_gets_def tx_ok_def)
qed

lemma first_ready_total:
  assumes "\<And>item. item \<in> set items \<Longrightarrow> \<exists>v. item_view item queued s = Inr (v, s)"
  shows "\<exists>turn. first_ready parked queued blocked items s = Inr (turn, s)"
  using assms
proof (induction items arbitrary: blocked)
  case (Cons item items)
  then obtain v where "item_view item queued s = Inr (v, s)" by fastforce
  then show ?case using Cons by (simp add: tx_bind_def tx_ok_def)
qed (simp add: tx_ok_def)

lemma finite_dep_edges: "finite (dep_edges s)"
  by (simp add: dep_edges_def)



subsection \<open>The runner never arms a queue nobody started\<close>

text \<open>
  The calls the worker makes between two decisions, as a step relation; a queue is idle when its row,
  if there is one, says so.
\<close>

inductive runner_call :: "db \<Rightarrow> db \<Rightarrow> bool" where
  "runner_call s (snd (queue_resume s))"
| "runner_call s (snd (queue_hold until reason s))"
| "runner_call s (snd (queue_finish s))"
| "runner_call s (snd (mark_item i st reason s))"
| "runner_call s (snd (stop_blocked blocked s))"
| "runner_call s (snd (refresh_for_task i s))"
| "runner_call s (snd (recover_after_restart s))"

definition queue_idle :: "db \<Rightarrow> bool" where
  "queue_idle s \<longleftrightarrow> queue_wf s \<and> (\<forall>q \<in> set (run_queues s). rq_state q = Idle)"

lemma queue_idle_table: "table_invariant queue_idle"
  using queue_wf_table by (simp add: table_invariant_def queue_idle_def)

lemma idle_row_moves:
  "preserves queue_idle queue_resume_in" "preserves queue_idle (queue_hold_in until reason)"
  "preserves queue_idle queue_finish_in" "preserves queue_idle (refresh_for_task_in i)"
  unfolding queue_resume_in_def queue_hold_in_def queue_finish_in_def refresh_for_task_in_def
  by (auto 4 3 intro!: preserves_wpI wp_the_queue [OF queue_frame_refl] wp_queue_publish
      simp: wp_simps wp_tx_ok row_ok_moves queue_idle_def armed_def queue_frame_def)

lemma idle_frame: "queue_frame base s \<Longrightarrow> \<forall>q \<in> set (run_queues s). rq_state q = Idle \<Longrightarrow> queue_idle s"
  by (simp add: queue_idle_def queue_frame_def)

lemma wp_publish_idle:
  assumes "queue_idle s" and f: "\<And>q. row_ok q \<Longrightarrow> row_ok (f q) \<and> rq_id (f q) = rq_id q \<and> (rq_state q = Idle \<longrightarrow> rq_state (f q) = Idle)"
  shows "wp (tx_bind the_queue (\<lambda>q. tx_bind (queue_publish (f q)) (\<lambda>_. tx_ok ()))) (\<lambda>_. queue_idle) s"
proof -
  have frame: "queue_frame s s" using assms(1) by (simp add: queue_idle_def queue_frame_refl)
  show ?thesis unfolding wp_bind wp_tx_ok
  proof (rule wp_the_queue [OF frame])
    fix q and t :: db assume t: "queue_frame s t" "run_queues t = [q]" "row_ok q" "q \<in> set (run_queues s) \<or> rq_state q = Idle"
    then have "rq_state (f q) = Idle" using assms(1) f by (auto simp: queue_idle_def)
    then show "wp (queue_publish (f q)) (\<lambda>_. queue_idle) t"
      using f [OF t(3)] t(2) by (intro wp_queue_publish [OF t(1)]) (auto intro: idle_frame)
  qed
qed

lemma wp_move_idle:
  assumes "queue_idle s" "item \<in> set (run_queue_items s)"
  shows "wp (move_item st reason item) (\<lambda>_. queue_idle) s"
  using assms by (intro wp_move_item [OF queue_frame_refl item_keys_in]) (auto simp: queue_idle_def queue_frame_def)

lemma wp_moves_idle:
  assumes "queue_idle s" "set items \<subseteq> set (run_queue_items s)"
  shows "wp (tx_each (move_item st reason) items) (\<lambda>_. queue_idle) s"
  using assms by (intro wp_move_items [OF queue_frame_refl]) (auto simp: queue_idle_def queue_frame_def)

lemma idle_item_moves:
  "preserves queue_idle (mark_item_in i st reason)" "preserves queue_idle (stop_blocked_in blocked)"
  "preserves queue_idle recover_after_restart_in"
proof -
  show "preserves queue_idle (mark_item_in i st reason)"
    unfolding mark_item_in_def
    by (auto intro!: preserves_wpI wp_seq [OF wp_move_idle] wp_publish_idle
        simp: wp_bind [of "tx_gets _"] wp_simps_base wp_case_option dest!: find_item_Some split: option.splits)
  have "preserves queue_idle (tx_each (\<lambda>entry. tx_bind (tx_gets (find_item (bi_item_id entry))) (\<lambda>found. case found of
      None \<Rightarrow> tx_ok () | Some item \<Rightarrow> move_item Queued (Some (bi_reason entry)) item)) blocked)"
    by (rule preserves_tx_each)
      (auto intro!: preserves_wpI wp_move_idle simp: wp_simps dest!: find_item_Some split: option.splits)
  then show "preserves queue_idle (stop_blocked_in blocked)"
    unfolding stop_blocked_in_def
    by (rule preserves_tx_bind) (auto intro!: preserves_wpI wp_publish_idle simp: row_ok_moves)
  show "preserves queue_idle recover_after_restart_in"
    unfolding recover_after_restart_in_def Let_def
    by (auto intro!: preserves_wpI wp_seq [OF wp_moves_idle] wp_publish_idle simp: wp_bind [of "tx_gets _"] wp_bind [of "tx_ok _"] wp_simps_base wp_if)
qed

lemma runner_call_idle: "runner_call s t \<Longrightarrow> queue_idle s \<Longrightarrow> queue_idle t"
  by (induction rule: runner_call.induct)
    (auto simp: queue_resume_def queue_hold_def queue_finish_def mark_item_def stop_blocked_def refresh_for_task_def
      recover_after_restart_def intro!: in_write_invariant [OF queue_idle_table] idle_row_moves idle_item_moves)

text \<open>
  The runner never arms a queue nobody started: from an idle queue, no sequence of the calls the worker makes
  (resuming, holding, finishing, marking items, reporting blocked ones, recovering after a restart) leaves
  the queue scheduled, running or holding.
\<close>

theorem runner_never_arms:
  assumes "runner_call\<^sup>*\<^sup>* s t" "queue_wf s" "\<forall>q \<in> set (run_queues s). \<not> armed (rq_state q)"
  shows "queue_wf t \<and> (\<forall>q \<in> set (run_queues t). \<not> armed (rq_state q))"
proof -
  have "queue_idle s" using assms(2,3) by (simp add: queue_idle_def armed_def)
  with assms(1) have "queue_idle t" by (induction rule: rtranclp_induct) (auto intro: runner_call_idle)
  then show ?thesis by (simp add: queue_idle_def armed_def)
qed

theorem runner_never_arms_witness:
  "list_all (\<lambda>q. \<not> armed (rq_state q)) (run_queues (snd (queue_hold None None (snd (mark_item 60 IRunning None queue_db)))))"
proof -
  let ?s = "snd (mark_item 60 IRunning None queue_db)" and ?t = "snd (queue_hold None None (snd (mark_item 60 IRunning None queue_db)))"
  have "runner_call\<^sup>*\<^sup>* queue_db ?t"
    using runner_call.intros(4) [of queue_db 60 IRunning None] runner_call.intros(2) [of ?s None None]
    by (rule converse_rtranclp_into_rtranclp [OF _ r_into_rtranclp])
  moreover have "\<forall>q \<in> set (run_queues queue_db). \<not> armed (rq_state q)" by (simp add: queue_db_def run_queue_new_def armed_def)
  ultimately show ?thesis unfolding list_all_iff using runner_never_arms queue_db_ok by blast
qed

end
