(* ===== verification/Wrapups.thy ===== *)
theory Wrapups
  imports Review
begin

section \<open>Wrapups and their versions\<close>

text \<open>
  \<^verbatim>\<open>rekall-core/src/wrapup\<close> and \<^verbatim>\<open>rekall-store/src/wrapup\<close>: the text that says what a task's implementation looks like
  now. A task has at most one, replaced whole; each new text is kept as a version, the last twenty per task. The commit at the head
  of the project's repository, noted on a version, is an argument here: it is read before the transaction starts.
\<close>

subsection \<open>Rows and queries\<close>

definition WRAPUP_MAX_CHARACTERS :: nat where
  "WRAPUP_MAX_CHARACTERS = 20000"

definition KEPT_PER_TASK :: nat where
  "KEPT_PER_TASK = 20"

definition wrapup_validate :: "wrapup \<Rightarrow> unit result" where
  "wrapup_validate w = violations_finish
     (max_length ''bodyMarkdown'' (Some (wr_body_markdown w)) WRAPUP_MAX_CHARACTERS
     (not_blank ''bodyMarkdown'' (Some (wr_body_markdown w))
     (violations_new ''Wrapup'')))"

definition wrapup_ok :: "db \<Rightarrow> wrapup \<Rightarrow> bool" where
  "wrapup_ok s w = (task_exists s (wr_task_id w) \<and> list_all (\<lambda>x. wr_id x = wr_id w \<or> wr_task_id x \<noteq> wr_task_id w) (wrapups s))"

definition version_ok :: "db \<Rightarrow> wrapup_version \<Rightarrow> bool" where
  "version_ok s v = (task_exists s (wn_task_id v)
     \<and> list_all (\<lambda>x. wn_id x = wn_id v \<or> \<not> (wn_task_id x = wn_task_id v \<and> wn_number x = wn_number v)) (wrapup_versions s))"

definition insert_wrapup :: "wrapup \<Rightarrow> wrapup action" where
  "insert_wrapup = insert_row wrapups wrapups_update wr_id wrapup_ok"
definition update_wrapup :: "wrapup \<Rightarrow> wrapup action" where
  "update_wrapup = update_row wrapups wrapups_update wr_id wrapup_ok"
definition insert_version :: "wrapup_version \<Rightarrow> wrapup_version action" where
  "insert_version = insert_row wrapup_versions wrapup_versions_update wn_id version_ok"

definition delete_wrapup_row :: "id \<Rightarrow> unit action" where
  "delete_wrapup_row i = tx_modify (\<lambda>s. s\<lparr>wrapups := filter (\<lambda>w. wr_id w \<noteq> i) (wrapups s)\<rparr>)"
definition delete_version_row :: "id \<Rightarrow> unit action" where
  "delete_version_row i = tx_modify (\<lambda>s. s\<lparr>wrapup_versions := filter (\<lambda>v. wn_id v \<noteq> i) (wrapup_versions s)\<rparr>)"

interpretation wrapup_table: keyed_table wrapups wrapups_update wr_id wrapup_ok
  by unfold_locales simp
interpretation version_table: keyed_table wrapup_versions wrapup_versions_update wn_id version_ok
  by unfold_locales simp

definition wrapups_newest_first :: "db \<Rightarrow> wrapup list" where
  "wrapups_newest_first s = sort_key (\<lambda>w. - wr_updated_at w) (wrapups s)"

definition versions_newest_first :: "id \<Rightarrow> db \<Rightarrow> wrapup_version list" where
  "versions_newest_first i s = sort_key (\<lambda>v. - wn_number v) (filter (\<lambda>v. wn_task_id v = i) (wrapup_versions s))"

definition find_version :: "id \<Rightarrow> id \<Rightarrow> db \<Rightarrow> wrapup_version option" where
  "find_version i version_id s = List.find (\<lambda>v. wn_task_id v = i \<and> wn_id v = version_id) (wrapup_versions s)"

definition next_number :: "id \<Rightarrow> db \<Rightarrow> int" where
  "next_number i s = (case versions_newest_first i s of [] \<Rightarrow> 1 | newest # _ \<Rightarrow> as_i32 (wn_number newest + 1))"

definition trim_versions :: "id \<Rightarrow> unit action" where
  "trim_versions i = tx_bind (tx_gets (versions_newest_first i)) (\<lambda>kept_and_surplus.
     tx_each (\<lambda>v. delete_version_row (wn_id v)) (drop KEPT_PER_TASK kept_and_surplus))"

definition append_version :: "wrapup_version \<Rightarrow> wrapup_version action" where
  "append_version v =
     tx_bind (tx_gets (next_number (wn_task_id v))) (\<lambda>number.
     let numbered = v\<lparr>wn_number := number\<rparr>
     in tx_bind (insert_version numbered) (\<lambda>_.
        tx_bind (trim_versions (wn_task_id numbered)) (\<lambda>_. tx_ok numbered)))"

subsection \<open>Views\<close>

record written_wrapup =
  wt_wrapup :: wrapup_view
  wt_created :: bool
  wt_replaced :: "wrapup_author option"

definition PREVIEW_CHARACTERS :: nat where
  "PREVIEW_CHARACTERS = 160"

definition preview_of :: "str \<Rightarrow> str" where
  "preview_of body = (let flat = strip (collapse_whitespace body)
     in if jlen flat \<le> PREVIEW_CHARACTERS then flat else strip_trailing (jprefix flat PREVIEW_CHARACTERS) @ [0x2026])"

record wrapup_version_view =
  xv_id :: id
  xv_task_id :: id
  xv_number :: int
  xv_written_by :: wrapup_author
  xv_written_at :: instant
  xv_length :: nat
  xv_preview :: str
  xv_commit_hash :: "str option"

record wrapup_version_detail = wrapup_version_view +
  xv_body_markdown :: str

definition version_view_of :: "wrapup_version \<Rightarrow> wrapup_version_view" where
  "version_view_of v = \<lparr>xv_id = wn_id v, xv_task_id = wn_task_id v, xv_number = wn_number v, xv_written_by = wn_written_by v,
     xv_written_at = wn_written_at v, xv_length = jlen (wn_body_markdown v), xv_preview = preview_of (wn_body_markdown v),
     xv_commit_hash = wn_commit_hash v\<rparr>"

definition version_detail_of :: "wrapup_version \<Rightarrow> wrapup_version_detail" where
  "version_detail_of v = wrapup_version_view.extend (version_view_of v) (wrapup_version_detail.fields (wn_body_markdown v))"

definition wrapup_view_load :: "wrapup \<Rightarrow> wrapup_view action" where
  "wrapup_view_load w = tx_bind (task_or_unknown (wr_task_id w)) (\<lambda>t.
     tx_bind (project_of t) (\<lambda>p. tx_ok (wrapup_view_of w t p)))"

subsection \<open>Reading\<close>

definition wrapup_versions_of :: "id \<Rightarrow> db \<Rightarrow> wrapup_version_view list result" where
  "wrapup_versions_of task_id = in_read (tx_bind (task_or_unknown task_id) (\<lambda>_.
     tx_bind (tx_gets (versions_newest_first task_id)) (\<lambda>versions. tx_ok (map version_view_of versions))))"

definition wrapup_version_of :: "id \<Rightarrow> id \<Rightarrow> db \<Rightarrow> wrapup_version_detail result" where
  "wrapup_version_of task_id version_id = in_read (tx_bind (tx_gets (find_version task_id version_id)) (\<lambda>found. case found of
       None \<Rightarrow> tx_fail (NotFound (Msg ''This task has no such wrapup version'' []))
     | Some v \<Rightarrow> tx_ok (version_detail_of v)))"

definition wrapup_find_in :: "id \<Rightarrow> wrapup_view option action" where
  "wrapup_find_in task_id = tx_bind (tx_gets (wrapup_of task_id)) (\<lambda>found. case found of
       Some w \<Rightarrow> tx_bind (wrapup_view_load w) (\<lambda>view. tx_ok (Some view))
     | None \<Rightarrow> tx_ok None)"

definition wrapup_find :: "id \<Rightarrow> db \<Rightarrow> wrapup_view option result" where
  "wrapup_find task_id = in_read (wrapup_find_in task_id)"

definition wrapup_find_all :: "db \<Rightarrow> wrapup_view list result" where
  "wrapup_find_all = in_read (tx_bind (tx_gets wrapups_newest_first) (tx_map wrapup_view_load))"

definition wrapup_find_by_anchor :: "unicode_case \<Rightarrow> str option \<Rightarrow> str \<Rightarrow> db \<Rightarrow> wrapup_view option result" where
  "wrapup_find_by_anchor u project_label task_label = in_read (tx_bind (resolve_task u project_label task_label) (\<lambda>t. wrapup_find_in (tk_id t)))"

subsection \<open>Writing\<close>

definition wrapup_validated :: "str option \<Rightarrow> str result" where
  "wrapup_validated body = (case present body of
       None \<Rightarrow> Inl (IllegalArgument (Msg ''A wrapup needs a body'' []))
     | Some x \<Rightarrow> within x WRAPUP_MAX_CHARACTERS (Msg ''A wrapup is capped'' []))"

definition wrapup_create :: "id \<Rightarrow> str \<Rightarrow> wrapup_author \<Rightarrow> wrapup action" where
  "wrapup_create task_id body author =
     tx_bind ctx_now (\<lambda>now. tx_bind random_id (\<lambda>i.
     let created = \<lparr>wr_id = i, wr_task_id = task_id, wr_body_markdown = body, wr_written_by = author, wr_created_at = now, wr_updated_at = now\<rparr>
     in tx_bind (tx_lift (wrapup_validate created)) (\<lambda>_.
        tx_bind (insert_wrapup created) (\<lambda>_. tx_ok created))))"

definition wrapup_replace :: "wrapup \<Rightarrow> str \<Rightarrow> wrapup_author \<Rightarrow> wrapup action" where
  "wrapup_replace before body author =
     update_if_changed update_wrapup (\<lambda>now w. w\<lparr>wr_updated_at := now\<rparr>) wrapup_validate
       before (before\<lparr>wr_body_markdown := body, wr_written_by := author\<rparr>)"

definition keep_version :: "wrapup \<Rightarrow> str option \<Rightarrow> unit action" where
  "keep_version current head =
     tx_bind random_id (\<lambda>i. tx_bind ctx_now (\<lambda>now.
     tx_bind (append_version \<lparr>wn_id = i, wn_task_id = wr_task_id current, wn_number = 0, wn_body_markdown = wr_body_markdown current,
       wn_written_by = wr_written_by current, wn_written_at = now, wn_commit_hash = head\<rparr>) (\<lambda>_. tx_ok ())))"

definition wrapup_write_in :: "task \<Rightarrow> str option \<Rightarrow> wrapup_author \<Rightarrow> str option \<Rightarrow> written_wrapup action" where
  "wrapup_write_in t body author head =
     tx_bind (tx_lift (wrapup_validated body)) (\<lambda>written.
     tx_bind (project_of t) (\<lambda>p.
     tx_bind (tx_gets (wrapup_of (tk_id t))) (\<lambda>found.
     tx_bind (case found of
         None \<Rightarrow> tx_bind (wrapup_create (tk_id t) written author) (\<lambda>created. tx_ok (created, None, True))
       | Some before \<Rightarrow> tx_bind (wrapup_replace before written author) (\<lambda>after.
           tx_ok (after, Some (wr_written_by before), wr_body_markdown after \<noteq> wr_body_markdown before))) (\<lambda>(current, replaced, text_changed).
     tx_bind (if text_changed then keep_version current head else tx_ok ()) (\<lambda>_.
     let answer = \<lparr>wt_wrapup = wrapup_view_of current t p, wt_created = (replaced = None), wt_replaced = replaced\<rparr>
     in tx_bind (if author = ByClaude then claimed_by_wrapup_in (tk_id t) else tx_ok ()) (\<lambda>_.
        tx_bind (tx_publish (WrapupStreamEvent (tk_id t) (Some (wt_wrapup answer)) False)) (\<lambda>_. tx_ok answer)))))))"

definition wrapup_write_at :: "id \<Rightarrow> str option \<Rightarrow> wrapup_author \<Rightarrow> str option \<Rightarrow> db \<Rightarrow> written_wrapup result \<times> db" where
  "wrapup_write_at task_id body author head =
     in_write (tx_bind (task_or_unknown task_id) (\<lambda>t. wrapup_write_in t body author head))"

definition wrapup_write_anchored :: "unicode_case \<Rightarrow> str option \<Rightarrow> str \<Rightarrow> str option \<Rightarrow> wrapup_author \<Rightarrow> str option \<Rightarrow> db \<Rightarrow> written_wrapup result \<times> db" where
  "wrapup_write_anchored u project_label task_label body author head =
     in_write (tx_bind (resolve_task u project_label task_label) (\<lambda>t. wrapup_write_in t body author head))"

definition wrapup_delete :: "id \<Rightarrow> db \<Rightarrow> unit result \<times> db" where
  "wrapup_delete task_id = in_write (tx_bind (tx_gets (wrapup_of task_id)) (\<lambda>found. case found of
       None \<Rightarrow> tx_ok ()
     | Some w \<Rightarrow> tx_bind (delete_wrapup_row (wr_id w)) (\<lambda>_.
         tx_publish (WrapupStreamEvent task_id None True))))"

definition project_folder_of :: "task \<Rightarrow> str option action" where
  "project_folder_of t = tx_bind (project_of t) (\<lambda>p. tx_ok (work_folder t p))"

lemmas wrapups_run [run_defs] = WRAPUP_MAX_CHARACTERS_def KEPT_PER_TASK_def wrapup_validate_def wrapup_ok_def version_ok_def
  insert_wrapup_def update_wrapup_def insert_version_def delete_wrapup_row_def delete_version_row_def wrapups_newest_first_def
  versions_newest_first_def find_version_def next_number_def trim_versions_def append_version_def wrapup_view_load_def
  wrapup_validated_def wrapup_create_def wrapup_replace_def keep_version_def wrapup_write_in_def wrapup_write_at_def
  wrapup_write_anchored_def wrapup_delete_def project_folder_of_def

subsection \<open>The versions of a task as a list\<close>

lemma newest_number:
  assumes "versions_newest_first i s = newest # older" "v \<in> set (wrapup_versions s)" "wn_task_id v = i"
  shows "wn_number v \<le> wn_number newest"
proof -
  have "sorted (map (\<lambda>v. - wn_number v) (newest # older))"
    unfolding assms(1) [symmetric] versions_newest_first_def by (rule sorted_sort_key)
  moreover have "v \<in> set (newest # older)" unfolding assms(1) [symmetric] using assms(2,3) by (simp add: versions_newest_first_def)
  ultimately show ?thesis by auto
qed

definition numbers_fit :: "id \<Rightarrow> db \<Rightarrow> bool" where
  "numbers_fit i s \<longleftrightarrow> (\<forall>v \<in> set (wrapup_versions s). wn_task_id v = i \<longrightarrow> 0 \<le> wn_number v \<and> wn_number v < 2 ^ 31 - 1)"

lemma next_number_above:
  assumes "numbers_fit i s" "v \<in> set (wrapup_versions s)" "wn_task_id v = i"
  shows "wn_number v < next_number i s"
proof (cases "versions_newest_first i s")
  case Nil
  then have "filter (\<lambda>v. wn_task_id v = i) (wrapup_versions s) = []"
    unfolding versions_newest_first_def by (metis length_0_conv length_sort)
  then show ?thesis using assms(2,3) by (auto simp: filter_empty_conv)
next
  case (Cons newest older)
  have "newest \<in> set (versions_newest_first i s)" by (simp add: Cons)
  then have "0 \<le> wn_number newest \<and> wn_number newest < 2 ^ 31 - 1" using assms(1) by (simp add: numbers_fit_def versions_newest_first_def)
  then have "as_i32 (wn_number newest + 1) = wn_number newest + 1" by (intro as_i32_id) auto
  then show ?thesis using newest_number [OF Cons assms(2,3)] by (simp add: next_number_def Cons)
qed

lemma deleted_versions:
  "tx_each (\<lambda>v. delete_version_row (wn_id v)) vs s
   = Inr ((), s\<lparr>wrapup_versions := filter (\<lambda>x. wn_id x \<notin> wn_id ` set vs) (wrapup_versions s)\<rparr>)"
proof (induction vs arbitrary: s)
  case (Cons v vs)
  then show ?case by (simp add: tx_bind_def delete_version_row_def tx_modify_def conj_commute)
qed (simp add: tx_ok_def)

definition wrapup_frame :: "db \<Rightarrow> db \<Rightarrow> bool" where
  "wrapup_frame base s \<longleftrightarrow> projects s = projects base \<and> tasks s = tasks base \<and> task_steps s = task_steps base
     \<and> step_links s = step_links base \<and> step_visits s = step_visits base \<and> time_entries s = time_entries base
     \<and> task_dependencies s = task_dependencies base \<and> documents s = documents base \<and> document_tasks s = document_tasks base
     \<and> run_queues s = run_queues base \<and> run_queue_items s = run_queue_items base"

lemma versions_filter:
  "versions_newest_first j (s\<lparr>wrapup_versions := filter P (wrapup_versions s)\<rparr>) = filter P (versions_newest_first j s)"
  by (simp add: versions_newest_first_def filter_sort conj_commute)

lemma trim_versions_run:
  assumes "distinct (map wn_id (wrapup_versions s))" "trim_versions i s = Inr (x, t)"
  shows "versions_newest_first j t = (if j = i then take KEPT_PER_TASK (versions_newest_first i s) else versions_newest_first j s)"
    and "\<exists>P. t = s\<lparr>wrapup_versions := filter P (wrapup_versions s)\<rparr>"
proof -
  let ?vs = "versions_newest_first i s" and ?P = "\<lambda>v. wn_id v \<notin> wn_id ` set (drop KEPT_PER_TASK (versions_newest_first i s))"
  have t: "t = s\<lparr>wrapup_versions := filter ?P (wrapup_versions s)\<rparr>"
    using assms(2) by (simp add: trim_versions_def tx_bind_def tx_gets_def deleted_versions)
  then show "\<exists>P. t = s\<lparr>wrapup_versions := filter P (wrapup_versions s)\<rparr>" by blast
  have "distinct (map wn_id ?vs)"
    using assms(1) by (auto simp: versions_newest_first_def distinct_map inj_on_def)
  then have same: "filter ?P ?vs = take KEPT_PER_TASK ?vs" by (rule filter_not_dropped)
  have other: "filter ?P (versions_newest_first j s) = versions_newest_first j s" if "j \<noteq> i"
  proof (rule filter_True, rule ballI, rule notI)
    fix v assume v: "v \<in> set (versions_newest_first j s)" "wn_id v \<in> wn_id ` set (drop KEPT_PER_TASK ?vs)"
    then obtain v' where v': "v' \<in> set ?vs" "wn_id v' = wn_id v" by (metis image_iff in_set_dropD)
    have "v \<in> set (wrapup_versions s)" "v' \<in> set (wrapup_versions s)" using v(1) v'(1) by (simp_all add: versions_newest_first_def)
    then have "v = v'" using assms(1) v'(2) by (auto simp: distinct_map inj_on_def)
    then show False using v(1) v'(1) that by (simp add: versions_newest_first_def)
  qed
  show "versions_newest_first j t = (if j = i then take KEPT_PER_TASK ?vs else versions_newest_first j s)"
    unfolding t versions_filter using same other by simp
qed

lemma version_written: "wrapup_versions_update (\<lambda>vs. vs @ [v]) s = s\<lparr>wrapup_versions := wrapup_versions s @ [v]\<rparr>"
  by (cases s) simp

lemma append_version_run:
  assumes "distinct (map wn_id (wrapup_versions s))" "numbers_fit (wn_task_id v) s" "append_version v s = Inr (x, t)"
  shows "x = v\<lparr>wn_number := next_number (wn_task_id v) s\<rparr>"
    and "versions_newest_first j t = (if j = wn_task_id v then take KEPT_PER_TASK (x # versions_newest_first j s) else versions_newest_first j s)"
    and "distinct (map wn_id (wrapup_versions t))" "wrapups t = wrapups s" "wrapup_frame s t"
proof -
  let ?i = "wn_task_id v" and ?x = "v\<lparr>wn_number := next_number (wn_task_id v) s\<rparr>"
  let ?s = "s\<lparr>wrapup_versions := wrapup_versions s @ [?x]\<rparr>"
  have x: "x = ?x" and new: "wn_id ?x \<notin> wn_id ` set (wrapup_versions s)" and trim: "trim_versions ?i ?s = Inr ((), t)"
    using assms(3) by (auto simp: append_version_def tx_bind_Inr insert_version_def version_table.insert_Inr version_written Let_def)
  show "x = ?x" by (rule x)
  have distinct: "distinct (map wn_id (wrapup_versions ?s))" using assms(1) new by simp
  have "versions_newest_first k ?s = (if k = ?i then ?x # versions_newest_first k s else versions_newest_first k s)" for k
    using next_number_above [OF assms(2)] by (auto simp: versions_newest_first_def intro!: sort_key_smallest)
  then show "versions_newest_first j t = (if j = ?i then take KEPT_PER_TASK (x # versions_newest_first j s) else versions_newest_first j s)"
    using trim_versions_run(1) [OF distinct trim] x by simp
  obtain P where t: "t = ?s\<lparr>wrapup_versions := filter P (wrapup_versions ?s)\<rparr>" using trim_versions_run(2) [OF distinct trim] by blast
  have "distinct (map wn_id (filter P (wrapup_versions ?s)))" using distinct by (rule distinct_map_filter)
  then show "distinct (map wn_id (wrapup_versions t))" by (simp only: t) simp
  show "wrapups t = wrapups s" "wrapup_frame s t" by (simp_all add: t wrapup_frame_def)
qed

subsection \<open>What writing a wrapup does\<close>

definition wrapups_ok :: "db \<Rightarrow> bool" where
  "wrapups_ok s \<longleftrightarrow> distinct (map wr_id (wrapups s)) \<and> distinct (map wr_task_id (wrapups s)) \<and> distinct (map wn_id (wrapup_versions s))
     \<and> (\<forall>i. length (versions_newest_first i s) \<le> KEPT_PER_TASK)
     \<and> (\<forall>i w. wrapup_of i s = Some w \<longrightarrow> (\<exists>v vs. versions_newest_first i s = v # vs \<and> wn_body_markdown v = wr_body_markdown w))"

lemma wrapups_ok_table: "table_invariant wrapups_ok"
  by (simp add: table_invariant_def wrapups_ok_def versions_newest_first_def wrapup_of_def)

lemma wrapup_of_find: "wrapup_of i s = find_row wr_task_id i (wrapups s)"
  by (simp add: wrapup_of_def find_row_def)

definition wrapup_put :: "id \<Rightarrow> wrapup \<Rightarrow> db \<Rightarrow> db \<Rightarrow> bool" where
  "wrapup_put i w s t \<longleftrightarrow> (\<forall>j. wrapup_of j t = (if j = i then Some w else wrapup_of j s))
     \<and> distinct (map wr_id (wrapups t)) \<and> distinct (map wr_task_id (wrapups t))
     \<and> wrapup_versions t = wrapup_versions s \<and> wrapup_frame s t"

lemma wrapup_create_run:
  assumes "wrapup_create i body author s = Inr (w, t)"
  shows "wrapups t = wrapups s @ [w]" "wr_id w \<notin> wr_id ` set (wrapups s)" "wrapup_versions t = wrapup_versions s" "wrapup_frame s t"
    "wr_task_id w = i" "wr_body_markdown w = body" "wr_written_by w = author"
  using assms by (auto simp: wrapup_create_def tx_bind_Inr ctx_now_def random_id_def insert_wrapup_def wrapup_table.insert_Inr Let_def wrapup_frame_def)

lemma created_put:
  assumes "wrapups_ok s" "wrapup_of i s = None" "wrapup_create i body author s = Inr (w, t)"
  shows "wrapup_put i w s t"
proof -
  note run = wrapup_create_run [OF assms(3)]
  have new: "i \<notin> wr_task_id ` set (wrapups s)" using assms(2) by (simp add: wrapup_of_find find_row_None)
  have single: "find_row wr_task_id j [w] = (if j = i then Some w else None)" for j using run(5) by (auto simp: find_row_def)
  have "wrapup_of j t = (if j = i then Some w else wrapup_of j s)" for j
    using assms(2) single [of j] by (cases "wrapup_of j s") (auto simp: wrapup_of_find run(1) find_row_append)
  then show ?thesis using assms(1) new run unfolding wrapup_put_def wrapups_ok_def by simp
qed

lemma wrapup_replace_run:
  assumes "wrapup_replace before body author s = Inr (w, t)"
  obtains "w = before" "wr_body_markdown before = body" "wr_written_by before = author" "t = s\<lparr>clock := stl (clock s)\<rparr>"
  | now where "w = before\<lparr>wr_body_markdown := body, wr_written_by := author, wr_updated_at := now\<rparr>"
      "t = wrapups_update (replace_row wr_id w) (s\<lparr>clock := stl (clock s)\<rparr>)"
proof (cases "before\<lparr>wr_body_markdown := body, wr_written_by := author\<rparr> = before")
  case True
  have "wr_body_markdown before = body" "wr_written_by before = author"
    using arg_cong [OF True, of wr_body_markdown] arg_cong [OF True, of wr_written_by] by simp_all
  then show ?thesis using assms True that(1)
    by (auto simp: wrapup_replace_def update_if_changed_def tx_bind_Inr ctx_now_def Let_def)
next
  case False
  show ?thesis using assms False that(2)
    by (auto simp: wrapup_replace_def update_if_changed_def tx_bind_Inr ctx_now_def update_wrapup_def wrapup_table.update_Inr Let_def)
qed

lemma same_rows_replaced:
  assumes "distinct (map f xs)" "distinct (map g xs)" "x \<in> set xs" "f y = f x" "g y = g x"
  shows "replace_row f y xs = replace_row g y xs"
  using assms by (auto simp: replace_row_def distinct_map inj_on_def)

lemma replaced_put:
  assumes ok: "wrapups_ok s" and found: "wrapup_of i s = Some before" and run: "wrapup_replace before body author s = Inr (w, t)"
  shows "wrapup_put i w s t" "wr_task_id w = i" "wr_body_markdown w = body" "wr_written_by w = author"
proof -
  have d: "distinct (map wr_id (wrapups s))" "distinct (map wr_task_id (wrapups s))" using ok by (simp_all add: wrapups_ok_def)
  have before: "before \<in> set (wrapups s)" "wr_task_id before = i" using found by (auto simp: wrapup_of_def find_Some_iff)
  have "wrapup_put i w s t \<and> wr_task_id w = i \<and> wr_body_markdown w = body \<and> wr_written_by w = author"
    using run
  proof (cases rule: wrapup_replace_run)
    case 1
    then show ?thesis using d found before by (simp add: wrapup_put_def wrapup_of_def wrapup_frame_def)
  next
    case (2 now)
    have same: "replace_row wr_id w (wrapups s) = replace_row wr_task_id w (wrapups s)"
      by (rule same_rows_replaced [OF d before(1)]) (simp_all add: 2)
    have w: "wr_task_id w = i" "wr_body_markdown w = body" "wr_written_by w = author" using before by (simp_all add: 2)
    have rows: "wrapups t = replace_row wr_task_id w (wrapups s)" using same by (simp add: 2(2))
    have "wrapup_of j t = (if j = i then Some w else wrapup_of j s)" for j
      using found by (simp add: wrapup_of_find rows find_replace_row w(1))
    moreover have "distinct (map wr_id (wrapups t))" using d(1) by (simp add: 2(2))
    moreover have "wrapup_versions t = wrapup_versions s" "wrapup_frame s t" by (simp_all add: 2(2) wrapup_frame_def)
    ultimately show ?thesis using d w by (simp add: wrapup_put_def rows)
  qed
  then show "wrapup_put i w s t" "wr_task_id w = i" "wr_body_markdown w = body" "wr_written_by w = author" by blast+
qed

definition version_put :: "wrapup \<Rightarrow> str option \<Rightarrow> db \<Rightarrow> db \<Rightarrow> bool" where
  "version_put w head s t \<longleftrightarrow> (\<exists>v. wn_body_markdown v = wr_body_markdown w \<and> wn_written_by v = wr_written_by w \<and> wn_commit_hash v = head
     \<and> wn_number v = next_number (wr_task_id w) s
     \<and> (\<forall>j. versions_newest_first j t = (if j = wr_task_id w then take KEPT_PER_TASK (v # versions_newest_first j s) else versions_newest_first j s)))
     \<and> distinct (map wn_id (wrapup_versions t)) \<and> wrapups t = wrapups s \<and> wrapup_frame s t"

lemma versions_plain [simp]:
  "versions_newest_first i (s\<lparr>clock := c\<rparr>) = versions_newest_first i s"
  "versions_newest_first i (s\<lparr>entropy := e\<rparr>) = versions_newest_first i s"
  "next_number i (s\<lparr>clock := c\<rparr>) = next_number i s" "next_number i (s\<lparr>entropy := e\<rparr>) = next_number i s"
  "numbers_fit i (s\<lparr>clock := c\<rparr>) = numbers_fit i s" "numbers_fit i (s\<lparr>entropy := e\<rparr>) = numbers_fit i s"
  "wrapup_frame (s\<lparr>clock := c\<rparr>) t = wrapup_frame s t" "wrapup_frame (s\<lparr>entropy := e\<rparr>) t = wrapup_frame s t"
  by (simp_all add: versions_newest_first_def next_number_def numbers_fit_def wrapup_frame_def)

lemma keep_version_run:
  assumes "distinct (map wn_id (wrapup_versions s))" "numbers_fit (wr_task_id w) s" "keep_version w head s = Inr (x, t)"
  shows "version_put w head s t"
proof -
  let ?v = "\<lparr>wn_id = shd (entropy s), wn_task_id = wr_task_id w, wn_number = 0, wn_body_markdown = wr_body_markdown w,
       wn_written_by = wr_written_by w, wn_written_at = shd (clock s), wn_commit_hash = head\<rparr>"
  let ?s = "s\<lparr>entropy := stl (entropy s), clock := stl (clock s)\<rparr>"
  obtain v where run: "append_version ?v ?s = Inr (v, t)"
    using assms(3) by (auto simp: keep_version_def tx_bind_Inr random_id_def ctx_now_def)
  have pre: "distinct (map wn_id (wrapup_versions ?s))" "numbers_fit (wn_task_id ?v) ?s" using assms(1,2) by simp_all
  note put = append_version_run [OF pre run]
  have v: "v = ?v\<lparr>wn_number := next_number (wr_task_id w) s\<rparr>" using put(1) by simp
  have "versions_newest_first j t = (if j = wr_task_id w then take KEPT_PER_TASK (v # versions_newest_first j s) else versions_newest_first j s)" for j
    using put(2) [of j] by simp
  then show ?thesis using put(3-5) unfolding version_put_def by (intro conjI exI [of _ v]) (simp_all add: v)
qed

definition wrapup_written :: "id \<Rightarrow> str \<Rightarrow> wrapup_author \<Rightarrow> str option \<Rightarrow> db \<Rightarrow> db \<Rightarrow> bool" where
  "wrapup_written i body author head s t \<longleftrightarrow>
     (\<exists>w. wr_body_markdown w = body \<and> wr_written_by w = author \<and> (\<forall>j. wrapup_of j t = (if j = i then Some w else wrapup_of j s)))
     \<and> (if map_option wr_body_markdown (wrapup_of i s) = Some body
        then (\<forall>j. versions_newest_first j t = versions_newest_first j s)
        else (\<exists>v. wn_body_markdown v = body \<and> wn_written_by v = author \<and> wn_commit_hash v = head \<and> wn_number v = next_number i s
          \<and> (\<forall>j. versions_newest_first j t = (if j = i then take KEPT_PER_TASK (v # versions_newest_first j s) else versions_newest_first j s))))"

lemma written_ok:
  assumes "wrapups_ok s" "wrapup_written i body author head s t"
    "distinct (map wr_id (wrapups t))" "distinct (map wr_task_id (wrapups t))" "distinct (map wn_id (wrapup_versions t))"
  shows "wrapups_ok t"
proof -
  obtain w where w: "wr_body_markdown w = body" "\<And>j. wrapup_of j t = (if j = i then Some w else wrapup_of j s)"
    using assms(2) unfolding wrapup_written_def by blast
  have old: "length (versions_newest_first j s) \<le> KEPT_PER_TASK" for j using assms(1) by (simp add: wrapups_ok_def)
  have fresh: "\<exists>v vs. versions_newest_first j s = v # vs \<and> wn_body_markdown v = wr_body_markdown x" if "wrapup_of j s = Some x" for j x
    using assms(1) that by (simp add: wrapups_ok_def)
  have "length (versions_newest_first j t) \<le> KEPT_PER_TASK
      \<and> (\<forall>x. wrapup_of j t = Some x \<longrightarrow> (\<exists>v vs. versions_newest_first j t = v # vs \<and> wn_body_markdown v = wr_body_markdown x))" for j
  proof (cases "map_option wr_body_markdown (wrapup_of i s) = Some body")
    case True
    then have "versions_newest_first j t = versions_newest_first j s" using assms(2) by (simp add: wrapup_written_def)
    then show ?thesis using True old [of j] fresh [of j] w by auto
  next
    case False
    then obtain v where "wn_body_markdown v = body" "versions_newest_first j t
        = (if j = i then take KEPT_PER_TASK (v # versions_newest_first j s) else versions_newest_first j s)"
      using assms(2) unfolding wrapup_written_def if_not_P [OF False] by blast
    then show ?thesis using old [of j] fresh [of j] w by (auto simp: KEPT_PER_TASK_def)
  qed
  then show ?thesis using assms(3-5) unfolding wrapups_ok_def by blast
qed

lemma frame_task_rows: "wrapup_frame s t \<Longrightarrow> tasks_ok t = tasks_ok s" "wrapup_frame s t \<Longrightarrow> timers_ok t = timers_ok s"
  by (simp_all add: wrapup_frame_def tasks_ok_def task_ok_def timers_ok_def task_exists_def)

text \<open>Storing the text, then keeping the version, has the whole effect on both tables.\<close>

lemma put_and_kept:
  assumes ok: "wrapups_ok s" and put: "wrapup_put i w s u" and w: "wr_task_id w = i"
    and kept: "if map_option wr_body_markdown (wrapup_of i s) = Some (wr_body_markdown w) then t = u else version_put w head u t"
  shows "wrapup_written i (wr_body_markdown w) (wr_written_by w) head s t \<and> wrapups_ok t \<and> wrapup_frame s t"
proof -
  have u: "\<And>j. wrapup_of j u = (if j = i then Some w else wrapup_of j s)" "wrapup_versions u = wrapup_versions s" "wrapup_frame s u"
    "distinct (map wr_id (wrapups u))" "distinct (map wr_task_id (wrapups u))" using put by (simp_all add: wrapup_put_def)
  have versions: "\<And>j. versions_newest_first j u = versions_newest_first j s" "next_number i u = next_number i s"
    using u(2) by (simp_all add: versions_newest_first_def next_number_def)
  have "wrapup_written i (wr_body_markdown w) (wr_written_by w) head s t \<and> wrapups t = wrapups u \<and> distinct (map wn_id (wrapup_versions t)) \<and> wrapup_frame s t"
  proof (cases "map_option wr_body_markdown (wrapup_of i s) = Some (wr_body_markdown w)")
    case True
    have "distinct (map wn_id (wrapup_versions s))" using ok by (simp add: wrapups_ok_def)
    moreover have "t = u" using kept True by simp
    ultimately show ?thesis using u versions unfolding wrapup_written_def if_P [OF True] by auto
  next
    case False
    then have v: "version_put w head u t" using kept by simp
    then have rows: "wrapups t = wrapups u" "distinct (map wn_id (wrapup_versions t))" "wrapup_frame s t"
      using u(3) by (simp_all add: version_put_def wrapup_frame_def)
    have "wrapup_of j t = wrapup_of j u" for j by (simp add: wrapup_of_def rows(1))
    then show ?thesis using v rows u(1) versions w unfolding wrapup_written_def version_put_def if_not_P [OF False] by auto
  qed
  moreover from this have "wrapups_ok t" using u(4,5) by (intro written_ok [OF ok]) auto
  ultimately show ?thesis by blast
qed

lemma wrapup_write_in_run:
  assumes ok: "wrapups_ok s" "tasks_ok s" "timers_ok s" "numbers_fit (tk_id tk) s"
    and run: "wrapup_write_in tk body author head s = Inr (written, t)"
  shows "\<exists>b. wrapup_validated body = Inr b \<and> wrapup_written (tk_id tk) b author head s t \<and> wrapups_ok t
    \<and> wt_created written = (wrapup_of (tk_id tk) s = None) \<and> wt_replaced written = map_option wr_written_by (wrapup_of (tk_id tk) s)"
proof -
  let ?i = "tk_id tk" and ?view = "\<lambda>w p r. \<lparr>wt_wrapup = wrapup_view_of w tk p, wt_created = (r = None), wt_replaced = r\<rparr>"
  obtain b p w replaced changed s1 s2 s3 where b: "wrapup_validated body = Inr b"
    and stored: "(case wrapup_of ?i s of
         None \<Rightarrow> tx_bind (wrapup_create ?i b author) (\<lambda>created. tx_ok (created, None, True))
       | Some before \<Rightarrow> tx_bind (wrapup_replace before b author) (\<lambda>after.
           tx_ok (after, Some (wr_written_by before), wr_body_markdown after \<noteq> wr_body_markdown before))) s = Inr ((w, replaced, changed), s1)"
    and keep: "(if changed then keep_version w head else tx_ok ()) s1 = Inr ((), s2)"
    and claim: "(if author = ByClaude then claimed_by_wrapup_in ?i else tx_ok ()) s2 = Inr ((), s3)"
    and t: "tx_publish (WrapupStreamEvent ?i (Some (wt_wrapup written)) False) s3 = Inr ((), t)" and answer: "written = ?view w p replaced"
    using run unfolding wrapup_write_in_def by (auto simp: tx_bind_Inr tx_lift_def project_of_Inr Let_def split: sum.splits)
  have store: "case wrapup_of ?i s of None \<Rightarrow> wrapup_create ?i b author s = Inr (w, s1) \<and> replaced = None \<and> changed
      | Some before \<Rightarrow> wrapup_replace before b author s = Inr (w, s1) \<and> replaced = Some (wr_written_by before)
          \<and> changed = (wr_body_markdown w \<noteq> wr_body_markdown before)"
    using stored by (auto simp: tx_bind_Inr split: option.splits)
  have w: "wrapup_put ?i w s s1" "wr_task_id w = ?i" "wr_body_markdown w = b" "wr_written_by w = author"
    using store created_put [OF ok(1)] replaced_put [OF ok(1)] wrapup_create_run by (auto split: option.splits)
  have changed: "changed = (map_option wr_body_markdown (wrapup_of ?i s) \<noteq> Some b)" using store w(3) by (auto split: option.splits)
  have s1: "distinct (map wn_id (wrapup_versions s1))" "numbers_fit (wr_task_id w) s1"
    using ok w by (simp_all add: wrapup_put_def wrapups_ok_def numbers_fit_def)
  have "if map_option wr_body_markdown (wrapup_of ?i s) = Some (wr_body_markdown w) then s2 = s1 else version_put w head s1 s2"
    using keep keep_version_run [OF s1] changed w(3) by (auto simp: tx_ok_def split: if_splits)
  note put = put_and_kept [OF ok(1) w(1,2) this]
  have "review_frame s2 s2" using put ok(2,3) frame_task_rows by (intro review_frame_refl) auto
  then have "review_frame s2 s3" using claim frame_review_ops(2) [of s2 ?i] by (auto simp: preserves_def tx_ok_def split: if_splits)
  then have same: "wrapups t = wrapups s2" "wrapup_versions t = wrapup_versions s2" using t by (auto simp: tx_publish_def tx_modify_def review_frame_def)
  have rows: "\<And>j. wrapup_of j t = wrapup_of j s2" "\<And>j. versions_newest_first j t = versions_newest_first j s2"
    by (simp_all add: same wrapup_of_def versions_newest_first_def)
  have "wrapup_written ?i b author head s t = wrapup_written ?i b author head s s2" "wrapups_ok t = wrapups_ok s2"
    by (simp_all only: wrapup_written_def wrapups_ok_def rows same)
  moreover have "replaced = map_option wr_written_by (wrapup_of ?i s)" using store by (auto split: option.splits)
  ultimately show ?thesis using put b answer w by auto
qed

text \<open>Deleting a task's wrapup takes away that text and nothing else; its versions outlive it.\<close>

lemma wrapup_delete_keeps_versions:
  assumes "wrapups_ok s"
  shows "\<exists>t. wrapup_delete i s = (Inr (), t) \<and> (\<forall>j. wrapup_of j t = (if j = i then None else wrapup_of j s))
    \<and> wrapup_versions t = wrapup_versions s \<and> wrapups_ok t"
proof -
  let ?d = "\<lambda>k. filter (\<lambda>w. wr_id w \<noteq> k) (wrapups s)"
  have d: "distinct (map wr_id (wrapups s))" "distinct (map wr_task_id (wrapups s))" using assms by (simp_all add: wrapups_ok_def)
  obtain t where t: "wrapup_delete i s = (Inr (), t)" "wrapup_versions t = wrapup_versions s"
    "wrapups t = (case wrapup_of i s of None \<Rightarrow> wrapups s | Some w \<Rightarrow> ?d (wr_id w))"
    by (cases "wrapup_of i s") (auto simp: wrapup_delete_def in_write_def tx_bind_def tx_gets_def delete_wrapup_row_def tx_publish_def tx_modify_def
        tx_begin_def tx_commit_def wrapup_of_def tx_ok_def)
  have same: "versions_newest_first j t = versions_newest_first j s" for j by (simp add: versions_newest_first_def t(2))
  have "wrapup_of j t = (if j = i then None else wrapup_of j s)" for j
  proof (cases "wrapup_of i s")
    case None then show ?thesis using t(3) by (simp add: wrapup_of_def)
  next
    case (Some w)
    have w: "w \<in> set (wrapups s)" "wr_task_id w = i" using Some by (auto simp: wrapup_of_def find_Some_iff)
    have "?d (wr_id w) = filter (\<lambda>x. wr_task_id x \<noteq> i) (wrapups s)"
      using d w by (intro filter_cong) (auto simp: distinct_map inj_on_def)
    moreover have "List.find (\<lambda>x. wr_task_id x = j) (filter (\<lambda>x. wr_task_id x \<noteq> i) xs)
        = (if j = i then None else List.find (\<lambda>x. wr_task_id x = j) xs)" for xs :: "wrapup list" by (induction xs) auto
    ultimately show ?thesis using t(3) Some by (simp add: wrapup_of_def)
  qed
  moreover from this have "wrapups_ok t" using assms t(2,3) same d
    by (auto simp: wrapups_ok_def distinct_map_filter split: option.splits if_splits)
  ultimately show ?thesis using t by blast
qed

text \<open>
  C35. Writing a wrapup replaces the task's text and keeps its history: once the call answers, the task's wrapup is the stripped text by
  that author and every other task's wrapup is as it was; if the text is new, the task's newest version is that text, by that author, at
  the commit read from the repository and numbered after the previous newest, followed by the nineteen before it, and if the text is the one
  already there no version is added or lost. The tables stay well formed: one wrapup per task, at most twenty versions of each, and the newest version of a
  task with a wrapup holds the wrapup's text.
\<close>

theorem wrapup_history:
  assumes "wrapup_write_at i body author head s = (Inr written, t)"
    and "wrapups_ok s" and "tasks_ok s" and "timers_ok s" and "numbers_fit i s"
  shows "\<exists>stored. wrapup_validated body = Inr stored \<and> wrapup_written i stored author head s t \<and> wrapups_ok t
    \<and> wt_created written = (wrapup_of i s = None) \<and> wt_replaced written = map_option wr_written_by (wrapup_of i s)"
proof -
  let ?b = "tx_begin s"
  obtain tk t' where tk: "find_task i ?b = Some tk" and run: "wrapup_write_in tk body author head ?b = Inr (written, t')" and t: "t = tx_commit t'"
    using assms(1) by (auto simp: wrapup_write_at_def in_write_Inr tx_bind_Inr task_or_unknown_Inr)
  have i: "tk_id tk = i" using tk find_task_Some by blast
  have begun: "wrapups_ok ?b" "tasks_ok ?b" "timers_ok ?b" "numbers_fit (tk_id tk) ?b"
    using assms(2-5) by (simp_all add: tx_begin_def i numbers_fit_def table_invariantD [OF wrapups_ok_table]
        table_invariantD [OF tasks_ok_table] table_invariantD [OF timers_ok_table])
  have rows: "wrapup_of j ?b = wrapup_of j s" "versions_newest_first j ?b = versions_newest_first j s" "next_number j ?b = next_number j s"
    "wrapup_of j t = wrapup_of j t'" "versions_newest_first j t = versions_newest_first j t'" for j
    by (simp_all add: t tx_begin_def tx_commit_def wrapup_of_def versions_newest_first_def next_number_def)
  have "wrapup_written i b author head ?b t' = wrapup_written i b author head s t" for b by (simp only: wrapup_written_def rows)
  moreover have "wrapups_ok t = wrapups_ok t'" by (simp only: wrapups_ok_def rows) (simp add: t tx_commit_def)
  ultimately show ?thesis using wrapup_write_in_run [OF begun run] by (simp add: i rows)
qed

lemma review_db_wrapups: "wrapups_ok review_db" "numbers_fit 2 review_db"
  by (simp_all add: wrapups_ok_def numbers_fit_def review_db_def timed_db_def run_defs)

theorem wrapup_history_witness:
  "\<exists>written t w. wrapup_write_at 2 (Some (lit '' Built '')) ByClaude (Some (lit ''abc'')) review_db = (Inr written, t)
     \<and> wrapup_of 2 t = Some w \<and> wr_body_markdown w = lit ''Built'' \<and> length (versions_newest_first 2 t) = 1"
proof -
  have body: "wrapup_validated (Some (lit '' Built '')) = Inr (lit ''Built'')" by (simp add: run_defs)
  have "isl (fst (wrapup_write_at 2 (Some (lit '' Built '')) ByClaude (Some (lit ''abc'')) review_db)) = False"
    by (simp add: review_db_def timed_db_def run_defs)
  then obtain written t where run: "wrapup_write_at 2 (Some (lit '' Built '')) ByClaude (Some (lit ''abc'')) review_db = (Inr written, t)"
    by (cases "wrapup_write_at 2 (Some (lit '' Built '')) ByClaude (Some (lit ''abc'')) review_db", cases "fst (wrapup_write_at 2 (Some (lit '' Built '')) ByClaude (Some (lit ''abc'')) review_db)") auto
  have none: "wrapup_of 2 review_db = None" "versions_newest_first 2 review_db = []" by (simp_all add: review_db_def timed_db_def run_defs)
  show ?thesis using wrapup_history [OF run review_db_wrapups(1) review_db_ok review_db_wrapups(2)] run body none
    by (auto simp: wrapup_written_def KEPT_PER_TASK_def simp del: lit_Cons lit_Nil)
qed

end
