(* ===== verification/Notes.thy ===== *)
theory Notes
  imports Foreign_Tables
begin

section \<open>Notes a session writes\<close>

text \<open>
  \<^verbatim>\<open>rekall-core/src/note\<close>: a session's note on one task, rewritten when the task has one of that title and the session asks for it. The
  handle of a note is cut from its id, so here it is the id itself.
\<close>

subsection \<open>Operations\<close>

definition NOTE_KIND :: str where "NOTE_KIND = lit ''notes''"
definition NOTE_TITLE_MAX :: nat where "NOTE_TITLE_MAX = 255"
definition NOTE_BODY_MAX :: nat where "NOTE_BODY_MAX = 100000"

datatype on_title_clash = RefuseClash | ReplaceClash

record written_note =
  nw_title :: str
  nw_note :: id
  nw_task_anchor :: str
  nw_notes_on_task :: nat
  nw_replaced :: bool
  nw_other_tasks :: nat

definition document_validate :: "document \<Rightarrow> unit result" where
  "document_validate d = violations_finish
     (max_length ''sourcePath'' (dc_source_path d) 500
     (max_length ''bodyMarkdown'' (Some (dc_body_markdown d)) 100000
     (max_length ''kind'' (Some (dc_kind d)) 40
     (not_blank ''kind'' (Some (dc_kind d))
     (max_length ''title'' (Some (dc_title d)) 255
     (not_blank ''title'' (Some (dc_title d))
     (violations_new ''Document'')))))))"

definition document_ok :: "db \<Rightarrow> document \<Rightarrow> bool" where
  "document_ok s d = (case dc_scope_project_id d of None \<Rightarrow> True | Some p \<Rightarrow> p \<in> pr_id ` set (projects s))"

definition insert_document :: "document \<Rightarrow> document action" where
  "insert_document = insert_row documents documents_update dc_id document_ok"
definition update_document :: "document \<Rightarrow> document action" where
  "update_document = update_row documents documents_update dc_id document_ok"

interpretation document_table: keyed_table documents documents_update dc_id document_ok
  by unfold_locales simp

definition insert_document_task :: "document_task \<Rightarrow> unit action" where
  "insert_document_task l = (\<lambda>s.
     if list_ex (\<lambda>x. dt_document_id x = dt_document_id l \<and> dt_task_id x = dt_task_id l) (document_tasks s)
        \<or> dt_document_id l \<notin> dc_id ` set (documents s) \<or> \<not> task_exists s (dt_task_id l)
     then Inl (Integrity (Msg ''constraint failed'' []))
     else Inr ((), s\<lparr>document_tasks := document_tasks s @ [l]\<rparr>))"

definition links_of_document :: "id \<Rightarrow> db \<Rightarrow> document_task list" where
  "links_of_document i s = filter (\<lambda>l. dt_document_id l = i) (document_tasks s)"

definition note_title :: "str option \<Rightarrow> str result" where
  "note_title title = (case present title of
       None \<Rightarrow> Inl (IllegalArgument (Msg ''A note needs a title'' []))
     | Some x \<Rightarrow> within x NOTE_TITLE_MAX (Msg ''A note's title is capped'' []))"

definition note_body :: "str option \<Rightarrow> str result" where
  "note_body body = (case present body of
       None \<Rightarrow> Inl (IllegalArgument (Msg ''A note needs a body'' []))
     | Some x \<Rightarrow> within x NOTE_BODY_MAX (Msg ''A note is capped'' []))"

definition note_clash :: "unicode_case \<Rightarrow> str \<Rightarrow> document list \<Rightarrow> document option" where
  "note_clash u wanted existing = List.find (\<lambda>note. equals_ignore_case u (strip (dc_title note)) wanted) existing"

definition note_rewrite :: "task \<Rightarrow> str \<Rightarrow> nat \<Rightarrow> document \<Rightarrow> str \<Rightarrow> written_note action" where
  "note_rewrite t anchor notes_on_task clash body =
     tx_bind (update_if_changed update_document (\<lambda>now d. d\<lparr>dc_updated_at := now\<rparr>) document_validate clash (clash\<lparr>dc_body_markdown := body\<rparr>)) (\<lambda>rewritten.
     tx_bind (tx_gets (links_of_document (dc_id rewritten))) (\<lambda>readers.
     tx_bind (tx_publish (NoteStreamEvent (tk_id t) (dc_id rewritten))) (\<lambda>_.
     tx_ok \<lparr>nw_title = dc_title rewritten, nw_note = dc_id rewritten, nw_task_anchor = anchor, nw_notes_on_task = notes_on_task,
       nw_replaced = True, nw_other_tasks = length readers - 1\<rparr>)))"

definition note_add :: "task \<Rightarrow> str \<Rightarrow> nat \<Rightarrow> id \<Rightarrow> str \<Rightarrow> str \<Rightarrow> written_note action" where
  "note_add t anchor notes_on_task project_id title body =
     tx_bind ctx_now (\<lambda>now.
     tx_bind random_id (\<lambda>i.
     let note = \<lparr>dc_id = i, dc_title = title, dc_kind = NOTE_KIND, dc_body_markdown = body, dc_source_path = None, dc_context_mode = Full,
           dc_scope_company_id = None, dc_scope_project_id = Some project_id, dc_created_at = now, dc_updated_at = now\<rparr>
     in tx_bind (tx_lift (document_validate note)) (\<lambda>_.
        tx_bind (insert_document note) (\<lambda>_.
        tx_bind (insert_document_task \<lparr>dt_document_id = dc_id note, dt_task_id = tk_id t, dt_position = as_i32 (int notes_on_task)\<rparr>) (\<lambda>_.
        tx_bind (tx_publish (NoteStreamEvent (tk_id t) (dc_id note))) (\<lambda>_.
        tx_ok \<lparr>nw_title = dc_title note, nw_note = dc_id note, nw_task_anchor = anchor, nw_notes_on_task = notes_on_task + 1,
          nw_replaced = False, nw_other_tasks = 0\<rparr>))))))"

definition note_write_in :: "unicode_case \<Rightarrow> str option \<Rightarrow> str \<Rightarrow> str option \<Rightarrow> str option \<Rightarrow> on_title_clash \<Rightarrow> written_note action" where
  "note_write_in u project_label task_label title body on_clash =
     tx_bind (resolve_task u project_label task_label) (\<lambda>t.
     tx_bind (tx_lift (note_title title)) (\<lambda>wanted.
     tx_bind (tx_lift (note_body body)) (\<lambda>given.
     tx_bind (tx_gets (documents_of_task (tk_id t))) (\<lambda>existing.
     tx_bind (project_of t) (\<lambda>p.
     case note_clash u wanted existing of
       Some clash \<Rightarrow>
         if on_clash = RefuseClash then tx_fail (IllegalArgument (Msg ''This task already has a note titled'' [dc_title clash]))
         else note_rewrite t (task_anchor t (pr_label p)) (length existing) clash given
     | None \<Rightarrow> note_add t (task_anchor t (pr_label p)) (length existing) (pr_id p) wanted given)))))"

definition note_write :: "unicode_case \<Rightarrow> str option \<Rightarrow> str \<Rightarrow> str option \<Rightarrow> str option \<Rightarrow> on_title_clash \<Rightarrow> db \<Rightarrow> written_note result \<times> db" where
  "note_write u project_label task_label title body on_clash = in_write (note_write_in u project_label task_label title body on_clash)"

lemmas notes_run [run_defs] = NOTE_KIND_def NOTE_TITLE_MAX_def NOTE_BODY_MAX_def document_validate_def document_ok_def insert_document_def
  update_document_def insert_document_task_def links_of_document_def note_title_def note_body_def note_clash_def note_rewrite_def note_add_def
  note_write_in_def note_write_def documents_of_task_def

subsection \<open>The notes of a task\<close>

text \<open>Every link names a note and a task's notes stand at the positions 0, 1, 2 and so on.\<close>

definition notes_ok :: "db \<Rightarrow> bool" where
  "notes_ok s \<longleftrightarrow> distinct (map dc_id (documents s)) \<and> (\<forall>l \<in> set (document_tasks s). dt_document_id l \<in> dc_id ` set (documents s))
     \<and> (\<forall>i. let links = filter (\<lambda>l. dt_task_id l = i) (document_tasks s)
         in mset (map dt_position links) = mset (map int [0..<length links]))"

lemma notes_count:
  assumes "notes_ok s"
  shows "length (documents_of_task i s) = length (filter (\<lambda>l. dt_task_id l = i) (document_tasks s))"
proof -
  have "\<forall>l \<in> set (sort_key dt_position (filter (\<lambda>l. dt_task_id l = i) (document_tasks s))). find_row dc_id (dt_document_id l) (documents s) \<noteq> None"
    using assms by (auto simp: notes_ok_def find_row_None)
  moreover have "length (List.map_filter f ls) = length ls" if "\<forall>l \<in> set ls. f l \<noteq> None" for f :: "document_task \<Rightarrow> document option" and ls
    using that by (induction ls) (auto simp: List.map_filter_simps)
  ultimately show ?thesis by (simp add: documents_of_task_def)
qed

text \<open>A new note stands last on its task and changes no other task's list.\<close>

lemma notes_added:
  assumes ok: "notes_ok s" and new: "dc_id note \<notin> dc_id ` set (documents s)"
    and few: "length (documents_of_task i s) < 2 ^ 31"
    and t: "documents t = documents s @ [note]"
      "document_tasks t = document_tasks s @ [\<lparr>dt_document_id = dc_id note, dt_task_id = i, dt_position = as_i32 (int (length (documents_of_task i s)))\<rparr>]"
  shows "documents_of_task j t = (if j = i then documents_of_task j s @ [note] else documents_of_task j s)" and "notes_ok t"
proof -
  let ?links = "\<lambda>j. filter (\<lambda>l. dt_task_id l = j) (document_tasks s)" and ?n = "length (documents_of_task i s)"
  let ?l = "\<lparr>dt_document_id = dc_id note, dt_task_id = i, dt_position = as_i32 (int ?n)\<rparr>"
  have n: "as_i32 (int ?n) = int ?n" using few by (intro as_i32_id) auto
  have count: "?n = length (?links i)" by (rule notes_count [OF ok])
  have dense: "mset (map dt_position (?links j)) = mset (map int [0..<length (?links j)])" for j using ok by (simp add: notes_ok_def Let_def)
  have "dt_position y \<le> int ?n" if "y \<in> set (?links i)" for y
  proof -
    have "dt_position y \<in> set_mset (mset (map dt_position (?links i)))" using that by auto
    then show ?thesis unfolding dense count by auto
  qed
  then have sorted: "sort_key dt_position (filter (\<lambda>l. dt_task_id l = j) (document_tasks t))
      = sort_key dt_position (?links j) @ (if j = i then [?l] else [])" for j
    using sort_key_largest [of "?links i" dt_position ?l] by (simp add: t n)
  have found: "find_row dc_id (dt_document_id l) (documents t) = find_row dc_id (dt_document_id l) (documents s)" if "l \<in> set (document_tasks s)" for l
  proof -
    have "find_row dc_id (dt_document_id l) (documents s) \<noteq> None" using ok that by (auto simp: notes_ok_def find_row_None)
    then show ?thesis by (auto simp: t find_row_append)
  qed
  have same: "List.map_filter (\<lambda>l. find_row dc_id (dt_document_id l) (documents t)) (sort_key dt_position (?links j)) = documents_of_task j s" for j
    unfolding documents_of_task_def by (rule map_filter_cong) (simp_all add: found)
  have itself: "find_row dc_id (dc_id note) (documents t) = Some note"
    using new by (simp add: t find_row_append find_row_None [THEN iffD2]) (simp add: find_row_def)
  show "documents_of_task j t = (if j = i then documents_of_task j s @ [note] else documents_of_task j s)"
    using same [of j] by (simp add: documents_of_task_def [of j t] sorted map_filter_append itself List.map_filter_simps)
  have "mset (map dt_position (?links i @ [?l])) = mset (map dt_position (?links i)) + {#int ?n#}" by (simp only: map_append mset_append) (simp add: n)
  also have "\<dots> = mset (map int [0..<length (?links i)]) + {#int (length (?links i))#}" by (simp only: dense count)
  also have "\<dots> = mset (map int [0..<length (?links i @ [?l])])"
    by (simp only: length_append list.size add_Suc_right add_0_right upt_Suc_append [OF le0] map_append mset_append list.map mset.simps)
  finally have "mset (map dt_position (filter (\<lambda>l. dt_task_id l = j) (document_tasks t)))
      = mset (map int [0..<length (filter (\<lambda>l. dt_task_id l = j) (document_tasks t))])" for j
    using dense [of j] by (cases "i = j") (simp_all only: t filter_append filter.simps document_task.select_convs if_True if_False append_Nil2 simp_thms)
  then show "notes_ok t" using ok new by (auto simp: notes_ok_def t Let_def)
qed

text \<open>A rewritten note keeps its place everywhere; only its row changes.\<close>

lemma notes_rewritten:
  assumes ok: "notes_ok s" and row: "dc_id x = dc_id clash" "clash \<in> set (documents s)"
    and t: "documents t = replace_row dc_id x (documents s)" "document_tasks t = document_tasks s"
  shows "documents_of_task j t = map (\<lambda>d. if d = clash then x else d) (documents_of_task j s)" and "notes_ok t"
proof -
  have d: "distinct (map dc_id (documents s))" using ok by (simp add: notes_ok_def)
  have find: "find_row dc_id i (documents t) = map_option (\<lambda>d. if d = clash then x else d) (find_row dc_id i (documents s))" for i
  proof (cases "find_row dc_id i (documents s)")
    case None
    then show ?thesis by (auto simp: t find_replace_row)
  next
    case (Some r)
    then have r: "r \<in> set (documents s)" "dc_id r = i" by (auto simp: find_row_def find_Some_iff)
    then have "r = clash \<longleftrightarrow> i = dc_id x" using d row by (auto simp: distinct_map inj_on_def)
    then show ?thesis using Some by (auto simp: t find_replace_row)
  qed
  have "List.map_filter (\<lambda>l. map_option f (g l)) ls = map f (List.map_filter g ls)" for f :: "document \<Rightarrow> document" and g :: "document_task \<Rightarrow> document option" and ls
    by (induction ls) (auto simp: List.map_filter_simps split: option.split)
  then show "documents_of_task j t = map (\<lambda>d. if d = clash then x else d) (documents_of_task j s)"
    by (simp add: documents_of_task_def find t(2))
  have "map dc_id (documents t) = map dc_id (documents s)" by (simp add: t)
  then have "dc_id ` set (documents t) = dc_id ` set (documents s)" by (metis list.set_map)
  then show "notes_ok t" using ok by (simp add: notes_ok_def t)
qed

text \<open>What one write does to the lists of notes.\<close>

definition note_effect :: "unicode_case \<Rightarrow> id \<Rightarrow> str \<Rightarrow> str \<Rightarrow> db \<Rightarrow> db \<Rightarrow> bool" where
  "note_effect u i wanted given s t = (case note_clash u wanted (documents_of_task i s) of
       None \<Rightarrow> (\<exists>note. dc_title note = wanted \<and> dc_body_markdown note = given
         \<and> (\<forall>j. documents_of_task j t = (if j = i then documents_of_task j s @ [note] else documents_of_task j s)))
     | Some clash \<Rightarrow> (\<exists>note. dc_id note = dc_id clash \<and> dc_title note = dc_title clash \<and> dc_body_markdown note = given
         \<and> (\<forall>j. documents_of_task j t = map (\<lambda>d. if d = clash then note else d) (documents_of_task j s))))"

lemma note_add_run:
  assumes "note_add tk anchor (length (documents_of_task (tk_id tk) s)) p wanted given s = Inr (w, t)" "notes_ok s"
    "length (documents_of_task (tk_id tk) s) < 2 ^ 31"
  shows "\<exists>note. dc_title note = wanted \<and> dc_body_markdown note = given
      \<and> (\<forall>j. documents_of_task j t = (if j = tk_id tk then documents_of_task j s @ [note] else documents_of_task j s))"
    "notes_ok t \<and> \<not> nw_replaced w \<and> nw_notes_on_task w = length (documents_of_task (tk_id tk) s) + 1"
proof -
  let ?note = "\<lparr>dc_id = shd (entropy s), dc_title = wanted, dc_kind = NOTE_KIND, dc_body_markdown = given, dc_source_path = None, dc_context_mode = Full,
       dc_scope_company_id = None, dc_scope_project_id = Some p, dc_created_at = shd (clock s), dc_updated_at = shd (clock s)\<rparr>"
  have new: "dc_id ?note \<notin> dc_id ` set (documents s)"
    and t: "documents t = documents s @ [?note]" "document_tasks t = document_tasks s
      @ [\<lparr>dt_document_id = dc_id ?note, dt_task_id = tk_id tk, dt_position = as_i32 (int (length (documents_of_task (tk_id tk) s)))\<rparr>]"
    and w: "\<not> nw_replaced w" "nw_notes_on_task w = length (documents_of_task (tk_id tk) s) + 1"
    using assms(1) by (auto simp: note_add_def tx_bind_Inr ctx_now_def random_id_def insert_document_def document_table.insert_Inr
        insert_document_task_def tx_publish_def tx_modify_def Let_def split: if_splits)
  note added = notes_added [OF assms(2) new assms(3) t]
  show "\<exists>note. dc_title note = wanted \<and> dc_body_markdown note = given
      \<and> (\<forall>j. documents_of_task j t = (if j = tk_id tk then documents_of_task j s @ [note] else documents_of_task j s))"
    using added(1) by (intro exI [of _ ?note]) simp
  show "notes_ok t \<and> \<not> nw_replaced w \<and> nw_notes_on_task w = length (documents_of_task (tk_id tk) s) + 1" using added(2) w by blast
qed

lemma note_rewrite_run:
  assumes run: "note_rewrite tk anchor n clash given s = Inr (w, t)" and ok: "notes_ok s" and clash: "clash \<in> set (documents s)"
  shows "\<exists>note. dc_id note = dc_id clash \<and> dc_title note = dc_title clash \<and> dc_body_markdown note = given
      \<and> (\<forall>j. documents_of_task j t = map (\<lambda>d. if d = clash then note else d) (documents_of_task j s))"
    "notes_ok t \<and> nw_replaced w \<and> nw_notes_on_task w = n"
proof -
  have d: "distinct (map dc_id (documents s))" using ok by (simp add: notes_ok_def)
  obtain x s1 where save: "update_if_changed update_document (\<lambda>now d. d\<lparr>dc_updated_at := now\<rparr>) document_validate clash (clash\<lparr>dc_body_markdown := given\<rparr>) s = Inr (x, s1)"
    and t: "documents t = documents s1" "document_tasks t = document_tasks s1" and w: "nw_replaced w" "nw_notes_on_task w = n"
    using run by (auto simp: note_rewrite_def tx_bind_Inr tx_publish_def tx_modify_def)
  have "\<exists>u. x = clash\<lparr>dc_body_markdown := given, dc_updated_at := u\<rparr> \<and> documents s1 = replace_row dc_id x (documents s) \<and> document_tasks s1 = document_tasks s"
  proof (cases "clash\<lparr>dc_body_markdown := given\<rparr> = clash")
    case True
    have "x = clash" "documents s1 = documents s" "document_tasks s1 = document_tasks s"
      using save True by (auto simp: update_if_changed_def tx_bind_Inr ctx_now_def)
    moreover have "clash = clash\<lparr>dc_body_markdown := given, dc_updated_at := dc_updated_at clash\<rparr>" using True by simp
    ultimately show ?thesis using replace_row_id [OF d clash] by metis
  next
    case False
    then show ?thesis using save by (auto simp: update_if_changed_def tx_bind_Inr ctx_now_def update_document_def document_table.update_Inr Let_def)
  qed
  then obtain u where x: "x = clash\<lparr>dc_body_markdown := given, dc_updated_at := u\<rparr>"
    and rows: "documents t = replace_row dc_id x (documents s)" "document_tasks t = document_tasks s" using t by auto
  have "dc_id x = dc_id clash" by (simp add: x)
  note put = notes_rewritten [OF ok this clash rows]
  show "\<exists>note. dc_id note = dc_id clash \<and> dc_title note = dc_title clash \<and> dc_body_markdown note = given
      \<and> (\<forall>j. documents_of_task j t = map (\<lambda>d. if d = clash then note else d) (documents_of_task j s))"
    by (intro exI [of _ x] conjI allI put(1)) (simp_all add: x)
  show "notes_ok t \<and> nw_replaced w \<and> nw_notes_on_task w = n" using put(2) w by blast
qed

lemma note_write_in_run:
  assumes ok: "notes_ok s" "length (document_tasks s) < 2 ^ 31" and run: "note_write_in u project_label task_label title body on_clash s = Inr (w, t)"
  shows "\<exists>tk wanted given. resolve_task u project_label task_label s = Inr (tk, s) \<and> note_title title = Inr wanted \<and> note_body body = Inr given
    \<and> note_effect u (tk_id tk) wanted given s t \<and> notes_ok t
    \<and> nw_replaced w = (note_clash u wanted (documents_of_task (tk_id tk) s) \<noteq> None) \<and> (nw_replaced w \<longrightarrow> on_clash = ReplaceClash)"
proof -
  obtain tk wanted given p s0 s1 where tk: "resolve_task u project_label task_label s = Inr (tk, s0)" and valid: "note_title title = Inr wanted" "note_body body = Inr given"
    and p: "project_of tk s0 = Inr (p, s1)"
    and rest: "(case note_clash u wanted (documents_of_task (tk_id tk) s0) of
       Some clash \<Rightarrow>
         if on_clash = RefuseClash then tx_fail (IllegalArgument (Msg ''This task already has a note titled'' [dc_title clash]))
         else note_rewrite tk (task_anchor tk (pr_label p)) (length (documents_of_task (tk_id tk) s0)) clash given
     | None \<Rightarrow> note_add tk (task_anchor tk (pr_label p)) (length (documents_of_task (tk_id tk) s0)) (pr_id p) wanted given) s1 = Inr (w, t)"
    using run unfolding note_write_in_def by (auto simp: tx_bind_Inr)
  have s: "s0 = s" "s1 = s" using resolve_task_Inr(1) [OF tk] p by (simp_all add: project_of_Inr)
  have few: "length (documents_of_task (tk_id tk) s) < 2 ^ 31"
    unfolding notes_count [OF ok(1)] using ok(2) by (rule le_less_trans [OF length_filter_le])
  have "note_effect u (tk_id tk) wanted given s t \<and> notes_ok t
    \<and> nw_replaced w = (note_clash u wanted (documents_of_task (tk_id tk) s) \<noteq> None) \<and> (nw_replaced w \<longrightarrow> on_clash = ReplaceClash)"
  proof (cases "note_clash u wanted (documents_of_task (tk_id tk) s)")
    case None
    then have "note_add tk (task_anchor tk (pr_label p)) (length (documents_of_task (tk_id tk) s)) (pr_id p) wanted given s = Inr (w, t)"
      using rest by (simp add: s)
    from note_add_run [OF this ok(1) few] show ?thesis using None by (simp add: note_effect_def)
  next
    case (Some clash)
    have clash: "clash \<in> set (documents_of_task (tk_id tk) s)" using Some by (auto simp: note_clash_def find_Some_iff)
    then obtain l :: document_task where "find_row dc_id (dt_document_id l) (documents s) = Some clash" by (auto simp: documents_of_task_def List.map_filter_def)
    then have "clash \<in> set (documents s)" by (auto simp: find_row_def find_Some_iff)
    moreover have "note_rewrite tk (task_anchor tk (pr_label p)) (length (documents_of_task (tk_id tk) s)) clash given s = Inr (w, t)" "on_clash = ReplaceClash"
      using rest Some by (cases on_clash; simp add: s)+
    ultimately show ?thesis using note_rewrite_run [OF _ ok(1)] Some by (simp add: note_effect_def)
  qed
  then show ?thesis using tk valid s by blast
qed

text \<open>
  C31. A session's note goes where it says and touches nothing else. The call either changes nothing, or the task it names had no note of that
  title, ignoring case and outer spaces, and the new note stands last among the task's notes while every other task's notes are as they were; or
  it had one and the session asked to replace it, and then that note has the new text under its old title, in the place it had on every task that
  carries it, and no other note has changed. Either way the notes of every task stay densely ordered.
\<close>

theorem note_write_effect:
  assumes "note_write u project_label task_label title body on_clash s = (r, t)" and "notes_ok s" and "length (document_tasks s) < 2 ^ 31"
  shows "case r of
      Inl _ \<Rightarrow> t = s
    | Inr w \<Rightarrow> (\<exists>tk \<in> set (tasks s). \<exists>wanted given. tk_label tk = lowered u task_label \<and> note_title title = Inr wanted \<and> note_body body = Inr given
        \<and> note_effect u (tk_id tk) wanted given s t \<and> (nw_replaced w \<longrightarrow> on_clash = ReplaceClash)
        \<and> nw_replaced w = (note_clash u wanted (documents_of_task (tk_id tk) s) \<noteq> None)) \<and> notes_ok t"
proof (cases r)
  case (Inl e)
  then show ?thesis using assms(1) by (auto simp: note_write_def dest: in_write_Inl)
next
  case (Inr w)
  obtain t' where run: "note_write_in u project_label task_label title body on_clash (tx_begin s) = Inr (w, t')" and t: "t = tx_commit t'"
    using assms(1) Inr by (auto simp: note_write_def in_write_Inr)
  have begun: "notes_ok (tx_begin s)" "length (document_tasks (tx_begin s)) < 2 ^ 31" using assms(2,3) by (simp_all add: tx_begin_def notes_ok_def)
  have same: "documents_of_task j (tx_begin s) = documents_of_task j s" "documents_of_task j t = documents_of_task j t'" for j
    by (simp_all add: documents_of_task_def tx_begin_def tx_commit_def t)
  obtain tk wanted given where tk: "resolve_task u project_label task_label (tx_begin s) = Inr (tk, tx_begin s)"
    and rest: "note_title title = Inr wanted" "note_body body = Inr given" "note_effect u (tk_id tk) wanted given s t" "notes_ok t'"
      "nw_replaced w = (note_clash u wanted (documents_of_task (tk_id tk) s) \<noteq> None)" "nw_replaced w \<longrightarrow> on_clash = ReplaceClash"
    using note_write_in_run [OF begun run] unfolding note_effect_def same by blast
  have "tk \<in> set (tasks s)" "tk_label tk = lowered u task_label" using resolve_task_Inr(2,3) [OF tk] by (simp_all add: tx_begin_def)
  moreover have "notes_ok t" using rest(4) by (simp add: t tx_commit_def notes_ok_def)
  ultimately show ?thesis using rest Inr by auto
qed

definition noted_db :: db where
  "noted_db = empty_db\<lparr>projects := [sample_project], tasks := [sample_task],
     documents := [\<lparr>dc_id = 7, dc_title = lit ''Plan'', dc_kind = NOTE_KIND, dc_body_markdown = lit ''old'', dc_source_path = None, dc_context_mode = Full,
       dc_scope_company_id = None, dc_scope_project_id = Some 1, dc_created_at = 0, dc_updated_at = 0\<rparr>],
     document_tasks := [\<lparr>dt_document_id = 7, dt_task_id = 2, dt_position = 0\<rparr>]\<rparr>"

lemma noted_db_ok: "notes_ok noted_db" "length (document_tasks noted_db) < 2 ^ 31"
  by (simp_all add: notes_ok_def noted_db_def sample_defs)

theorem note_write_effect_witness:
  "\<exists>w t. note_write ascii_case None (lit ''t'') (Some (lit ''plan '')) (Some (lit ''new'')) ReplaceClash noted_db = (Inr w, t)
     \<and> nw_replaced w \<and> notes_ok t"
proof -
  let ?call = "note_write ascii_case None (lit ''t'') (Some (lit ''plan '')) (Some (lit ''new'')) ReplaceClash noted_db"
  obtain r t where run: "?call = (r, t)" by (rule prod.exhaust)
  have "\<not> isl (fst ?call) \<and> nw_replaced (projr (fst ?call))" by (simp add: noted_db_def run_defs)
  then obtain w where r: "r = Inr w" "nw_replaced w" using run by (cases r) auto
  show ?thesis using note_write_effect [OF run noted_db_ok] run r by auto
qed

end
