(* ===== verification/Feedback.thy ===== *)
theory Feedback
  imports Foreign_Tables
begin

section \<open>The thread of a task\<close>

text \<open>
  \<^verbatim>\<open>rekall-core/src/feedback\<close> and \<^verbatim>\<open>rekall-console/src/feedback\<close>: a person's feedback on a task and the rewrites of its description, kept as a
  thread of numbered entries. An entry waits, is taken with all the others that wait into a numbered pass, and is applied when a session replies; a
  session that ends gives back what it left unanswered.
\<close>

subsection \<open>Entries\<close>

definition FEEDBACK_BODY_MAX :: nat where "FEEDBACK_BODY_MAX = 100000"
definition REPLY_MAX_CHARACTERS :: nat where "REPLY_MAX_CHARACTERS = 2000"

definition is_revision :: "feedback_kind \<Rightarrow> bool" where
  "is_revision kind = (kind = Revision)"

definition feedback_new :: "id \<Rightarrow> id \<Rightarrow> int \<Rightarrow> feedback_kind \<Rightarrow> str option \<Rightarrow> str \<Rightarrow> int option \<Rightarrow> instant \<Rightarrow> task_feedback" where
  "feedback_new i task_id seq kind quoted body follows_seq now =
     \<lparr>tf_id = i, tf_task_id = task_id, tf_seq = seq, tf_kind = kind, tf_state = FeedbackPending, tf_quoted_markdown = quoted, tf_body_markdown = body,
      tf_reply_markdown = None, tf_created_at = now, tf_updated_at = now, tf_applied_at = None, tf_pass = None, tf_taken_at = None,
      tf_follows_seq = follows_seq\<rparr>"

definition feedback_open :: "task_feedback \<Rightarrow> bool" where
  "feedback_open e = (tf_state e = FeedbackPending \<or> tf_state e = FeedbackRunning)"

definition feedback_take :: "int \<Rightarrow> instant \<Rightarrow> task_feedback \<Rightarrow> task_feedback" where
  "feedback_take pass now e = e\<lparr>tf_state := FeedbackRunning, tf_pass := Some pass, tf_taken_at := Some now, tf_updated_at := now\<rparr>"

definition feedback_release :: "instant \<Rightarrow> task_feedback \<Rightarrow> task_feedback" where
  "feedback_release now e = e\<lparr>tf_state := FeedbackPending, tf_pass := None, tf_taken_at := None, tf_updated_at := now\<rparr>"

definition mark_applied :: "str \<Rightarrow> instant \<Rightarrow> task_feedback \<Rightarrow> task_feedback" where
  "mark_applied reply now e = e\<lparr>tf_state := FeedbackApplied, tf_reply_markdown := Some reply, tf_applied_at := Some now, tf_updated_at := now\<rparr>"

definition feedback_validate :: "task_feedback \<Rightarrow> unit result" where
  "feedback_validate e = violations_finish
     (require_holds (\<not> (is_revision (tf_kind e) \<and> tf_follows_seq e \<noteq> None)) (lit ''a revision follows the description, not an entry'')
     (require_holds (case tf_follows_seq e of None \<Rightarrow> True | Some followed \<Rightarrow> followed \<ge> 1 \<and> followed \<noteq> tf_seq e) (lit ''followsSeq names an earlier entry, never the entry itself'')
     (require_holds (is_revision (tf_kind e) = (tf_quoted_markdown e \<noteq> None)) (lit ''only a revision carries quotedMarkdown, and a revision must'')
     (max_length ''replyMarkdown'' (tf_reply_markdown e) REPLY_MAX_CHARACTERS
     (max_length ''quotedMarkdown'' (tf_quoted_markdown e) FEEDBACK_BODY_MAX
     (max_length ''bodyMarkdown'' (Some (tf_body_markdown e)) FEEDBACK_BODY_MAX
     (not_blank ''bodyMarkdown'' (Some (tf_body_markdown e))
     (in_range ''seq'' (tf_seq e) 1 (2 ^ 31 - 1)
     (violations_new ''Feedback'')))))))))"

definition feedback_row_ok :: "db \<Rightarrow> task_feedback \<Rightarrow> bool" where
  "feedback_row_ok s e = (task_exists s (tf_task_id e)
     \<and> list_all (\<lambda>x. tf_id x = tf_id e \<or> \<not> (tf_task_id x = tf_task_id e \<and> tf_seq x = tf_seq e)) (task_feedbacks s))"

definition insert_feedback :: "task_feedback \<Rightarrow> task_feedback action" where
  "insert_feedback = insert_row task_feedbacks task_feedbacks_update tf_id feedback_row_ok"
definition update_feedback :: "task_feedback \<Rightarrow> task_feedback action" where
  "update_feedback = update_row task_feedbacks task_feedbacks_update tf_id feedback_row_ok"
definition delete_feedback :: "id \<Rightarrow> unit action" where
  "delete_feedback i = tx_modify (\<lambda>s. s\<lparr>task_feedbacks := filter (\<lambda>e. tf_id e \<noteq> i) (task_feedbacks s)\<rparr>)"

interpretation feedback_table: keyed_table task_feedbacks task_feedbacks_update tf_id feedback_row_ok
  by unfold_locales simp

text \<open>Writing a row over the one it was read from, at a moment already read.\<close>

definition feedback_save :: "instant \<Rightarrow> task_feedback \<Rightarrow> task_feedback \<Rightarrow> task_feedback action" where
  "feedback_save now before after =
     (if after = before then tx_ok after
      else let stamped = after\<lparr>tf_updated_at := now\<rparr>
        in tx_bind (tx_lift (feedback_validate stamped)) (\<lambda>_.
           tx_bind (update_feedback stamped) (\<lambda>_. tx_ok stamped)))"

subsection \<open>Queries\<close>

definition thread_of :: "id \<Rightarrow> db \<Rightarrow> task_feedback list" where
  "thread_of i s = sort_key tf_seq (filter (\<lambda>e. tf_task_id e = i) (task_feedbacks s))"

definition find_feedback :: "id \<Rightarrow> db \<Rightarrow> task_feedback option" where
  "find_feedback i s = find_row tf_id i (task_feedbacks s)"

definition find_by_seq :: "id \<Rightarrow> int \<Rightarrow> db \<Rightarrow> task_feedback option" where
  "find_by_seq i seq s = List.find (\<lambda>e. tf_task_id e = i \<and> tf_seq e = seq) (task_feedbacks s)"

definition next_seq :: "id \<Rightarrow> db \<Rightarrow> int" where
  "next_seq i s = (case rev (thread_of i s) of [] \<Rightarrow> 1 | last_entry # _ \<Rightarrow> as_i32 (tf_seq last_entry + 1))"

definition entries_in_state :: "id \<Rightarrow> feedback_state list \<Rightarrow> db \<Rightarrow> task_feedback list" where
  "entries_in_state i states s = filter (\<lambda>e. tf_state e \<in> set states) (thread_of i s)"

definition pending_of_task :: "id \<Rightarrow> db \<Rightarrow> task_feedback list" where
  "pending_of_task i = entries_in_state i [FeedbackPending]"
definition running_of_task :: "id \<Rightarrow> db \<Rightarrow> task_feedback list" where
  "running_of_task i = entries_in_state i [FeedbackRunning]"
definition open_of_task :: "id \<Rightarrow> db \<Rightarrow> task_feedback list" where
  "open_of_task i = entries_in_state i [FeedbackPending, FeedbackRunning]"

definition latest_pass :: "id \<Rightarrow> db \<Rightarrow> int" where
  "latest_pass i s = (let passes = List.map_filter tf_pass (filter (\<lambda>e. tf_task_id e = i) (task_feedbacks s))
     in if passes = [] then 0 else Max (set passes))"

definition latest_open_revision :: "id \<Rightarrow> db \<Rightarrow> task_feedback option" where
  "latest_open_revision i s = (case rev (filter (\<lambda>e. tf_kind e = Revision) (pending_of_task i s)) of [] \<Rightarrow> None | e # _ \<Rightarrow> Some e)"

subsection \<open>A session's replies\<close>

record replied =
  rp_task_anchor :: str
  rp_applied :: "int list"
  rp_still_open :: "int list"

definition validated_reply :: "int \<Rightarrow> str \<Rightarrow> str result" where
  "validated_reply seq given = (case present (Some given) of
       None \<Rightarrow> Inl (IllegalArgument (Msg ''The reply is blank'' []))
     | Some x \<Rightarrow> within x REPLY_MAX_CHARACTERS (Msg ''The reply is capped'' []))"

definition apply_reply :: "id \<Rightarrow> instant \<Rightarrow> int \<times> str \<Rightarrow> int action" where
  "apply_reply task_id now answered = (case answered of (seq, given) \<Rightarrow>
     tx_bind (tx_gets (find_by_seq task_id seq)) (\<lambda>found. case found of
       None \<Rightarrow> tx_fail (IllegalArgument (Msg ''This task's thread has no such entry'' []))
     | Some entry \<Rightarrow>
         if \<not> feedback_open entry then tx_fail (IllegalArgument (Msg ''The entry is already applied'' []))
         else tx_bind (tx_lift (validated_reply seq given)) (\<lambda>reply.
              tx_bind (feedback_save now entry (mark_applied reply now entry)) (\<lambda>_. tx_ok seq))))"

definition feedback_reply_in :: "unicode_case \<Rightarrow> str option \<Rightarrow> str \<Rightarrow> (int \<times> str) list \<Rightarrow> replied action" where
  "feedback_reply_in u project_label task_label replies =
     tx_bind (resolve_task u project_label task_label) (\<lambda>t.
     tx_bind (project_of t) (\<lambda>p.
     if replies = [] then tx_fail (IllegalArgument (Msg ''A reply names at least one pending entry'' []))
     else tx_bind ctx_now (\<lambda>now.
       tx_bind (tx_map (apply_reply (tk_id t) now) replies) (\<lambda>applied.
       tx_bind (tx_gets (\<lambda>s. map tf_seq (open_of_task (tk_id t) s))) (\<lambda>still_open.
       tx_bind (tx_publish (FeedbackStreamEvent (tk_id t))) (\<lambda>_.
       tx_ok \<lparr>rp_task_anchor = task_anchor t (pr_label p), rp_applied = applied, rp_still_open = still_open\<rparr>))))))"

definition feedback_reply :: "unicode_case \<Rightarrow> str option \<Rightarrow> str \<Rightarrow> (int \<times> str) list \<Rightarrow> db \<Rightarrow> replied result \<times> db" where
  "feedback_reply u project_label task_label replies = in_write (feedback_reply_in u project_label task_label replies)"

definition release_feedback_in :: "id \<Rightarrow> unit action" where
  "release_feedback_in task_id =
     tx_bind (tx_gets (running_of_task task_id)) (\<lambda>running.
     if running = [] then tx_ok ()
     else tx_bind ctx_now (\<lambda>now.
       tx_bind (tx_each (\<lambda>before. tx_bind (feedback_save now before (feedback_release now before)) (\<lambda>_. tx_ok ())) running) (\<lambda>_.
       tx_publish (FeedbackStreamEvent task_id))))"

definition release_feedback :: "id \<Rightarrow> db \<Rightarrow> unit result \<times> db" where
  "release_feedback task_id = in_write (release_feedback_in task_id)"

subsection \<open>The console\<close>

record feedback_view =
  fv_id :: id
  fv_task_id :: id
  fv_seq :: int
  fv_kind :: feedback_kind
  fv_state :: feedback_state
  fv_quoted_markdown :: "str option"
  fv_body_markdown :: str
  fv_reply_markdown :: "str option"
  fv_created_at :: instant
  fv_applied_at :: "instant option"
  fv_pass :: "int option"
  fv_taken_at :: "instant option"
  fv_follows_seq :: "int option"

definition feedback_view_of :: "task_feedback \<Rightarrow> feedback_view" where
  "feedback_view_of e = \<lparr>fv_id = tf_id e, fv_task_id = tf_task_id e, fv_seq = tf_seq e, fv_kind = tf_kind e, fv_state = tf_state e,
     fv_quoted_markdown = tf_quoted_markdown e, fv_body_markdown = tf_body_markdown e, fv_reply_markdown = tf_reply_markdown e,
     fv_created_at = tf_created_at e, fv_applied_at = tf_applied_at e, fv_pass = tf_pass e, fv_taken_at = tf_taken_at e,
     fv_follows_seq = tf_follows_seq e\<rparr>"

record add_feedback_command =
  af_kind :: feedback_kind
  af_body :: str
  af_follows_seq :: "int option"

definition feedback_list :: "id \<Rightarrow> db \<Rightarrow> feedback_view list result" where
  "feedback_list task_id = in_read (tx_bind (require_task task_id) (\<lambda>_.
     tx_bind (tx_gets (thread_of task_id)) (\<lambda>thread. tx_ok (map feedback_view_of thread))))"

definition require_typed_kind :: "feedback_kind \<Rightarrow> unit result" where
  "require_typed_kind kind = refuse_if (is_revision kind) (IllegalArgument (Msg ''A revision is never written'' []))"

definition require_pending_entry :: "id \<Rightarrow> task_feedback action" where
  "require_pending_entry i = tx_bind (tx_gets (find_feedback i)) (\<lambda>found. case found of
       None \<Rightarrow> tx_fail (NotFound (Msg ''Feedback'' []))
     | Some entry \<Rightarrow> (case tf_state entry of
           FeedbackPending \<Rightarrow> tx_ok entry
         | FeedbackRunning \<Rightarrow> tx_fail (Conflict (Msg ''This entry is in a pass'' []))
         | FeedbackApplied \<Rightarrow> tx_fail (Conflict (Msg ''This entry was already applied'' []))))"

definition require_applied_entry :: "id \<Rightarrow> int \<Rightarrow> unit action" where
  "require_applied_entry task_id seq = tx_bind (tx_gets (find_by_seq task_id seq)) (\<lambda>found. case found of
       None \<Rightarrow> tx_fail (IllegalArgument (Msg ''This task's thread has no such entry to add detail to'' []))
     | Some entry \<Rightarrow> if tf_state entry \<noteq> FeedbackApplied then tx_fail (IllegalArgument (Msg ''The entry has not been applied yet'' [])) else tx_ok ())"

definition require_not_a_revision :: "task_feedback \<Rightarrow> unit result" where
  "require_not_a_revision e = refuse_if (is_revision (tf_kind e)) (Conflict (Msg ''A revision follows the description'' []))"

definition reopen_review_line_in :: "task \<Rightarrow> unit action" where
  "reopen_review_line_in t =
     tx_bind (tx_gets (steps_of (tk_id t))) (\<lambda>steps.
     if (tk_review_state t = Claimed \<or> tk_review_state t = Done) \<and> review_active (map ts_state steps)
     then tx_bind (review_send_back_in (tk_id t)) (\<lambda>_. tx_ok ()) else tx_ok ())"

definition feedback_add_in :: "id \<Rightarrow> add_feedback_command \<Rightarrow> feedback_view action" where
  "feedback_add_in task_id command =
     tx_bind (tx_lift (require_typed_kind (af_kind command))) (\<lambda>_.
     tx_bind (require_task task_id) (\<lambda>t.
     tx_bind (case af_follows_seq command of None \<Rightarrow> tx_ok () | Some followed \<Rightarrow> require_applied_entry task_id followed) (\<lambda>_.
     tx_bind (tx_gets (next_seq task_id)) (\<lambda>seq.
     tx_bind ctx_now (\<lambda>now.
     tx_bind random_id (\<lambda>i.
     let entry = feedback_new i task_id seq (af_kind command) None (rust_trim (af_body command)) (af_follows_seq command) now
     in tx_bind (tx_lift (feedback_validate entry)) (\<lambda>_.
        tx_bind (insert_feedback entry) (\<lambda>_.
        tx_bind (if af_kind command = Implementation then reopen_review_line_in t else tx_ok ()) (\<lambda>_.
        tx_bind (tx_publish (FeedbackStreamEvent task_id)) (\<lambda>_. tx_ok (feedback_view_of entry)))))))))))"

definition feedback_add :: "id \<Rightarrow> add_feedback_command \<Rightarrow> db \<Rightarrow> feedback_view result \<times> db" where
  "feedback_add task_id command = in_write (feedback_add_in task_id command)"

definition start_pass_in :: "id \<Rightarrow> feedback_view list action" where
  "start_pass_in task_id =
     tx_bind (require_task task_id) (\<lambda>_.
     tx_bind (tx_gets (running_of_task task_id)) (\<lambda>running.
     if running \<noteq> [] then tx_fail (Conflict (Msg ''A pass is still running'' []))
     else tx_bind (tx_gets (pending_of_task task_id)) (\<lambda>waiting.
       if waiting = [] then tx_fail (IllegalArgument (Msg ''Nothing is waiting for a run'' []))
       else tx_bind (tx_gets (latest_pass task_id)) (\<lambda>latest_number. let pass = as_i32 (latest_number + 1) in
         tx_bind ctx_now (\<lambda>now.
         tx_bind (tx_map (\<lambda>before. tx_bind (feedback_save now before (feedback_take pass now before)) (\<lambda>saved.
             tx_ok (feedback_view_of saved))) waiting) (\<lambda>taken.
         tx_bind (tx_publish (FeedbackStreamEvent task_id)) (\<lambda>_. tx_ok taken)))))))"

definition start_pass :: "id \<Rightarrow> db \<Rightarrow> feedback_view list result \<times> db" where
  "start_pass task_id = in_write (start_pass_in task_id)"

definition feedback_edit_in :: "id \<Rightarrow> str \<Rightarrow> feedback_view action" where
  "feedback_edit_in feedback_id body =
     tx_bind (require_pending_entry feedback_id) (\<lambda>before.
     tx_bind (tx_lift (require_not_a_revision before)) (\<lambda>_.
     tx_bind ctx_now (\<lambda>now.
     tx_bind (feedback_save now before (before\<lparr>tf_body_markdown := rust_trim body\<rparr>)) (\<lambda>saved.
     tx_bind (tx_publish (FeedbackStreamEvent (tf_task_id saved))) (\<lambda>_. tx_ok (feedback_view_of saved))))))"

definition feedback_edit :: "id \<Rightarrow> str \<Rightarrow> db \<Rightarrow> feedback_view result \<times> db" where
  "feedback_edit feedback_id body = in_write (feedback_edit_in feedback_id body)"

definition feedback_delete_in :: "id \<Rightarrow> unit action" where
  "feedback_delete_in feedback_id =
     tx_bind (require_pending_entry feedback_id) (\<lambda>entry.
     tx_bind (tx_lift (require_not_a_revision entry)) (\<lambda>_.
     tx_bind (delete_feedback (tf_id entry)) (\<lambda>_. tx_publish (FeedbackStreamEvent (tf_task_id entry)))))"

definition feedback_delete :: "id \<Rightarrow> db \<Rightarrow> unit result \<times> db" where
  "feedback_delete feedback_id = in_write (feedback_delete_in feedback_id)"

definition discard_revision_in :: "id \<Rightarrow> unit action" where
  "discard_revision_in feedback_id =
     tx_bind (require_pending_entry feedback_id) (\<lambda>entry.
     case (if is_revision (tf_kind entry) then tf_quoted_markdown entry else None) of
       None \<Rightarrow> tx_fail (Conflict (Msg ''Only a revision can be discarded'' []))
     | Some quoted \<Rightarrow>
         tx_bind (require_task (tf_task_id entry)) (\<lambda>before.
         tx_bind (save_task before (before\<lparr>tk_description := (if rust_trim quoted \<noteq> [] then Some quoted else None)\<rparr>)) (\<lambda>_.
         tx_bind (delete_feedback (tf_id entry)) (\<lambda>_. tx_publish (FeedbackStreamEvent (tf_task_id entry))))))"

definition discard_revision :: "id \<Rightarrow> db \<Rightarrow> unit result \<times> db" where
  "discard_revision feedback_id = in_write (discard_revision_in feedback_id)"

datatype revision_decision = OpenRevision str str | UpdateRevision str | RemoveRevision | IgnoreRevision

definition is_evaluated :: "bool \<Rightarrow> task_step_state list \<Rightarrow> task_step_state \<Rightarrow> bool" where
  "is_evaluated has_wrapup step_states review_state =
     (has_wrapup \<or> list_ex (\<lambda>st. \<not> unstarted st) step_states \<or> review_state \<noteq> Open)"

definition revision_decide :: "bool \<Rightarrow> str option \<Rightarrow> str option \<Rightarrow> str option \<Rightarrow> revision_decision" where
  "revision_decide evaluated open_revision given_before given_after =
     (let before = (case given_before of None \<Rightarrow> [] | Some b \<Rightarrow> b); after = (case given_after of None \<Rightarrow> [] | Some a \<Rightarrow> a)
      in if \<not> evaluated \<or> before = after \<or> rust_trim after = [] then IgnoreRevision
         else case open_revision of
           Some quoted \<Rightarrow> if quoted = after then RemoveRevision else UpdateRevision after
         | None \<Rightarrow> OpenRevision before after)"

definition is_task_evaluated :: "task \<Rightarrow> db \<Rightarrow> bool" where
  "is_task_evaluated t s = is_evaluated (wrapup_of (tk_id t) s \<noteq> None) (map ts_state (steps_of (tk_id t) s)) (tk_review_state t)"

definition track_description_in :: "task \<Rightarrow> str option \<Rightarrow> str option \<Rightarrow> unit action" where
  "track_description_in t before after =
     tx_bind (tx_gets (is_task_evaluated t)) (\<lambda>evaluated.
     tx_bind (tx_gets (latest_open_revision (tk_id t))) (\<lambda>current.
     case revision_decide evaluated (case current of None \<Rightarrow> None | Some e \<Rightarrow> tf_quoted_markdown e) before after of
       IgnoreRevision \<Rightarrow> tx_ok ()
     | OpenRevision quoted body \<Rightarrow>
         tx_bind (tx_gets (next_seq (tk_id t))) (\<lambda>seq.
         tx_bind ctx_now (\<lambda>now.
         tx_bind random_id (\<lambda>i.
         let revision = feedback_new i (tk_id t) seq Revision (Some quoted) body None now
         in tx_bind (tx_lift (feedback_validate revision)) (\<lambda>_.
            tx_bind (insert_feedback revision) (\<lambda>_. tx_publish (FeedbackStreamEvent (tk_id t)))))))
     | UpdateRevision body \<Rightarrow> (case current of
           None \<Rightarrow> tx_fail (Internal (Msg ''an update is decided only for an open revision'' []))
         | Some e \<Rightarrow> tx_bind ctx_now (\<lambda>now. tx_bind (feedback_save now e (e\<lparr>tf_body_markdown := body\<rparr>)) (\<lambda>_.
             tx_publish (FeedbackStreamEvent (tk_id t)))))
     | RemoveRevision \<Rightarrow> (case current of
           None \<Rightarrow> tx_fail (Internal (Msg ''a removal is decided only for an open revision'' []))
         | Some e \<Rightarrow> tx_bind (delete_feedback (tf_id e)) (\<lambda>_. tx_publish (FeedbackStreamEvent (tk_id t))))))"

lemmas feedback_run [run_defs] = FEEDBACK_BODY_MAX_def REPLY_MAX_CHARACTERS_def is_revision_def feedback_new_def feedback_open_def feedback_take_def
  feedback_release_def mark_applied_def feedback_validate_def feedback_row_ok_def insert_feedback_def update_feedback_def delete_feedback_def
  feedback_save_def thread_of_def find_feedback_def find_by_seq_def next_seq_def entries_in_state_def pending_of_task_def running_of_task_def
  open_of_task_def latest_pass_def latest_open_revision_def validated_reply_def apply_reply_def feedback_reply_in_def feedback_reply_def
  release_feedback_in_def release_feedback_def feedback_view_of_def feedback_list_def require_typed_kind_def require_pending_entry_def
  require_applied_entry_def require_not_a_revision_def reopen_review_line_in_def feedback_add_in_def feedback_add_def start_pass_in_def
  start_pass_def feedback_edit_in_def feedback_edit_def feedback_delete_in_def feedback_delete_def discard_revision_in_def discard_revision_def
  is_evaluated_def revision_decide_def is_task_evaluated_def track_description_in_def

end
