(* ===== verification/Feedback_Facts.thy ===== *)
theory Feedback_Facts
  imports Feedback
begin

section \<open>What holds of every thread\<close>

text \<open>
  The facts about \<open>Feedback\<close>: the invariant of the threads and that every operation keeps it, what a pass takes and what the end of a session
  gives back, and what a session's replies change.
\<close>

subsection \<open>The invariant\<close>

definition feedback_moments_ok :: "task_feedback \<Rightarrow> bool" where
  "feedback_moments_ok e = (case tf_state e of
       FeedbackPending \<Rightarrow> tf_pass e = None \<and> tf_taken_at e = None \<and> tf_reply_markdown e = None \<and> tf_applied_at e = None
     | FeedbackRunning \<Rightarrow> tf_pass e \<noteq> None \<and> tf_taken_at e \<noteq> None \<and> tf_reply_markdown e = None \<and> tf_applied_at e = None
     | FeedbackApplied \<Rightarrow> tf_reply_markdown e \<noteq> None \<and> tf_applied_at e \<noteq> None \<and> (tf_pass e = None) = (tf_taken_at e = None))"

text \<open>Entries are numbered apart within a task, their columns fit their state, and a task has at most one pass running.\<close>

definition threads_ok :: "task_feedback list \<Rightarrow> bool" where
  "threads_ok es \<longleftrightarrow> distinct (map tf_id es) \<and> (\<forall>e \<in> set es. feedback_moments_ok e \<and> feedback_validate e = Inr ())
     \<and> (\<forall>e \<in> set es. \<forall>e' \<in> set es. tf_task_id e = tf_task_id e' \<and> tf_seq e = tf_seq e' \<longrightarrow> e = e')
     \<and> (\<forall>e \<in> set es. \<forall>e' \<in> set es. tf_task_id e = tf_task_id e' \<and> tf_state e = FeedbackRunning \<and> tf_state e' = FeedbackRunning
          \<longrightarrow> tf_pass e = tf_pass e')"

definition feedback_ok :: "db \<Rightarrow> bool" where
  "feedback_ok s = threads_ok (task_feedbacks s)"

lemma feedback_ok_table: "table_invariant feedback_ok"
  by (simp add: table_invariant_def feedback_ok_def)

text \<open>One row changed in place, and a row changed for every entry of a list.\<close>

lemma feedback_save_Inr:
  assumes "feedback_save now e after s = Inr (x, t)" "e \<in> set (task_feedbacks s)" "distinct (map tf_id (task_feedbacks s))" "tf_id after = tf_id e"
  shows "(\<exists>u. x = after\<lparr>tf_updated_at := u\<rparr>)" "tf_updated_at after = now \<Longrightarrow> x = after"
    "t = s\<lparr>task_feedbacks := map (\<lambda>r. if r = e then x else r) (task_feedbacks s)\<rparr>" "x = e \<or> feedback_validate x = Inr ()"
proof -
  have "(\<exists>u. x = after\<lparr>tf_updated_at := u\<rparr>) \<and> (tf_updated_at after = now \<longrightarrow> x = after)
    \<and> t = s\<lparr>task_feedbacks := map (\<lambda>r. if r = e then x else r) (task_feedbacks s)\<rparr> \<and> (x = e \<or> feedback_validate x = Inr ())"
  proof (cases "after = e")
    case True
    then have x: "x = after" "t = s" using assms(1) by (simp_all add: feedback_save_def tx_ok_def)
    have "after = after\<lparr>tf_updated_at := tf_updated_at after\<rparr>" by simp
    then have "\<exists>u. after = after\<lparr>tf_updated_at := u\<rparr>" by blast
    moreover have "map (\<lambda>r. if r = e then x else r) (task_feedbacks s) = task_feedbacks s" using x True by (intro map_idI) simp
    ultimately show ?thesis using x True by simp
  next
    case False
    then have x: "x = after\<lparr>tf_updated_at := now\<rparr>" "feedback_validate x = Inr ()" and t: "t = task_feedbacks_update (replace_row tf_id x) s"
      using assms(1) by (auto simp: feedback_save_def Let_def tx_bind_Inr update_feedback_def feedback_table.update_Inr)
    have "replace_row tf_id x (task_feedbacks s) = map (\<lambda>r. if r = e then x else r) (task_feedbacks s)"
      using assms(2-4) x(1) by (auto simp: replace_row_def distinct_map inj_on_def)
    then show ?thesis using x t by auto
  qed
  then show "(\<exists>u. x = after\<lparr>tf_updated_at := u\<rparr>)" "tf_updated_at after = now \<Longrightarrow> x = after"
    "t = s\<lparr>task_feedbacks := map (\<lambda>r. if r = e then x else r) (task_feedbacks s)\<rparr>" "x = e \<or> feedback_validate x = Inr ()" by blast+
qed

definition save_all :: "instant \<Rightarrow> (task_feedback \<Rightarrow> task_feedback) \<Rightarrow> task_feedback list \<Rightarrow> unit action" where
  "save_all now f es = tx_each (\<lambda>e. tx_bind (feedback_save now e (f e)) (\<lambda>_. tx_ok ())) es"

lemma save_all_run:
  assumes "save_all now f es s = Inr (x, t)" "set es \<subseteq> set (task_feedbacks s)" "distinct es" "distinct (map tf_id (task_feedbacks s))"
    and f: "\<And>e. tf_id (f e) = tf_id e" "\<And>e. tf_updated_at (f e) = now"
  shows "t = s\<lparr>task_feedbacks := map (\<lambda>r. if r \<in> set es then f r else r) (task_feedbacks s)\<rparr> \<and> (\<forall>e \<in> set es. f e = e \<or> feedback_validate (f e) = Inr ())"
  using assms(1-4)
proof (induction es arbitrary: s)
  case Nil
  then show ?case by (simp add: save_all_def tx_ok_def)
next
  case (Cons e es)
  obtain y s1 where one: "feedback_save now e (f e) s = Inr (y, s1)" and rest: "save_all now f es s1 = Inr (x, t)"
    using Cons.prems(1) by (auto simp: save_all_def tx_bind_Inr)
  have mem: "e \<in> set (task_feedbacks s)" using Cons.prems(2) by simp
  note saved = feedback_save_Inr [OF one mem Cons.prems(4) f(1)]
  have y: "y = f e" using saved(2) f(2) by blast
  have e: "s1 = s\<lparr>task_feedbacks := map (\<lambda>r. if r = e then f e else r) (task_feedbacks s)\<rparr>" "f e = e \<or> feedback_validate (f e) = Inr ()"
    using saved(3,4) y by simp_all
  have d: "distinct (map tf_id (task_feedbacks s1))"
  proof -
    have "map tf_id (task_feedbacks s1) = map tf_id (task_feedbacks s)" using f(1) by (simp add: e(1))
    then show ?thesis using Cons.prems(4) by simp
  qed
  have "set es \<subseteq> set (task_feedbacks s1)" using Cons.prems(2,3) by (auto simp: e(1) image_iff)
  then have t: "t = s1\<lparr>task_feedbacks := map (\<lambda>r. if r \<in> set es then f r else r) (task_feedbacks s1)\<rparr>"
      "\<forall>e \<in> set es. f e = e \<or> feedback_validate (f e) = Inr ()"
    using Cons.IH [OF rest _ _ d] Cons.prems(3) by auto
  have "f e \<notin> set es"
  proof
    assume "f e \<in> set es"
    then have "f e = e" using Cons.prems(2,4) f(1) by (auto simp: distinct_map inj_on_def)
    then show False using \<open>f e \<in> set es\<close> Cons.prems(3) by simp
  qed
  then have "map (\<lambda>r. if r \<in> set es then f r else r) (task_feedbacks s1) = map (\<lambda>r. if r \<in> set (e # es) then f r else r) (task_feedbacks s)"
    using Cons.prems(3) by (auto simp: e(1))
  then show ?case using t e by (auto simp: e(1))
qed

text \<open>The same shape of change keeps the threads well formed.\<close>

lemma threads_okD:
  assumes "threads_ok es"
  shows "distinct (map tf_id es)" "e \<in> set es \<Longrightarrow> feedback_moments_ok e \<and> feedback_validate e = Inr ()"
    "e \<in> set es \<Longrightarrow> e' \<in> set es \<Longrightarrow> tf_task_id e = tf_task_id e' \<Longrightarrow> tf_seq e = tf_seq e' \<Longrightarrow> e = e'"
    "e \<in> set es \<Longrightarrow> e' \<in> set es \<Longrightarrow> tf_task_id e = tf_task_id e' \<Longrightarrow> tf_state e = FeedbackRunning \<Longrightarrow> tf_state e' = FeedbackRunning
      \<Longrightarrow> tf_pass e = tf_pass e'"
  using assms unfolding threads_ok_def by blast+

lemma threads_ok_map:
  assumes ok: "threads_ok es" and id: "\<And>e. tf_id (g e) = tf_id e" "\<And>e. tf_task_id (g e) = tf_task_id e" "\<And>e. tf_seq (g e) = tf_seq e"
    and row: "\<And>e. e \<in> set es \<Longrightarrow> feedback_moments_ok (g e) \<and> feedback_validate (g e) = Inr ()"
    and running: "\<And>e e'. e \<in> set es \<Longrightarrow> e' \<in> set es \<Longrightarrow> tf_task_id e = tf_task_id e' \<Longrightarrow> tf_state (g e) = FeedbackRunning
      \<Longrightarrow> tf_state (g e') = FeedbackRunning \<Longrightarrow> tf_pass (g e) = tf_pass (g e')"
  shows "threads_ok (map g es)"
proof -
  have "distinct (map tf_id (map g es))" using ok id(1) by (simp add: threads_ok_def comp_def)
  moreover have "\<forall>e \<in> set (map g es). feedback_moments_ok e \<and> feedback_validate e = Inr ()" using row by simp
  moreover have "\<forall>e \<in> set (map g es). \<forall>e' \<in> set (map g es). tf_task_id e = tf_task_id e' \<and> tf_seq e = tf_seq e' \<longrightarrow> e = e'"
  proof (intro ballI impI)
    fix a b assume ab: "a \<in> set (map g es)" "b \<in> set (map g es)" "tf_task_id a = tf_task_id b \<and> tf_seq a = tf_seq b"
    then obtain e e' where e: "a = g e" "b = g e'" "e \<in> set es" "e' \<in> set es" by auto
    have "tf_task_id e = tf_task_id e'" "tf_seq e = tf_seq e'" using ab(3) id by (simp_all add: e)
    then have "e = e'" by (rule threads_okD(3) [OF ok e(3,4)])
    then show "a = b" by (simp add: e)
  qed
  moreover have "\<forall>e \<in> set (map g es). \<forall>e' \<in> set (map g es). tf_task_id e = tf_task_id e' \<and> tf_state e = FeedbackRunning \<and> tf_state e' = FeedbackRunning
      \<longrightarrow> tf_pass e = tf_pass e'"
  proof (intro ballI impI)
    fix a b assume ab: "a \<in> set (map g es)" "b \<in> set (map g es)"
      "tf_task_id a = tf_task_id b \<and> tf_state a = FeedbackRunning \<and> tf_state b = FeedbackRunning"
    then obtain e e' where e: "a = g e" "b = g e'" "e \<in> set es" "e' \<in> set es" by auto
    have "tf_task_id e = tf_task_id e'" using ab(3) id by (simp add: e)
    then show "tf_pass a = tf_pass b" unfolding e using running [OF e(3,4)] ab(3) by (simp add: e)
  qed
  ultimately show ?thesis unfolding threads_ok_def by blast
qed

lemma feedback_moments_stamp [simp]: "feedback_moments_ok (e\<lparr>tf_updated_at := u\<rparr>) = feedback_moments_ok e"
  by (simp add: feedback_moments_ok_def cong: feedback_state.case_cong)

lemma thread_members:
  "set (thread_of i s) = {e \<in> set (task_feedbacks s). tf_task_id e = i}"
  "set (pending_of_task i s) = {e \<in> set (task_feedbacks s). tf_task_id e = i \<and> tf_state e = FeedbackPending}"
  "set (running_of_task i s) = {e \<in> set (task_feedbacks s). tf_task_id e = i \<and> tf_state e = FeedbackRunning}"
  "set (open_of_task i s) = {e \<in> set (task_feedbacks s). tf_task_id e = i \<and> feedback_open e}"
  by (auto simp: thread_of_def pending_of_task_def running_of_task_def open_of_task_def entries_in_state_def feedback_open_def)

lemma distinct_thread: "feedback_ok s \<Longrightarrow> distinct (pending_of_task i s) \<and> distinct (running_of_task i s)"
  by (auto simp: feedback_ok_def threads_ok_def pending_of_task_def running_of_task_def entries_in_state_def thread_of_def
      dest!: distinct_map [THEN iffD1])

text \<open>A pass takes exactly the entries that wait; the end of a session gives back exactly those still running.\<close>

lemma mapped_saves:
  "tx_map (\<lambda>b. tx_bind (feedback_save now b (f b)) (\<lambda>saved. tx_ok (v saved))) es s = Inr (ys, t) \<Longrightarrow> save_all now f es s = Inr ((), t)"
  by (induction es arbitrary: s ys) (auto simp: save_all_def tx_bind_Inr)

lemma start_pass_run:
  assumes ok: "feedback_ok s" and run: "start_pass_in i s = Inr (taken, t)"
  shows "running_of_task i s = []" "pending_of_task i s \<noteq> []"
    "task_feedbacks t = map (\<lambda>e. if tf_task_id e = i \<and> tf_state e = FeedbackPending
       then feedback_take (as_i32 (latest_pass i s + 1)) (shd (clock s)) e else e) (task_feedbacks s)" "feedback_ok t" "tasks t = tasks s"
proof -
  let ?now = "shd (clock s)" and ?pass = "as_i32 (latest_pass i s + 1)"
  let ?g = "\<lambda>e. if tf_task_id e = i \<and> tf_state e = FeedbackPending then feedback_take ?pass ?now e else e"
  obtain s1 where none: "running_of_task i s = []" "pending_of_task i s \<noteq> []"
    and saves: "save_all ?now (feedback_take ?pass ?now) (pending_of_task i s) (s\<lparr>clock := stl (clock s)\<rparr>) = Inr ((), s1)"
    and t: "task_feedbacks t = task_feedbacks s1" "tasks t = tasks s1"
    using run by (auto simp: start_pass_in_def tx_bind_Inr require_task_Inr ctx_now_def tx_publish_def tx_modify_def Let_def
        split: if_splits dest!: mapped_saves)
  show "running_of_task i s = []" "pending_of_task i s \<noteq> []" by (fact none)+
  have es: "threads_ok (task_feedbacks s)" using ok by (simp add: feedback_ok_def)
  have rows: "task_feedbacks s1 = map (\<lambda>r. if r \<in> set (pending_of_task i s) then feedback_take ?pass ?now r else r) (task_feedbacks s)"
    and valid: "\<forall>e \<in> set (pending_of_task i s). feedback_take ?pass ?now e = e \<or> feedback_validate (feedback_take ?pass ?now e) = Inr ()"
    and tasks: "tasks s1 = tasks s"
    using save_all_run [OF saves] threads_okD(1) [OF es] distinct_thread [OF ok, of i] by (auto simp: thread_members feedback_take_def)
  show t': "task_feedbacks t = map ?g (task_feedbacks s)" using rows by (auto simp: t thread_members)
  show "tasks t = tasks s" by (simp add: t tasks)
  have "threads_ok (map ?g (task_feedbacks s))"
  proof (rule threads_ok_map [OF es])
    fix e assume e: "e \<in> set (task_feedbacks s)"
    then show "feedback_moments_ok (?g e) \<and> feedback_validate (?g e) = Inr ()"
      using threads_okD(2) [OF es e] valid by (auto simp: thread_members feedback_take_def feedback_moments_ok_def)
  next
    fix e e' assume "e \<in> set (task_feedbacks s)" "e' \<in> set (task_feedbacks s)" "tf_task_id e = tf_task_id e'"
      "tf_state (?g e) = FeedbackRunning" "tf_state (?g e') = FeedbackRunning"
    moreover have "tf_task_id r \<noteq> i" if "r \<in> set (task_feedbacks s)" "tf_state r = FeedbackRunning" for r
      using none(1) that thread_members(3) [of i s] by auto
    ultimately show "tf_pass (?g e) = tf_pass (?g e')" using threads_okD(4) [OF es, of e e'] by (auto simp: feedback_take_def split: if_splits)
  qed (simp_all add: feedback_take_def)
  then show "feedback_ok t" by (simp add: feedback_ok_def t')
qed

lemma release_feedback_run:
  assumes ok: "feedback_ok s" and run: "release_feedback_in i s = Inr (x, t)"
  shows "task_feedbacks t = map (\<lambda>e. if tf_task_id e = i \<and> tf_state e = FeedbackRunning then feedback_release (shd (clock s)) e else e) (task_feedbacks s)"
    "feedback_ok t"
proof -
  let ?now = "shd (clock s)"
  let ?g = "\<lambda>e. if tf_task_id e = i \<and> tf_state e = FeedbackRunning then feedback_release ?now e else e"
  have es: "threads_ok (task_feedbacks s)" using ok by (simp add: feedback_ok_def)
  have "task_feedbacks t = map ?g (task_feedbacks s) \<and> (\<forall>e \<in> set (running_of_task i s). feedback_release ?now e = e \<or> feedback_validate (feedback_release ?now e) = Inr ())"
  proof (cases "running_of_task i s = []")
    case True
    then have "t = s" using run by (auto simp: release_feedback_in_def tx_bind_Inr)
    moreover have "map ?g (task_feedbacks s) = task_feedbacks s"
      by (rule map_idI) (use True thread_members(3) [of i s] in auto)
    ultimately show ?thesis using True by simp
  next
    case False
    then obtain s1 where saves: "save_all ?now (feedback_release ?now) (running_of_task i s) (s\<lparr>clock := stl (clock s)\<rparr>) = Inr ((), s1)"
      and t: "task_feedbacks t = task_feedbacks s1"
      using run by (auto simp: release_feedback_in_def tx_bind_Inr ctx_now_def tx_publish_def tx_modify_def save_all_def)
    show ?thesis using save_all_run [OF saves] threads_okD(1) [OF es] distinct_thread [OF ok, of i] by (auto simp: t thread_members feedback_release_def)
  qed
  then have t: "task_feedbacks t = map ?g (task_feedbacks s)"
    and valid: "\<forall>e \<in> set (running_of_task i s). feedback_release ?now e = e \<or> feedback_validate (feedback_release ?now e) = Inr ()" by blast+
  show "task_feedbacks t = map ?g (task_feedbacks s)" by (fact t)
  have "threads_ok (map ?g (task_feedbacks s))"
  proof (rule threads_ok_map [OF es])
    fix e assume e: "e \<in> set (task_feedbacks s)"
    then show "feedback_moments_ok (?g e) \<and> feedback_validate (?g e) = Inr ()"
      using threads_okD(2) [OF es e] valid by (auto simp: thread_members feedback_release_def feedback_moments_ok_def)
  next
    fix e e' assume "e \<in> set (task_feedbacks s)" "e' \<in> set (task_feedbacks s)" "tf_task_id e = tf_task_id e'"
      "tf_state (?g e) = FeedbackRunning" "tf_state (?g e') = FeedbackRunning"
    then show "tf_pass (?g e) = tf_pass (?g e')" using threads_okD(4) [OF es, of e e'] by (auto simp: feedback_release_def split: if_splits)
  qed (simp_all add: feedback_release_def)
  then show "feedback_ok t" by (simp add: feedback_ok_def t)
qed

text \<open>One entry changed without being taken into a pass, a new entry that waits, an entry removed.\<close>

lemma save_keeps_threads:
  assumes ok: "feedback_ok s" and e: "e \<in> set (task_feedbacks s)" and save: "feedback_save now e after s = Inr (x, t)"
    and same: "tf_id after = tf_id e" "tf_task_id after = tf_task_id e" "tf_seq after = tf_seq e" and row: "feedback_moments_ok after"
    and state: "tf_state after \<noteq> FeedbackRunning"
  shows "feedback_ok t"
proof -
  have es: "threads_ok (task_feedbacks s)" using ok by (simp add: feedback_ok_def)
  note saved = feedback_save_Inr [OF save e threads_okD(1) [OF es] same(1)]
  obtain u where x: "x = after\<lparr>tf_updated_at := u\<rparr>" using saved(1) by blast
  have valid: "feedback_validate x = Inr ()" using saved(4) threads_okD(2) [OF es e] by auto
  have "threads_ok (map (\<lambda>r. if r = e then x else r) (task_feedbacks s))"
  proof (rule threads_ok_map [OF es])
    fix r assume "r \<in> set (task_feedbacks s)"
    then show "feedback_moments_ok (if r = e then x else r) \<and> feedback_validate (if r = e then x else r) = Inr ()"
      using threads_okD(2) [OF es, of r] valid row by (simp add: x)
  next
    fix r r' assume "r \<in> set (task_feedbacks s)" "r' \<in> set (task_feedbacks s)" "tf_task_id r = tf_task_id r'"
      "tf_state (if r = e then x else r) = FeedbackRunning" "tf_state (if r' = e then x else r') = FeedbackRunning"
    then show "tf_pass (if r = e then x else r) = tf_pass (if r' = e then x else r')"
      using threads_okD(4) [OF es, of r r'] state by (auto simp: x split: if_splits)
  qed (simp_all add: x same)
  then show ?thesis by (simp add: feedback_ok_def saved(3))
qed

lemma insert_keeps_threads:
  assumes ok: "feedback_ok s" and insert: "insert_feedback e s = Inr (x, t)" and row: "feedback_validate e = Inr ()" "feedback_moments_ok e" "tf_state e = FeedbackPending"
  shows "feedback_ok t"
proof -
  have es: "threads_ok (task_feedbacks s)" using ok by (simp add: feedback_ok_def)
  have t: "task_feedbacks t = task_feedbacks s @ [e]" "tf_id e \<notin> tf_id ` set (task_feedbacks s)"
    and apart: "\<And>r. r \<in> set (task_feedbacks s) \<Longrightarrow> tf_task_id r = tf_task_id e \<Longrightarrow> tf_id r = tf_id e \<or> tf_seq r \<noteq> tf_seq e"
    using insert by (auto simp: insert_feedback_def feedback_table.insert_Inr feedback_row_ok_def list_all_iff)
  have new: "tf_seq r \<noteq> tf_seq e" if "r \<in> set (task_feedbacks s)" "tf_task_id r = tf_task_id e" for r
    using apart [OF that] t(2) that(1) by (metis imageI)
  show ?thesis unfolding feedback_ok_def threads_ok_def t(1)
  proof (intro conjI)
    show "distinct (map tf_id (task_feedbacks s @ [e]))" using threads_okD(1) [OF es] t(2) by simp
    show "\<forall>r \<in> set (task_feedbacks s @ [e]). feedback_moments_ok r \<and> feedback_validate r = Inr ()" using threads_okD(2) [OF es] row by simp
    show "\<forall>r \<in> set (task_feedbacks s @ [e]). \<forall>r' \<in> set (task_feedbacks s @ [e]). tf_task_id r = tf_task_id r' \<and> tf_seq r = tf_seq r' \<longrightarrow> r = r'"
      using threads_okD(3) [OF es] new by (metis (no_types, lifting) Un_iff empty_iff empty_set list.simps(15) set_append insertE)
    show "\<forall>r \<in> set (task_feedbacks s @ [e]). \<forall>r' \<in> set (task_feedbacks s @ [e]). tf_task_id r = tf_task_id r' \<and> tf_state r = FeedbackRunning
        \<and> tf_state r' = FeedbackRunning \<longrightarrow> tf_pass r = tf_pass r'"
      using threads_okD(4) [OF es] row(3) by (metis (no_types, lifting) Un_iff empty_iff empty_set list.simps(15) set_append insertE feedback_state.distinct(1))
  qed
qed

lemma delete_keeps_threads: "feedback_ok s \<Longrightarrow> feedback_ok (s\<lparr>task_feedbacks := filter P (task_feedbacks s)\<rparr>)"
  by (auto simp: feedback_ok_def threads_ok_def distinct_map_filter)

subsection \<open>Replies\<close>

definition entry_answered :: "id \<Rightarrow> instant \<Rightarrow> (int \<times> str) list \<Rightarrow> task_feedback \<Rightarrow> task_feedback" where
  "entry_answered i now replies e = (if tf_task_id e = i then
     (case map_of replies (tf_seq e) of None \<Rightarrow> e | Some given \<Rightarrow> mark_applied (strip given) now e) else e)"

lemma validated_reply_Inr: "validated_reply seq given = Inr r \<longleftrightarrow> r = strip given \<and> \<not> is_blank given \<and> jlen r \<le> REPLY_MAX_CHARACTERS"
  by (auto simp: validated_reply_def present_def strip_Nil split: option.splits if_splits)

lemma apply_reply_run:
  assumes ok: "feedback_ok s" and run: "apply_reply i now (seq, given) s = Inr (x, t)"
  shows "\<exists>e \<in> set (task_feedbacks s). tf_task_id e = i \<and> tf_seq e = seq \<and> feedback_open e"
    and "x = seq" "\<not> is_blank given" "t = s\<lparr>task_feedbacks := map (entry_answered i now [(seq, given)]) (task_feedbacks s)\<rparr>" "feedback_ok t"
proof -
  have es: "threads_ok (task_feedbacks s)" using ok by (simp add: feedback_ok_def)
  obtain e reply y where found: "find_by_seq i seq s = Some e" and e: "feedback_open e" "validated_reply seq given = Inr reply" "x = seq"
    and save: "feedback_save now e (mark_applied reply now e) s = Inr (y, t)"
    using run by (auto simp: apply_reply_def tx_bind_Inr split: option.splits if_splits)
  have mem: "e \<in> set (task_feedbacks s)" "tf_task_id e = i" "tf_seq e = seq" using found by (auto simp: find_by_seq_def find_Some_iff)
  then show "\<exists>e \<in> set (task_feedbacks s). tf_task_id e = i \<and> tf_seq e = seq \<and> feedback_open e" using e(1) by blast
  show "x = seq" by (fact e)
  show "\<not> is_blank given" using e(2) by (simp add: validated_reply_Inr)
  have reply: "reply = strip given" using e(2) by (simp add: validated_reply_Inr)
  have same: "tf_id (mark_applied reply now e) = tf_id e" by (simp add: mark_applied_def)
  note saved = feedback_save_Inr [OF save mem(1) threads_okD(1) [OF es] same]
  have y: "y = mark_applied reply now e" using saved(2) by (simp add: mark_applied_def)
  have "(if r = e then y else r) = entry_answered i now [(seq, given)] r" if "r \<in> set (task_feedbacks s)" for r
  proof (cases "r = e")
    case True
    then show ?thesis using mem(2,3) by (simp add: entry_answered_def y reply)
  next
    case False
    then have "\<not> (tf_task_id r = i \<and> tf_seq r = seq)" using threads_okD(3) [OF es mem(1) that] mem(2,3) by fastforce
    then show ?thesis using False by (auto simp: entry_answered_def)
  qed
  then have "map (\<lambda>r. if r = e then y else r) (task_feedbacks s) = map (entry_answered i now [(seq, given)]) (task_feedbacks s)" by simp
  then show "t = s\<lparr>task_feedbacks := map (entry_answered i now [(seq, given)]) (task_feedbacks s)\<rparr>" using saved(3) by simp
  have "feedback_moments_ok (mark_applied reply now e)"
    using threads_okD(2) [OF es mem(1)] by (auto simp: mark_applied_def feedback_moments_ok_def split: feedback_state.splits)
  then show "feedback_ok t" by (intro save_keeps_threads [OF ok mem(1) save]) (simp_all add: mark_applied_def)
qed

lemma apply_replies_run:
  assumes "feedback_ok s" "tx_map (apply_reply i now) replies s = Inr (xs, t)"
  shows "xs = map fst replies" "distinct (map fst replies)"
    "\<forall>seq \<in> fst ` set replies. \<exists>e \<in> set (task_feedbacks s). tf_task_id e = i \<and> tf_seq e = seq \<and> feedback_open e"
    "t = s\<lparr>task_feedbacks := map (entry_answered i now replies) (task_feedbacks s)\<rparr>" "feedback_ok t"
proof -
  have "xs = map fst replies \<and> distinct (map fst replies)
    \<and> (\<forall>seq \<in> fst ` set replies. \<exists>e \<in> set (task_feedbacks s). tf_task_id e = i \<and> tf_seq e = seq \<and> feedback_open e)
    \<and> t = s\<lparr>task_feedbacks := map (entry_answered i now replies) (task_feedbacks s)\<rparr> \<and> feedback_ok t"
    using assms
  proof (induction replies arbitrary: s xs)
    case Nil
    have "map (entry_answered i now []) (task_feedbacks s) = task_feedbacks s" by (rule map_idI) (simp add: entry_answered_def)
    then show ?case using Nil by (simp add: tx_ok_def)
  next
    case (Cons reply replies)
    obtain seq given where r: "reply = (seq, given)" by (rule prod.exhaust)
    obtain x s1 ys where first: "apply_reply i now (seq, given) s = Inr (x, s1)" and rest: "tx_map (apply_reply i now) replies s1 = Inr (ys, t)"
      and xs: "xs = x # ys" using Cons.prems(2) r by (auto simp: tx_bind_Inr)
    note one = apply_reply_run [OF Cons.prems(1) first]
    have IH: "ys = map fst replies" "distinct (map fst replies)"
      "\<forall>q \<in> fst ` set replies. \<exists>e \<in> set (task_feedbacks s1). tf_task_id e = i \<and> tf_seq e = q \<and> feedback_open e"
      "t = s1\<lparr>task_feedbacks := map (entry_answered i now replies) (task_feedbacks s1)\<rparr>" "feedback_ok t"
      using Cons.IH [OF one(5) rest] by blast+
    have open_before: "\<exists>e \<in> set (task_feedbacks s). tf_task_id e = i \<and> tf_seq e = q \<and> feedback_open e \<and> q \<noteq> seq" if "q \<in> fst ` set replies" for q
    proof -
      note later = bspec [OF IH(3) that]
      obtain e where e: "e \<in> set (task_feedbacks s)" "tf_task_id (entry_answered i now [(seq, given)] e) = i" "tf_seq (entry_answered i now [(seq, given)] e) = q"
        "feedback_open (entry_answered i now [(seq, given)] e)" using later by (auto simp: one(4))
      show ?thesis using e by (intro bexI [of _ e]) (auto simp: entry_answered_def mark_applied_def feedback_open_def split: if_splits)
    qed
    have fresh: "seq \<notin> fst ` set replies" using open_before by blast
    have "entry_answered i now replies (entry_answered i now [(seq, given)] e) = entry_answered i now ((seq, given) # replies) e" for e
    proof (cases "tf_task_id e = i \<and> tf_seq e = seq")
      case True
      then have "map_of replies (tf_seq e) = None" using fresh by (simp add: map_of_eq_None_iff)
      then show ?thesis using True by (simp add: entry_answered_def mark_applied_def)
    next
      case False
      then show ?thesis by (auto simp: entry_answered_def split: option.split)
    qed
    then have "t = s\<lparr>task_feedbacks := map (entry_answered i now (reply # replies)) (task_feedbacks s)\<rparr>" using IH(4) by (simp add: one(4) r comp_def)
    moreover have "\<forall>q \<in> fst ` set (reply # replies). \<exists>e \<in> set (task_feedbacks s). tf_task_id e = i \<and> tf_seq e = q \<and> feedback_open e"
    proof
      fix q assume "q \<in> fst ` set (reply # replies)"
      then consider "q = seq" | "q \<in> fst ` set replies" by (auto simp: r)
      then show "\<exists>e \<in> set (task_feedbacks s). tf_task_id e = i \<and> tf_seq e = q \<and> feedback_open e"
        by cases (use one(1) open_before in blast)+
    qed
    moreover have "xs = map fst (reply # replies)" "distinct (map fst (reply # replies))" using IH(1,2) one(2) fresh by (simp_all add: xs r)
    ultimately show ?case using IH(5) by blast
  qed
  then show "xs = map fst replies" "distinct (map fst replies)"
    "\<forall>seq \<in> fst ` set replies. \<exists>e \<in> set (task_feedbacks s). tf_task_id e = i \<and> tf_seq e = seq \<and> feedback_open e"
    "t = s\<lparr>task_feedbacks := map (entry_answered i now replies) (task_feedbacks s)\<rparr>" "feedback_ok t" by blast+
qed

subsection \<open>Every operation keeps the store and the threads\<close>

lemma store_ok_threads [simp]: "store_ok (task_feedbacks_update f s) = store_ok s"
  by (simp add: store_ok_def flow_ok_def rest_ok_def steps_ok_def rows_ok_def dense_def positions_of_def links_ok_def visits_ok_def
      step_keys_def open_visits_def tasks_ok_def task_ok_def timers_ok_def task_exists_def deps_ok_def dep_edges_def project_of_task_def
      find_task_def queue_wf_def items_ok_def queue_dense_def)

lemma store_ok_feedback_rows:
  "preserves store_ok (insert_feedback e)" "preserves store_ok (update_feedback e)" "preserves store_ok (delete_feedback i)"
  by (rule preservesI, auto simp: insert_feedback_def update_feedback_def feedback_table.insert_Inr feedback_table.update_Inr
      delete_feedback_def tx_modify_def)+

lemma store_ok_feedback_save: "preserves store_ok (feedback_save now before after)"
  unfolding feedback_save_def Let_def by (intro preserves_intro store_ok_feedback_rows)

lemma frame_reopen_line: "preserves (review_frame base) (reopen_review_line_in tk)"
  unfolding reopen_review_line_in_def by (intro preserves_intro frame_review_ops)

lemma store_ok_reopen: "preserves store_ok (reopen_review_line_in tk)"
  by (auto intro: store_ok_by_review frame_reopen_line)

lemma store_ok_pending_entry: "preserves store_ok (require_pending_entry i)" "preserves store_ok (require_applied_entry i seq)"
  by (auto intro!: preservesI simp: require_pending_entry_def require_applied_entry_def tx_bind_Inr split: option.splits feedback_state.splits if_splits)

lemma store_ok_revision_decision:
  "preserves store_ok m \<Longrightarrow> (\<And>q b. preserves store_ok (f q b)) \<Longrightarrow> (\<And>b. preserves store_ok (g b)) \<Longrightarrow> preserves store_ok m'
    \<Longrightarrow> preserves store_ok (case d of IgnoreRevision \<Rightarrow> m | OpenRevision q b \<Rightarrow> f q b | UpdateRevision b \<Rightarrow> g b | RemoveRevision \<Rightarrow> m')"
  by (cases d) simp_all

lemma store_ok_feedback_ops:
  "preserves store_ok (feedback_reply_in u pl label replies)" "preserves store_ok (release_feedback_in i)"
  "preserves store_ok (feedback_add_in i command)" "preserves store_ok (start_pass_in i)" "preserves store_ok (feedback_edit_in i body)"
  "preserves store_ok (feedback_delete_in i)" "preserves store_ok (track_description_in tk before after)"
  unfolding feedback_reply_in_def apply_reply_def release_feedback_in_def feedback_add_in_def start_pass_in_def feedback_edit_in_def
    feedback_delete_in_def track_description_in_def Let_def
  by (intro preserves_intro preserves_require preserves_resolve store_ok_revision_decision store_ok_ctx store_ok_feedback_save
      store_ok_feedback_rows store_ok_pending_entry store_ok_reopen)+

lemma require_pending_entry_Inr:
  "require_pending_entry i s = Inr (e, t) \<longleftrightarrow> find_feedback i s = Some e \<and> tf_state e = FeedbackPending \<and> t = s"
  by (auto simp: require_pending_entry_def tx_bind_Inr split: option.splits feedback_state.splits)

lemma find_feedback_Some: "find_feedback i s = Some e \<Longrightarrow> e \<in> set (task_feedbacks s) \<and> tf_id e = i"
  by (auto simp: find_feedback_def dest: find_row_Some)

text \<open>Discarding a revision puts the quoted text back and removes the entry.\<close>

lemma discard_revision_run:
  assumes ok: "store_ok s" and run: "discard_revision_in i s = Inr (x, t)"
  shows "store_ok t" "task_feedbacks t = filter (\<lambda>e. tf_id e \<noteq> i) (task_feedbacks s)"
proof -
  obtain e quoted before y s1 where e: "find_feedback i s = Some e" and before: "find_task (tf_task_id e) s = Some before"
    and save: "save_task before (before\<lparr>tk_description := (if rust_trim quoted \<noteq> [] then Some quoted else None)\<rparr>) s = Inr (y, s1)"
    and t: "tx_bind (delete_feedback (tf_id e)) (\<lambda>_. tx_publish (FeedbackStreamEvent (tf_task_id e))) s1 = Inr (x, t)"
    using run unfolding discard_revision_in_def
    by (auto simp: tx_bind_Inr require_pending_entry_Inr require_task_Inr split: option.splits)
  have mem: "before \<in> set (tasks s)" using find_task_Some [OF before] by blast
  have rows: "distinct (map tk_id (tasks s))" "task_moments_ok before"
    using ok mem by (auto simp: store_ok_def rest_ok_def tasks_ok_def)
  have frame: "review_frame s s" using ok by (rule store_ok_frames)
  obtain u where y: "y = before\<lparr>tk_description := (if rust_trim quoted \<noteq> [] then Some quoted else None), tk_updated_at := u\<rparr>"
    and s1: "s1 = s\<lparr>tasks := replace_row tk_id y (tasks s), clock := stl (clock s)\<rparr>"
    using save_task_Inr [OF save rows(1) mem] by auto
  have valid: "task_validate y = Inr ()"
    using save ok mem by (auto simp: save_task_def update_if_changed_def tx_bind_Inr Let_def store_ok_def rest_ok_def tasks_ok_def split: if_splits)
  have "review_frame s s1" unfolding s1
    using rows valid by (intro review_frame_save [OF frame mem]) (simp_all add: y task_moments_ok_def cong: task_step_state.case_cong)
  then have "store_ok s1" using store_ok_review_frame ok by blast
  then show "store_ok t" using t by (auto simp: tx_bind_Inr delete_feedback_def tx_modify_def tx_publish_def table_invariantD [OF store_ok_table])
  show "task_feedbacks t = filter (\<lambda>e. tf_id e \<noteq> i) (task_feedbacks s)"
    using t find_feedback_Some [OF e] by (auto simp: s1 tx_bind_Inr delete_feedback_def tx_modify_def tx_publish_def)
qed

lemma reopen_run: "reopen_review_line_in tk s = Inr (x, t) \<Longrightarrow> store_ok s \<Longrightarrow> task_feedbacks t = task_feedbacks s"
  using preservesD [OF frame_reopen_line, of tk s x t s] store_ok_frames(3) [of s] by (simp add: review_frame_def)

lemma feedback_ok_rows: "task_feedbacks t = task_feedbacks s \<Longrightarrow> feedback_ok t = feedback_ok s"
  by (simp add: feedback_ok_def)

lemma new_entry_keeps_threads:
  assumes "feedback_ok s" "insert_feedback (feedback_new i task_id seq kind quoted body follows now) s = Inr (x, t)"
    "feedback_validate (feedback_new i task_id seq kind quoted body follows now) = Inr ()"
  shows "feedback_ok t"
  using insert_keeps_threads [OF assms] by (simp add: feedback_new_def feedback_moments_ok_def)

lemma feedback_ok_ctx: "feedback_ok (clock_update f s) = feedback_ok s" "feedback_ok (entropy_update g s) = feedback_ok s"
  "feedback_ok (events_update h s) = feedback_ok s"
  by (simp_all add: feedback_ok_def)

lemma store_ok_tables: "store_ok (clock_update f s) = store_ok s" "store_ok (entropy_update g s) = store_ok s" "store_ok (events_update h s) = store_ok s"
  by (simp_all add: store_ok_def flow_ok_def rest_ok_def steps_ok_def rows_ok_def dense_def positions_of_def links_ok_def visits_ok_def
      step_keys_def open_visits_def tasks_ok_def task_ok_def timers_ok_def task_exists_def deps_ok_def dep_edges_def project_of_task_def
      find_task_def queue_wf_def items_ok_def queue_dense_def)

lemma add_keeps_threads:
  assumes ok: "feedback_ok s" "store_ok s" and run: "feedback_add_in i command s = Inr (x, t)"
  shows "feedback_ok t"
proof -
  let ?entry = "\<lambda>n seq now. feedback_new n i seq (af_kind command) None (rust_trim (af_body command)) (af_follows_seq command) now"
  obtain tk s0 n seq now s1 s2 y s3 where follow: "(case af_follows_seq command of None \<Rightarrow> tx_ok () | Some followed \<Rightarrow> require_applied_entry i followed) s = Inr ((), s0)"
    and valid: "feedback_validate (?entry n seq now) = Inr ()" and s1: "s1 = s0\<lparr>clock := stl (clock s0), entropy := stl (entropy s0)\<rparr>"
    and insert: "insert_feedback (?entry n seq now) s1 = Inr (y, s2)"
    and reopen: "(if af_kind command = Implementation then reopen_review_line_in tk else tx_ok ()) s2 = Inr ((), s3)"
    and t: "task_feedbacks t = task_feedbacks s3"
    using run unfolding feedback_add_in_def
    by (auto simp: tx_bind_Inr require_task_Inr ctx_now_def random_id_def tx_publish_def tx_modify_def Let_def)
  have s0: "s0 = s" using follow by (auto simp: require_applied_entry_def tx_bind_Inr split: option.splits if_splits)
  have started: "feedback_ok s1" "store_ok s1" using ok by (simp_all add: s1 s0 feedback_ok_ctx store_ok_tables)
  have "feedback_ok s2" using new_entry_keeps_threads [OF started(1) insert valid] .
  moreover have "store_ok s2" using preservesD [OF store_ok_feedback_rows(1) insert] started(2) .
  then have "task_feedbacks s3 = task_feedbacks s2" using reopen reopen_run by (auto split: if_splits)
  ultimately show ?thesis by (simp add: feedback_ok_def t)
qed

lemma edit_keeps_threads:
  assumes ok: "feedback_ok s" and run: "feedback_edit_in i body s = Inr (x, t)"
  shows "feedback_ok t"
proof -
  obtain e y s1 where e: "find_feedback i s = Some e" "tf_state e = FeedbackPending"
    and save: "feedback_save (shd (clock s)) e (e\<lparr>tf_body_markdown := rust_trim body\<rparr>) (s\<lparr>clock := stl (clock s)\<rparr>) = Inr (y, s1)"
    and t: "task_feedbacks t = task_feedbacks s1"
    using run unfolding feedback_edit_in_def
    by (auto simp: tx_bind_Inr require_pending_entry_Inr ctx_now_def tx_publish_def tx_modify_def)
  have mem: "e \<in> set (task_feedbacks s)" using find_feedback_Some [OF e(1)] by blast
  have "feedback_moments_ok e" using threads_okD(2) [OF ok [unfolded feedback_ok_def] mem] by blast
  then have "feedback_ok s1" using ok mem e(2)
    by (intro save_keeps_threads [OF _ _ save]) (simp_all add: feedback_ok_ctx feedback_moments_ok_def)
  then show ?thesis by (simp add: feedback_ok_def t)
qed

lemma removal_keeps_threads:
  assumes "feedback_ok s" "task_feedbacks t = filter P (task_feedbacks s)"
  shows "feedback_ok t"
  using delete_keeps_threads [OF assms(1), of P] by (simp add: feedback_ok_def assms(2))

lemma delete_entry_keeps_threads: "feedback_ok s \<Longrightarrow> feedback_delete_in i s = Inr (x, t) \<Longrightarrow> feedback_ok t"
  by (rule removal_keeps_threads [where P = "\<lambda>e. tf_id e \<noteq> i"])
    (auto simp: feedback_delete_in_def tx_bind_Inr require_pending_entry_Inr delete_feedback_def tx_modify_def tx_publish_def dest: find_feedback_Some)

lemma track_keeps_threads:
  assumes ok: "feedback_ok s" and run: "track_description_in tk before after s = Inr (x, t)"
  shows "feedback_ok t"
proof (cases "revision_decide (is_task_evaluated tk s) (case latest_open_revision (tk_id tk) s of None \<Rightarrow> None | Some e \<Rightarrow> tf_quoted_markdown e) before after")
  case (OpenRevision quoted body)
  then obtain n seq now s1 y s2 where valid: "feedback_validate (feedback_new n (tk_id tk) seq Revision (Some quoted) body None now) = Inr ()"
    and s1: "s1 = s\<lparr>clock := stl (clock s), entropy := stl (entropy s)\<rparr>"
    and insert: "insert_feedback (feedback_new n (tk_id tk) seq Revision (Some quoted) body None now) s1 = Inr (y, s2)" and t: "task_feedbacks t = task_feedbacks s2"
    using run unfolding track_description_in_def
    by (auto simp: tx_bind_Inr ctx_now_def random_id_def tx_publish_def tx_modify_def Let_def)
  have "feedback_ok s1" using ok by (simp add: s1 feedback_ok_ctx)
  then show ?thesis using new_entry_keeps_threads [OF _ insert valid] by (simp add: feedback_ok_def t)
next
  case (UpdateRevision body)
  then obtain e y s1 where e: "latest_open_revision (tk_id tk) s = Some e"
    and save: "feedback_save (shd (clock s)) e (e\<lparr>tf_body_markdown := body\<rparr>) (s\<lparr>clock := stl (clock s)\<rparr>) = Inr (y, s1)" and t: "task_feedbacks t = task_feedbacks s1"
    using run unfolding track_description_in_def
    by (auto simp: tx_bind_Inr ctx_now_def tx_publish_def tx_modify_def split: option.splits)
  obtain es where "filter (\<lambda>e. tf_kind e = Revision) (pending_of_task (tk_id tk) s) = es @ [e]"
    using e by (auto simp: latest_open_revision_def rev_eq_Cons_iff split: list.splits)
  then have "e \<in> set (filter (\<lambda>e. tf_kind e = Revision) (pending_of_task (tk_id tk) s))" by simp
  then have "e \<in> set (pending_of_task (tk_id tk) s)" by simp
  then have mem: "e \<in> set (task_feedbacks s)" "tf_state e = FeedbackPending" by (auto simp: thread_members)
  have "feedback_moments_ok e" using threads_okD(2) [OF ok [unfolded feedback_ok_def] mem(1)] by blast
  then have "feedback_ok s1" using ok mem
    by (intro save_keeps_threads [OF _ _ save]) (simp_all add: feedback_ok_ctx feedback_moments_ok_def)
  then show ?thesis by (simp add: feedback_ok_def t)
next
  case RemoveRevision
  then obtain P where "task_feedbacks t = filter P (task_feedbacks s)"
    using run unfolding track_description_in_def
    by (auto simp: tx_bind_Inr delete_feedback_def tx_modify_def tx_publish_def split: option.splits)
  then show ?thesis using removal_keeps_threads ok by blast
next
  case IgnoreRevision
  then show ?thesis using run ok unfolding track_description_in_def by (auto simp: tx_bind_Inr)
qed

lemma reply_in_run:
  assumes ok: "feedback_ok s" and run: "feedback_reply_in u pl label replies s = Inr (x, t)"
  shows "\<exists>tk \<in> set (tasks s). \<exists>p. rp_task_anchor x = task_anchor tk (pr_label p) \<and> find_project (tk_project_id tk) s = Some p \<and> replies \<noteq> []
    \<and> rp_applied x = map fst replies \<and> distinct (map fst replies)
    \<and> (\<forall>seq \<in> fst ` set replies. \<exists>e \<in> set (task_feedbacks s). tf_task_id e = tk_id tk \<and> tf_seq e = seq \<and> feedback_open e)
    \<and> task_feedbacks t = map (entry_answered (tk_id tk) (shd (clock s)) replies) (task_feedbacks s)
    \<and> rp_still_open x = map tf_seq (open_of_task (tk_id tk) t) \<and> feedback_ok t"
proof -
  let ?c = "s\<lparr>clock := stl (clock s)\<rparr>"
  obtain tk s0 p applied s1 where task: "resolve_task u pl label s = Inr (tk, s0)" and project: "project_of tk s0 = Inr (p, s0)" and replies: "replies \<noteq> []"
    and all: "tx_map (apply_reply (tk_id tk) (shd (clock s0))) replies (s0\<lparr>clock := stl (clock s0)\<rparr>) = Inr (applied, s1)"
    and x: "x = \<lparr>rp_task_anchor = task_anchor tk (pr_label p), rp_applied = applied, rp_still_open = map tf_seq (open_of_task (tk_id tk) s1)\<rparr>"
    and t: "task_feedbacks t = task_feedbacks s1"
    using run unfolding feedback_reply_in_def
    by (auto simp: tx_bind_Inr project_of_Inr ctx_now_def tx_publish_def tx_modify_def split: if_splits)
  have s0: "s0 = s" "tk \<in> set (tasks s)" using resolve_task_Inr(1,2) [OF task] by simp_all
  have begun: "feedback_ok ?c" using ok by (simp add: feedback_ok_ctx)
  have "open_of_task (tk_id tk) t = open_of_task (tk_id tk) s1" by (simp add: open_of_task_def entries_in_state_def thread_of_def t)
  then show ?thesis using apply_replies_run [OF begun all [unfolded s0(1)]] s0(2) project replies
    by (intro bexI [of _ tk] exI [of _ p]) (simp_all add: x t s0(1) project_of_Inr feedback_ok_def)
qed

subsection \<open>Sequences of calls\<close>

text \<open>The calls on the thread; the description's watcher runs in the transaction of the service that edits the task.\<close>

inductive feedback_call :: "db \<Rightarrow> db \<Rightarrow> bool" where
  add: "feedback_call s (snd (feedback_add i command s))"
| edit: "feedback_call s (snd (feedback_edit i body s))"
| delete: "feedback_call s (snd (feedback_delete i s))"
| discard: "feedback_call s (snd (discard_revision i s))"
| start: "feedback_call s (snd (start_pass i s))"
| reply: "feedback_call s (snd (feedback_reply u pl label replies s))"
| release: "feedback_call s (snd (release_feedback i s))"
| track: "feedback_call s (snd (in_write (track_description_in tk before after) s))"

definition thread_store_ok :: "db \<Rightarrow> bool" where
  "thread_store_ok s \<longleftrightarrow> store_ok s \<and> feedback_ok s"

lemma thread_store_table: "table_invariant thread_store_ok"
  using store_ok_table feedback_ok_table by (simp add: table_invariant_def thread_store_ok_def)

lemma store_ok_discard: "preserves store_ok (discard_revision_in i)"
  by (rule preservesI) (rule discard_revision_run(1))

lemma discard_keeps_threads: "feedback_ok s \<Longrightarrow> store_ok s \<Longrightarrow> discard_revision_in i s = Inr (x, t) \<Longrightarrow> feedback_ok t"
  by (rule removal_keeps_threads [OF _ discard_revision_run(2)])

lemma reply_keeps_threads: "feedback_ok s \<Longrightarrow> feedback_reply_in u pl label replies s = Inr (x, t) \<Longrightarrow> feedback_ok t"
  using reply_in_run by blast

lemma keeps_both:
  "preserves store_ok m \<Longrightarrow> (\<And>s x t. feedback_ok s \<Longrightarrow> store_ok s \<Longrightarrow> m s = Inr (x, t) \<Longrightarrow> feedback_ok t) \<Longrightarrow> thread_store_ok s
    \<Longrightarrow> thread_store_ok (snd (in_write m s))"
  by (rule in_write_invariant [OF thread_store_table]) (auto simp: preserves_def thread_store_ok_def)

lemma feedback_call_keeps: "feedback_call s t \<Longrightarrow> thread_store_ok s \<Longrightarrow> thread_store_ok t"
  by (induction rule: feedback_call.induct)
    (auto simp: feedback_add_def feedback_edit_def feedback_delete_def discard_revision_def start_pass_def feedback_reply_def release_feedback_def
      intro!: keeps_both [OF store_ok_feedback_ops(3)] keeps_both [OF store_ok_feedback_ops(5)] keeps_both [OF store_ok_feedback_ops(6)]
        keeps_both [OF store_ok_discard] keeps_both [OF store_ok_feedback_ops(4)] keeps_both [OF store_ok_feedback_ops(1)]
        keeps_both [OF store_ok_feedback_ops(2)] keeps_both [OF store_ok_feedback_ops(7)]
      elim: add_keeps_threads edit_keeps_threads delete_entry_keeps_threads discard_keeps_threads start_pass_run(4) reply_keeps_threads
        release_feedback_run(2) track_keeps_threads)

lemma feedback_call_store: "feedback_call s t \<Longrightarrow> store_ok s \<Longrightarrow> store_ok t"
  by (induction rule: feedback_call.induct)
    (auto simp: feedback_add_def feedback_edit_def feedback_delete_def discard_revision_def start_pass_def feedback_reply_def release_feedback_def
      intro!: in_write_invariant [OF store_ok_table] store_ok_feedback_ops store_ok_discard)

text \<open>
  C11. Whatever is asked of the threads, in whatever order and whether the calls answer or are refused, the threads stay well formed and so does
  the rest of the store: within a task no two entries carry the same number, an entry that waits belongs to no pass, an applied one carries its
  reply and the moment it was applied, and the entries of a task that are running all belong to one pass.
\<close>

theorem feedback_threads:
  assumes "feedback_call\<^sup>*\<^sup>* s t" and "store_ok s" and "feedback_ok s"
  shows "store_ok t \<and> feedback_ok t"
proof -
  have "thread_store_ok t" using assms(1)
    by (induction rule: rtranclp_induct) (use assms(2,3) feedback_call_keeps in \<open>auto simp: thread_store_ok_def\<close>)
  then show ?thesis by (simp add: thread_store_ok_def)
qed

text \<open>A task with one entry that waits and one already applied.\<close>

definition waiting_entry :: task_feedback where
  "waiting_entry = feedback_new 40 2 2 Implementation None (lit ''More'') (Some 1) 7"
definition applied_entry :: task_feedback where
  "applied_entry = mark_applied (lit ''Done'') 6 (feedback_new 41 2 1 Implementation None (lit ''Do'') None 5)"
definition feedback_db :: db where
  "feedback_db = empty_db\<lparr>projects := [sample_project], tasks := [sample_task], task_feedbacks := [waiting_entry, applied_entry]\<rparr>"

lemma feedback_db_ok: "store_ok feedback_db" "feedback_ok feedback_db"
proof -
  show "store_ok feedback_db"
    by (simp add: store_ok_def flow_ok_def rest_ok_def steps_ok_def rows_ok_def dense_def positions_of_def links_ok_def visits_ok_def step_keys_def
        open_visits_def tasks_ok_def timers_ok_def deps_ok_def dep_edges_def queue_wf_def items_ok_def queue_dense_def task_moments_ok_def
        acyclic_def feedback_db_def run_defs)
  have fields: "tf_id waiting_entry = 40" "tf_id applied_entry = 41" "tf_seq waiting_entry = 2" "tf_seq applied_entry = 1"
    "tf_state waiting_entry = FeedbackPending" "tf_state applied_entry = FeedbackApplied"
    by (simp_all add: waiting_entry_def applied_entry_def feedback_new_def mark_applied_def)
  have rows: "feedback_validate waiting_entry = Inr ()" "feedback_validate applied_entry = Inr ()"
    by (simp_all add: waiting_entry_def applied_entry_def run_defs)
  have moments: "feedback_moments_ok waiting_entry" "feedback_moments_ok applied_entry"
    by (simp_all add: feedback_moments_ok_def waiting_entry_def applied_entry_def run_defs)
  show "feedback_ok feedback_db" by (simp add: feedback_ok_def threads_ok_def feedback_db_def fields rows moments)
qed

theorem feedback_threads_witness:
  "feedback_ok (snd (feedback_reply ascii_case None (lit ''t'') [(2, lit ''Fixed'')] (snd (start_pass 2 feedback_db))))"
proof -
  have "feedback_call\<^sup>*\<^sup>* feedback_db (snd (feedback_reply ascii_case None (lit ''t'') [(2, lit ''Fixed'')] (snd (start_pass 2 feedback_db))))"
    by (rule rtranclp.rtrancl_into_rtrancl [OF r_into_rtranclp [of feedback_call]]) (rule feedback_call.intros)+
  then show ?thesis using feedback_threads feedback_db_ok by blast
qed

subsection \<open>A pass taken and given back\<close>

lemma feedback_validate_frame [simp]:
  "feedback_validate (feedback_take pass now e) = feedback_validate e" "feedback_validate (feedback_release now e) = feedback_validate e"
  "feedback_validate (e\<lparr>tf_updated_at := u\<rparr>) = feedback_validate e"
  by (simp_all add: feedback_validate_def feedback_take_def feedback_release_def cong: option.case_cong)

definition numbered_apart :: "task_feedback list \<Rightarrow> bool" where
  "numbered_apart es \<longleftrightarrow> distinct (map tf_id es) \<and> (\<forall>e \<in> set es. \<forall>e' \<in> set es. tf_task_id e = tf_task_id e' \<and> tf_seq e = tf_seq e' \<longrightarrow> tf_id e = tf_id e')"

lemma numbered_apart_map:
  assumes apart: "numbered_apart es" and g: "\<And>e. tf_id (g e) = tf_id e" "\<And>e. tf_task_id (g e) = tf_task_id e" "\<And>e. tf_seq (g e) = tf_seq e"
  shows "numbered_apart (map g es)"
  unfolding numbered_apart_def
proof (intro conjI ballI impI)
  show "distinct (map tf_id (map g es))" using apart g(1) by (simp add: numbered_apart_def comp_def)
next
  fix a b assume ab: "a \<in> set (map g es)" "b \<in> set (map g es)" "tf_task_id a = tf_task_id b \<and> tf_seq a = tf_seq b"
  then obtain e e' where e: "a = g e" "b = g e'" "e \<in> set es" "e' \<in> set es" by auto
  have "tf_task_id e = tf_task_id e' \<and> tf_seq e = tf_seq e'" using ab(3) by (simp add: e g)
  then have "tf_id e = tf_id e'" using apart e(3,4) unfolding numbered_apart_def by blast
  then show "tf_id a = tf_id b" using g(1) by (simp add: e)
qed

lemma feedback_ok_apart: "feedback_ok s \<Longrightarrow> numbered_apart (task_feedbacks s)"
  unfolding feedback_ok_def threads_ok_def numbered_apart_def by blast

lemma feedback_save_succeeds:
  assumes "e \<in> set (task_feedbacks s)" "numbered_apart (task_feedbacks s)" "task_exists s (tf_task_id e)"
    and same: "tf_id after = tf_id e" "tf_task_id after = tf_task_id e" "tf_seq after = tf_seq e" and "feedback_validate after = Inr ()"
  shows "\<exists>x t. feedback_save now e after s = Inr (x, t)"
proof -
  have "feedback_row_ok s (after\<lparr>tf_updated_at := now\<rparr>)"
    unfolding feedback_row_ok_def list_all_iff
  proof (intro conjI ballI)
    show "task_exists s (tf_task_id (after\<lparr>tf_updated_at := now\<rparr>))" using assms(3) by (simp add: same)
    fix r assume r: "r \<in> set (task_feedbacks s)"
    have "tf_id r = tf_id e \<or> \<not> (tf_task_id r = tf_task_id e \<and> tf_seq r = tf_seq e)"
      using assms(1,2) r unfolding numbered_apart_def by blast
    then show "tf_id r = tf_id (after\<lparr>tf_updated_at := now\<rparr>)
        \<or> \<not> (tf_task_id r = tf_task_id (after\<lparr>tf_updated_at := now\<rparr>) \<and> tf_seq r = tf_seq (after\<lparr>tf_updated_at := now\<rparr>))"
      by (simp add: same)
  qed
  then show ?thesis using assms(1,7) same
    by (auto simp: feedback_save_def Let_def tx_bind_def tx_ok_def tx_lift_def update_feedback_def update_row_def)
qed

lemma save_all_succeeds:
  assumes "set es \<subseteq> set (task_feedbacks s)" "distinct es" "numbered_apart (task_feedbacks s)"
    and "\<forall>e \<in> set es. task_exists s (tf_task_id e) \<and> feedback_validate (f e) = Inr ()"
    and f: "\<And>e. tf_id (f e) = tf_id e" "\<And>e. tf_task_id (f e) = tf_task_id e" "\<And>e. tf_seq (f e) = tf_seq e" "\<And>e. tf_updated_at (f e) = now"
  shows "\<exists>t. save_all now f es s = Inr ((), t)"
  using assms(1-4)
proof (induction es arbitrary: s)
  case Nil
  then show ?case by (simp add: save_all_def tx_ok_def)
next
  case (Cons e es)
  have mem: "e \<in> set (task_feedbacks s)" and d: "distinct (map tf_id (task_feedbacks s))" using Cons.prems(1,3) by (simp_all add: numbered_apart_def)
  obtain x s1 where one: "feedback_save now e (f e) s = Inr (x, s1)"
    using feedback_save_succeeds [OF mem Cons.prems(3), of "f e" now] Cons.prems(4) f by auto
  note saved = feedback_save_Inr [OF one mem d f(1)]
  have s1: "s1 = s\<lparr>task_feedbacks := map (\<lambda>r. if r = e then f e else r) (task_feedbacks s)\<rparr>" using saved(2,3) f(4) by simp
  have "set es \<subseteq> set (task_feedbacks s1)" using Cons.prems(1,2) by (auto simp: s1 image_iff)
  moreover have "numbered_apart (task_feedbacks s1)" using numbered_apart_map [OF Cons.prems(3), of "\<lambda>r. if r = e then f e else r"] f by (simp add: s1)
  moreover have "\<forall>r \<in> set es. task_exists s1 (tf_task_id r) \<and> feedback_validate (f r) = Inr ()" using Cons.prems(4) by (simp add: s1 task_exists_def)
  ultimately obtain t where "save_all now f es s1 = Inr ((), t)" using Cons.IH [of s1] Cons.prems(2) by fastforce
  then show ?case using one by (auto simp: save_all_def tx_bind_def tx_ok_def)
qed

lemma mapped_saves_succeed:
  "save_all now f es s = Inr ((), t) \<Longrightarrow> \<exists>ys. tx_map (\<lambda>b. tx_bind (feedback_save now b (f b)) (\<lambda>saved. tx_ok (v saved))) es s = Inr (ys, t)"
proof (induction es arbitrary: s)
  case Nil
  then show ?case by (simp add: save_all_def tx_ok_def)
next
  case (Cons e es)
  then obtain y s1 where "feedback_save now e (f e) s = Inr (y, s1)" "save_all now f es s1 = Inr ((), t)"
    by (auto simp: save_all_def tx_bind_Inr)
  moreover from this obtain ys where "tx_map (\<lambda>b. tx_bind (feedback_save now b (f b)) (\<lambda>saved. tx_ok (v saved))) es s1 = Inr (ys, t)" using Cons.IH by blast
  ultimately show ?case by (simp add: tx_bind_def tx_ok_def)
qed

lemma find_task_exists: "find_task i s = Some tk \<Longrightarrow> task_exists s i"
  using find_task_Some by (auto simp: task_exists_def)

lemma start_pass_succeeds:
  assumes ok: "feedback_ok s" and tk: "find_task i s = Some tk" and none: "running_of_task i s = []" "pending_of_task i s \<noteq> []"
  shows "\<exists>taken t. start_pass_in i s = Inr (taken, t)"
proof -
  let ?now = "shd (clock s)" and ?pass = "as_i32 (latest_pass i s + 1)" and ?c = "s\<lparr>clock := stl (clock s)\<rparr>"
  have "\<exists>t. save_all ?now (feedback_take ?pass ?now) (pending_of_task i s) ?c = Inr ((), t)"
  proof (rule save_all_succeeds)
    show "\<forall>e \<in> set (pending_of_task i s). task_exists ?c (tf_task_id e) \<and> feedback_validate (feedback_take ?pass ?now e) = Inr ()"
      using threads_okD(2) [OF ok [unfolded feedback_ok_def]] find_task_exists [OF tk] by (auto simp: thread_members task_exists_def)
  qed (use distinct_thread [OF ok] feedback_ok_apart [OF ok] in \<open>auto simp: thread_members feedback_take_def\<close>)
  then obtain t ys where "tx_map (\<lambda>b. tx_bind (feedback_save ?now b (feedback_take ?pass ?now b)) (\<lambda>saved. tx_ok (feedback_view_of saved))) (pending_of_task i s) ?c
      = Inr (ys, t)" using mapped_saves_succeed by blast
  moreover have reads: "require_task i s = Inr (tk, s)" using tk by (simp add: require_task_Inr)
  ultimately show ?thesis using none
    by (simp add: start_pass_in_def tx_bind_def tx_ok_def tx_gets_def reads ctx_now_def tx_publish_def tx_modify_def Let_def)
qed

lemma release_feedback_succeeds:
  assumes ok: "feedback_ok s" and tk: "task_exists s i"
  shows "\<exists>t. release_feedback_in i s = Inr ((), t)"
proof (cases "running_of_task i s = []")
  case True
  then show ?thesis by (simp add: release_feedback_in_def tx_bind_def tx_ok_def tx_gets_def)
next
  case False
  let ?now = "shd (clock s)" and ?c = "s\<lparr>clock := stl (clock s)\<rparr>"
  have "\<exists>t. save_all ?now (feedback_release ?now) (running_of_task i s) ?c = Inr ((), t)"
  proof (rule save_all_succeeds)
    show "\<forall>e \<in> set (running_of_task i s). task_exists ?c (tf_task_id e) \<and> feedback_validate (feedback_release ?now e) = Inr ()"
      using threads_okD(2) [OF ok [unfolded feedback_ok_def]] tk by (auto simp: thread_members task_exists_def)
  qed (use distinct_thread [OF ok] feedback_ok_apart [OF ok] in \<open>auto simp: thread_members feedback_release_def\<close>)
  then show ?thesis using False
    by (auto simp: release_feedback_in_def save_all_def tx_bind_def tx_ok_def tx_gets_def ctx_now_def tx_publish_def tx_modify_def)
qed

text \<open>
  C33. Starting a pass. It is refused, with nothing changed, exactly when the task does not exist, a pass is still running on it or nothing
  waits; otherwise it takes every entry of the task that waits, and no other, into one new pass.
\<close>

theorem start_pass_exact:
  assumes "feedback_ok s"
  shows "case start_pass i s of
      (Inl _, t) \<Rightarrow> t = s \<and> (find_task i s = None \<or> running_of_task i s \<noteq> [] \<or> pending_of_task i s = [])
    | (Inr _, t) \<Rightarrow> find_task i s \<noteq> None \<and> running_of_task i s = [] \<and> pending_of_task i s \<noteq> [] \<and> feedback_ok t
        \<and> task_feedbacks t = map (\<lambda>e. if e \<in> set (pending_of_task i s) then feedback_take (as_i32 (latest_pass i s + 1)) (shd (clock s)) e else e) (task_feedbacks s)"
proof -
  let ?b = "tx_begin s"
  have same: "task_feedbacks ?b = task_feedbacks s" "clock ?b = clock s" "find_task i ?b = find_task i s" "running_of_task i ?b = running_of_task i s"
    "pending_of_task i ?b = pending_of_task i s" "latest_pass i ?b = latest_pass i s" "feedback_ok ?b = feedback_ok s"
    by (simp_all add: tx_begin_def find_task_def running_of_task_def pending_of_task_def entries_in_state_def thread_of_def latest_pass_def feedback_ok_def)
  show ?thesis
  proof (cases "start_pass_in i ?b")
    case (Inl e)
    have "\<not> (find_task i s \<noteq> None \<and> running_of_task i s = [] \<and> pending_of_task i s \<noteq> [])"
    proof
      assume free: "find_task i s \<noteq> None \<and> running_of_task i s = [] \<and> pending_of_task i s \<noteq> []"
      then obtain tk where "find_task i s = Some tk" by blast
      then show False using start_pass_succeeds [of ?b i tk] assms Inl free by (simp add: same)
    qed
    then show ?thesis using Inl by (auto simp: start_pass_def in_write_def)
  next
    case (Inr r)
    then obtain taken t' where run: "start_pass_in i ?b = Inr (taken, t')" by (cases r) auto
    have tk: "find_task i s \<noteq> None" using run by (auto simp: start_pass_in_def tx_bind_Inr require_task_Inr same)
    have t: "task_feedbacks (tx_commit t') = task_feedbacks t'" "feedback_ok (tx_commit t') = feedback_ok t'" by (simp_all add: tx_commit_def feedback_ok_def)
    have taken: "map (\<lambda>e. if tf_task_id e = i \<and> tf_state e = FeedbackPending then f e else e) (task_feedbacks s)
        = map (\<lambda>e. if e \<in> set (pending_of_task i s) then f e else e) (task_feedbacks s)" for f by (simp add: thread_members)
    show ?thesis using start_pass_run [of ?b, OF _ run] assms tk by (simp add: start_pass_def in_write_def run t same taken)
  qed
qed

theorem start_pass_exact_witness:
  "map tf_state (task_feedbacks (snd (start_pass 2 feedback_db))) = [FeedbackRunning, FeedbackApplied]"
proof -
  have pending: "pending_of_task 2 feedback_db = [waiting_entry]" "running_of_task 2 feedback_db = []"
    by (simp_all add: feedback_db_def waiting_entry_def applied_entry_def run_defs)
  have found: "find_task 2 feedback_db = Some sample_task" by (simp add: feedback_db_def run_defs)
  have fields: "tf_state applied_entry = FeedbackApplied" "applied_entry \<noteq> waiting_entry" "task_feedbacks feedback_db = [waiting_entry, applied_entry]"
    by (simp_all add: waiting_entry_def applied_entry_def feedback_new_def mark_applied_def feedback_db_def)
  show ?thesis using start_pass_exact [OF feedback_db_ok(2), of 2]
    by (auto simp: pending found fields feedback_take_def split: prod.splits sum.splits)
qed

text \<open>
  A session that ends without replying leaves no trace: giving back the pass it had taken succeeds, and every entry is again as it was
  before the pass, the moment of its last change apart.
\<close>

theorem feedback_pass_returned:
  assumes "feedback_ok s" and "start_pass i s = (Inr taken, s1)"
  shows "\<exists>s2. release_feedback i s1 = (Inr (), s2)
    \<and> map (\<lambda>e. e\<lparr>tf_updated_at := 0\<rparr>) (task_feedbacks s2) = map (\<lambda>e. e\<lparr>tf_updated_at := 0\<rparr>) (task_feedbacks s)"
proof -
  let ?b = "tx_begin s"
  obtain s1' where run: "start_pass_in i ?b = Inr (taken, s1')" and s1: "s1 = tx_commit s1'"
    using assms(2) by (auto simp: start_pass_def in_write_Inr)
  have b: "task_feedbacks ?b = task_feedbacks s" "feedback_ok ?b" "running_of_task i ?b = running_of_task i s"
    using assms(1) by (simp_all add: tx_begin_def running_of_task_def entries_in_state_def thread_of_def feedback_ok_def)
  define p m where "p = as_i32 (latest_pass i ?b + 1)" and "m = shd (clock ?b)"
  have taken: "running_of_task i s = []" "task_feedbacks s1' = map (\<lambda>e. if tf_task_id e = i \<and> tf_state e = FeedbackPending then feedback_take p m e else e) (task_feedbacks s)"
      "feedback_ok s1'" using start_pass_run [OF b(2) run] by (simp_all add: b p_def m_def)
  let ?c = "tx_begin s1"
  have c: "task_feedbacks ?c = task_feedbacks s1'" "feedback_ok ?c" "tasks ?c = tasks s1'" using taken(3) by (simp_all add: s1 tx_begin_def tx_commit_def feedback_ok_def)
  obtain tk where "find_task i ?b = Some tk" using run by (auto simp: start_pass_in_def tx_bind_Inr require_task_Inr)
  then have "task_exists ?c i" using find_task_exists start_pass_run(5) [OF b(2) run] c(3) by (simp add: task_exists_def)
  then obtain t' where returned: "release_feedback_in i ?c = Inr ((), t')" using release_feedback_succeeds [OF c(2)] by blast
  have rows: "task_feedbacks t' = map (\<lambda>e. if tf_task_id e = i \<and> tf_state e = FeedbackRunning then feedback_release (shd (clock ?c)) e else e) (task_feedbacks s1')"
    using release_feedback_run(1) [OF c(2) returned] by (simp add: c)
  have "(\<lambda>e. e\<lparr>tf_updated_at := 0\<rparr>) (if tf_task_id x = i \<and> tf_state x = FeedbackRunning then feedback_release q x else x) = e\<lparr>tf_updated_at := 0\<rparr>"
    if x: "x = (if tf_task_id e = i \<and> tf_state e = FeedbackPending then feedback_take p m e else e)" and e: "e \<in> set (task_feedbacks s)" for e x q
  proof (cases "tf_task_id e = i \<and> tf_state e = FeedbackPending")
    case True
    then have "tf_pass e = None" "tf_taken_at e = None"
      using threads_okD(2) [OF assms(1) [unfolded feedback_ok_def] e] by (simp_all add: feedback_moments_ok_def)
    then show ?thesis using True by (cases e) (simp add: x feedback_take_def feedback_release_def)
  next
    case False
    then show ?thesis using taken(1) e thread_members(3) [of i s] by (auto simp: x)
  qed
  then have "map (\<lambda>e. e\<lparr>tf_updated_at := 0\<rparr>) (task_feedbacks t') = map (\<lambda>e. e\<lparr>tf_updated_at := 0\<rparr>) (task_feedbacks s)"
    by (simp add: rows taken(2))
  moreover have "release_feedback i s1 = (Inr (), tx_commit t')" using returned by (simp add: release_feedback_def in_write_Inr)
  ultimately show ?thesis by (simp add: tx_commit_def)
qed

theorem feedback_pass_returned_witness:
  "\<exists>s2. release_feedback 2 (snd (start_pass 2 feedback_db)) = (Inr (), s2) \<and> map tf_state (task_feedbacks s2) = [FeedbackPending, FeedbackApplied]"
proof -
  have started: "isl (fst (start_pass 2 feedback_db)) = False"
  proof -
    have "find_task 2 (tx_begin feedback_db) = Some sample_task" "running_of_task 2 (tx_begin feedback_db) = []" "pending_of_task 2 (tx_begin feedback_db) \<noteq> []"
      by (simp_all add: feedback_db_def waiting_entry_def applied_entry_def run_defs)
    then obtain taken t where "start_pass_in 2 (tx_begin feedback_db) = Inr (taken, t)"
      using start_pass_succeeds [of "tx_begin feedback_db" 2 sample_task] feedback_db_ok(2) by (auto simp: tx_begin_def feedback_ok_ctx)
    then show ?thesis by (simp add: start_pass_def in_write_def)
  qed
  obtain r s1 where run: "start_pass 2 feedback_db = (r, s1)" by (rule prod.exhaust)
  obtain taken where r: "r = Inr taken" using started run by (cases r) auto
  obtain s2 where s2: "release_feedback 2 s1 = (Inr (), s2)"
    and rows: "map (\<lambda>e. e\<lparr>tf_updated_at := 0\<rparr>) (task_feedbacks s2) = map (\<lambda>e. e\<lparr>tf_updated_at := 0\<rparr>) (task_feedbacks feedback_db)"
    using feedback_pass_returned [OF feedback_db_ok(2) run [unfolded r]] by blast
  have "map tf_state (map (\<lambda>e. e\<lparr>tf_updated_at := 0\<rparr>) (task_feedbacks s2)) = map tf_state (map (\<lambda>e. e\<lparr>tf_updated_at := 0\<rparr>) (task_feedbacks feedback_db))"
    by (simp only: rows)
  then have "map tf_state (task_feedbacks s2) = map tf_state (task_feedbacks feedback_db)" by (simp add: comp_def)
  then show ?thesis using s2 run by (simp add: feedback_db_def waiting_entry_def applied_entry_def feedback_new_def mark_applied_def)
qed

subsection \<open>What is left open\<close>

lemma sort_key_map: "(\<And>x. f (g x) = f x) \<Longrightarrow> sort_key f (map g xs) = map g (sort_key f xs)"
proof (induction xs)
  case (Cons x xs)
  have "insort_key f (g x) (map g ys) = map g (insort_key f x ys)" for ys using Cons.prems by (induction ys) auto
  then show ?case using Cons by simp
qed simp

lemma answered_frame_keys: "tf_task_id (entry_answered i now replies e) = tf_task_id e" "tf_seq (entry_answered i now replies e) = tf_seq e"
  by (simp_all add: entry_answered_def mark_applied_def split: option.split)

lemma open_after_answers:
  assumes "task_feedbacks t = map (entry_answered i now replies) (task_feedbacks s)"
  shows "map tf_seq (open_of_task i t) = filter (\<lambda>n. n \<notin> fst ` set replies) (map tf_seq (open_of_task i s))"
proof -
  let ?g = "entry_answered i now replies" and ?mine = "\<lambda>e. tf_task_id e = i"
  have threads: "thread_of i t = map ?g (thread_of i s)"
    by (simp add: thread_of_def assms filter_map comp_def answered_frame_keys sort_key_map)
  have opened: "open_of_task i x = filter feedback_open (thread_of i x)" for x
    by (simp add: open_of_task_def entries_in_state_def feedback_open_def [abs_def])
  have "feedback_open (?g e) \<longleftrightarrow> feedback_open e \<and> tf_seq e \<notin> fst ` set replies" if "e \<in> set (thread_of i s)" for e
  proof (cases "map_of replies (tf_seq e)")
    case None
    then have "tf_seq e \<notin> fst ` set replies" by (simp add: map_of_eq_None_iff)
    moreover have "?g e = e" unfolding entry_answered_def None by simp
    ultimately show ?thesis by simp
  next
    case (Some given)
    then have "tf_seq e \<in> fst ` set replies" by (force dest: map_of_SomeD)
    moreover have "tf_task_id e = i" using that by (simp add: thread_members)
    ultimately show ?thesis using Some by (simp add: entry_answered_def mark_applied_def feedback_open_def)
  qed
  then have "filter (\<lambda>e. feedback_open (?g e)) (thread_of i s) = filter (\<lambda>e. feedback_open e \<and> tf_seq e \<notin> fst ` set replies) (thread_of i s)"
    by (intro filter_cong) simp_all
  then show ?thesis
    by (simp add: opened threads filter_map comp_def answered_frame_keys conj_commute)
qed

text \<open>
  C32. A session's replies are all or nothing. Either one of them is refused, and then not a row has changed; or they name distinct entries
  of the task's thread that were open, each of which is now applied with its reply, no other entry has changed, and the answer lists as still
  open exactly the entries that were open and were not answered, in their order.
\<close>

theorem feedback_reply_exact:
  assumes "feedback_ok s" and "feedback_reply u project_label task_label replies s = (r, t)"
  shows "case r of
      Inl _ \<Rightarrow> t = s
    | Inr answer \<Rightarrow> \<exists>tk \<in> set (tasks s). \<exists>p. rp_task_anchor answer = task_anchor tk (pr_label p) \<and> find_project (tk_project_id tk) s = Some p
        \<and> replies \<noteq> [] \<and> rp_applied answer = map fst replies \<and> distinct (map fst replies)
        \<and> (\<forall>n \<in> fst ` set replies. \<exists>e \<in> set (open_of_task (tk_id tk) s). tf_seq e = n)
        \<and> task_feedbacks t = map (entry_answered (tk_id tk) (shd (clock s)) replies) (task_feedbacks s)
        \<and> rp_still_open answer = filter (\<lambda>n. n \<notin> fst ` set replies) (map tf_seq (open_of_task (tk_id tk) s)) \<and> feedback_ok t"
proof (cases r)
  case (Inl e)
  then show ?thesis using assms(2) by (auto simp: feedback_reply_def dest: in_write_Inl)
next
  case (Inr answer)
  let ?b = "tx_begin s"
  obtain t' where run: "feedback_reply_in u project_label task_label replies ?b = Inr (answer, t')" and t: "t = tx_commit t'"
    using assms(2) Inr by (auto simp: feedback_reply_def in_write_Inr)
  have b: "feedback_ok ?b" "tasks ?b = tasks s" "task_feedbacks ?b = task_feedbacks s" "clock ?b = clock s" "\<And>i. find_project i ?b = find_project i s"
    using assms(1) by (simp_all add: tx_begin_def feedback_ok_def find_project_def)
  have t': "task_feedbacks t = task_feedbacks t'" by (simp add: t tx_commit_def)
  obtain tk p where tk: "tk \<in> set (tasks s)" "rp_task_anchor answer = task_anchor tk (pr_label p)" "find_project (tk_project_id tk) s = Some p"
    "replies \<noteq> []" "rp_applied answer = map fst replies" "distinct (map fst replies)"
    and opened: "\<forall>n \<in> fst ` set replies. \<exists>e \<in> set (task_feedbacks s). tf_task_id e = tk_id tk \<and> tf_seq e = n \<and> feedback_open e"
    and rows: "task_feedbacks t' = map (entry_answered (tk_id tk) (shd (clock s)) replies) (task_feedbacks s)"
    and still: "rp_still_open answer = map tf_seq (open_of_task (tk_id tk) t')" and ok: "feedback_ok t'"
    using reply_in_run [OF b(1) run] unfolding b by blast
  have "\<forall>n \<in> fst ` set replies. \<exists>e \<in> set (open_of_task (tk_id tk) s). tf_seq e = n" using opened by (fastforce simp: thread_members)
  moreover have "rp_still_open answer = filter (\<lambda>n. n \<notin> fst ` set replies) (map tf_seq (open_of_task (tk_id tk) s))"
    using still open_after_answers [OF rows] by simp
  moreover have "feedback_ok t" using ok by (simp add: feedback_ok_def t')
  ultimately show ?thesis using tk rows t' Inr by auto
qed

theorem feedback_reply_exact_witness:
  "\<exists>answer t. feedback_reply ascii_case None (lit ''t'') [(2, lit ''Fixed'')] feedback_db = (Inr answer, t)
    \<and> rp_applied answer = [2] \<and> rp_still_open answer = [] \<and> map tf_state (task_feedbacks t) = [FeedbackApplied, FeedbackApplied]"
proof -
  let ?r = "[(2, lit ''Fixed'')]" and ?b = "tx_begin feedback_db"
  let ?c = "?b\<lparr>clock := sample_clock\<rparr>" and ?e = "mark_applied (lit ''Fixed'') 50 waiting_entry"
  have task: "resolve_task ascii_case None (lit ''t'') ?b = Inr (sample_task, ?b)" by (simp add: feedback_db_def run_defs)
  have project: "project_of sample_task ?b = Inr (sample_project, ?b)" by (simp add: feedback_db_def run_defs)
  have entry: "find_by_seq 2 2 ?c = Some waiting_entry" "feedback_open waiting_entry" "waiting_entry \<in> set (task_feedbacks ?c)" "tf_task_id waiting_entry = 2"
    by (simp_all add: feedback_db_def waiting_entry_def applied_entry_def run_defs)
  have reply: "validated_reply 2 (lit ''Fixed'') = Inr (lit ''Fixed'')" by (simp add: run_defs)
  have valid: "feedback_validate ?e = Inr ()" by (simp add: waiting_entry_def run_defs)
  have apart: "numbered_apart (task_feedbacks ?c)" using feedback_ok_apart [OF feedback_db_ok(2)] by (simp add: tx_begin_def)
  have exists: "task_exists ?c 2" by (simp add: feedback_db_def run_defs)
  obtain x s1 where saved: "feedback_save 50 waiting_entry ?e ?c = Inr (x, s1)"
    using feedback_save_succeeds [OF entry(3) apart, of ?e 50] exists valid by (auto simp: entry(4) mark_applied_def)
  have clock: "clock ?b = sample_clock" "tk_id sample_task = 2" by (simp_all add: feedback_db_def run_defs)
  have "\<exists>answer t'. feedback_reply_in ascii_case None (lit ''t'') ?r ?b = Inr (answer, t')"
    using saved task project by (simp add: feedback_reply_in_def apply_reply_def tx_bind_def tx_ok_def tx_gets_def tx_lift_def ctx_now_def clock entry reply tx_publish_def tx_modify_def
        del: lit_Cons lit_Nil)
  then obtain answer t where run: "feedback_reply ascii_case None (lit ''t'') ?r feedback_db = (Inr answer, t)" by (auto simp: feedback_reply_def in_write_def)
  have facts: "tasks feedback_db = [sample_task]" "map tf_seq (open_of_task 2 feedback_db) = [2]" "task_feedbacks feedback_db = [waiting_entry, applied_entry]"
    "tf_state (entry_answered 2 50 ?r waiting_entry) = FeedbackApplied" "tf_state (entry_answered 2 50 ?r applied_entry) = FeedbackApplied" "shd (clock feedback_db) = 50"
    by (simp_all add: feedback_db_def waiting_entry_def applied_entry_def entry_answered_def run_defs)
  show ?thesis using feedback_reply_exact [OF feedback_db_ok(2) run] run by (auto simp: facts clock simp del: lit_Cons lit_Nil)
qed

end
