(* ===== verification/Services.thy ===== *)
theory Services
  imports Task_Authoring Queue_Properties Wrapups Notes Feedback_Facts
begin

text \<open>
  The calls clients make on the services, as step relations on the committed database: one rule
  per public operation that writes, with arbitrary arguments, whether the call answers or is refused.
  Every service runs its work in one transaction of a single writer, so interleaved clients are
  sequences of calls. The last part shows that every call keeps the invariant of the whole store.
\<close>

section \<open>The calls\<close>

inductive checklist_call :: "db \<Rightarrow> db \<Rightarrow> bool" where
  add: "checklist_call s (snd (step_add i title body s))"
| propose: "checklist_call s (snd (step_propose u pl label title body starts staging s))"
| edit: "checklist_call s (snd (step_edit i title body don dr s))"
| send_back: "checklist_call s (snd (send_back i s))"
| transition: "checklist_call s (snd (step_transition u pl label reference target s))"
| mark_running: "checklist_call s (snd (mark_running step_id s))"
| release_running: "checklist_call s (snd (release_running step_id s))"
| move_to: "checklist_call s (snd (step_move_to i position s))"
| place_in_flow: "checklist_call s (snd (place_in_flow i place s))"
| limit_visits: "checklist_call s (snd (limit_visits i budget s))"
| begin_session: "checklist_call s (snd (begin_session i starts s))"
| clear_flow_places: "checklist_call s (snd (clear_flow_places i s))"
| delete: "checklist_call s (snd (step_delete i s))"
| remove: "checklist_call s (snd (step_remove u pl label reference s))"

inductive flow_call :: "db \<Rightarrow> db \<Rightarrow> bool" where
  link_add: "flow_call s (snd (link_add u i route outcome s))"
| link_edit: "flow_call s (snd (link_edit u i new_route outcome s))"
| link_delete: "flow_call s (snd (link_delete i s))"
| transition: "flow_call s (snd (flow_transition u pl label reference target outcome report s))"
| reset: "flow_call s (snd (flow_reset i s))"
| propose: "flow_call s (snd (flow_propose u pl label plan staging s))"
| replan: "flow_call s (snd (flow_replan u pl label plan staging s))"

inductive timer_call :: "db \<Rightarrow> db \<Rightarrow> bool" where
  start: "timer_call s (snd (entry_start i s))"
| stop: "timer_call s (snd (entry_stop i s))"
| edit: "timer_call s (snd (entry_edit i started stopped s))"
| delete: "timer_call s (snd (entry_delete i s))"
| shutdown: "timer_call s (snd (stop_all_on_shutdown s))"
| idle: "timer_call s (snd (stop_idle idle_after s))"

inductive review_call :: "db \<Rightarrow> db \<Rightarrow> bool" where
  session: "review_call s (snd (session_running i is_running s))"
| accept_quick: "review_call s (snd (accept_quick_claim i s))"
| accept: "review_call s (snd (in_write (accept_in i) s))"
| send_back: "review_call s (snd (in_write (review_send_back_in i) s))"

inductive console_queue_call :: "db \<Rightarrow> db \<Rightarrow> bool" where
  view: "console_queue_call s (snd (queue_view s))"
| settings: "console_queue_call s (snd (update_settings u ceiling skip model effort kind parallel_sessions s))"
| add: "console_queue_call s (snd (queue_add i s))"
| arm: "console_queue_call s (snd (add_and_arm i s))"
| remove: "console_queue_call s (snd (queue_remove i s))"
| move: "console_queue_call s (snd (queue_move i index s))"
| clear: "console_queue_call s (snd (clear_settled s))"
| start: "console_queue_call s (snd (queue_start start_at s))"
| stop: "console_queue_call s (snd (queue_stop reason s))"

inductive dependency_call :: "db \<Rightarrow> db \<Rightarrow> bool" where
  add: "dependency_call s (snd (dependency_add i depends_on s))"
| remove: "dependency_call s (snd (dependency_remove i depends_on s))"

inductive wrapup_call :: "db \<Rightarrow> db \<Rightarrow> bool" where
  "write": "wrapup_call s (snd (wrapup_write_at i body author head s))"
| anchored: "wrapup_call s (snd (wrapup_write_anchored u pl label body author head s))"
| delete: "wrapup_call s (snd (wrapup_delete i s))"

inductive authoring_call :: "db \<Rightarrow> db \<Rightarrow> bool" where
  create: "authoring_call s (snd (task_create u project_label brief plan s))"
| join: "authoring_call s (snd (epic_join u pl label epic_label s))"

inductive note_call :: "db \<Rightarrow> db \<Rightarrow> bool" where
  "note_call s (snd (note_write u pl label title body on_clash s))"

text \<open>\<open>runner_call\<close> holds the calls of the queue's worker, \<open>feedback_call\<close> those on a task's thread.\<close>

definition service_call :: "db \<Rightarrow> db \<Rightarrow> bool" where
  "service_call s t \<longleftrightarrow> checklist_call s t \<or> flow_call s t \<or> timer_call s t \<or> review_call s t
     \<or> dependency_call s t \<or> wrapup_call s t \<or> authoring_call s t \<or> note_call s t \<or> feedback_call s t \<or> console_queue_call s t \<or> runner_call s t"

section \<open>Every call keeps the store well formed\<close>

lemma store_ok_write: "preserves store_ok m \<Longrightarrow> store_ok s \<Longrightarrow> store_ok (snd (in_write m s))"
  by (rule in_write_invariant [OF store_ok_table])

lemma frame_store_steps:
  "(\<And>base. preserves (step_frame base) m) \<Longrightarrow> preserves rest_ok m \<Longrightarrow> preserves store_ok m"
  by (rule store_ok_steps [OF frame_flow_ok])

lemma answered_frame:
  assumes "\<And>base. preserves (step_frame base) m"
  shows "preserves (step_frame base) (tx_bind m (\<lambda>saved. answer_checklist (f saved)))"
  using assms frame_answer_checklist by (intro preserves_tx_bind)

lemma answered_rest: "preserves rest_ok m \<Longrightarrow> preserves rest_ok (tx_bind m (\<lambda>saved. answer_checklist (f saved)))"
  using foreign.foreign_step_adds(8) by (intro preserves_tx_bind)

lemmas store_ok_checklist =
  frame_store_steps [OF frame_add(1) foreign.foreign_step_adds(2)]
  frame_store_steps [OF frame_propose foreign.foreign_step_moves(1)]
  frame_store_steps [OF frame_edit foreign.foreign_step_moves(2)]
  frame_store_steps [OF frame_send_back foreign.foreign_step_moves(3)]
  frame_store_steps [OF frame_transition foreign.foreign_step_moves(5)]
  frame_store_steps [OF frame_move_if foreign.foreign_step_moves(7)]
  frame_store_steps [OF frame_move_to foreign.foreign_step_moves(8)]
  frame_store_steps [OF frame_settings(4) foreign.foreign_step_moves(9)]
  frame_store_steps [OF frame_clear_flow_places foreign.foreign_step_moves(10)]
  frame_store_steps [OF answered_frame [OF frame_settings(1)] answered_rest [OF foreign.foreign_step_adds(6)]]
  frame_store_steps [OF answered_frame [OF frame_settings(2)] answered_rest [OF foreign.foreign_step_adds(7)]]
  store_ok_steps [OF flow_ok_delete foreign.foreign_step_moves(12)]
  store_ok_steps [OF flow_ok_remove foreign.foreign_step_moves(13)]

lemma store_ok_move_if: "store_ok s \<Longrightarrow> store_ok (snd (move_if step_id a b s))"
  by (auto simp: move_if_def intro!: store_ok_write store_ok_checklist split: option.splits)

lemma checklist_call_ok: "checklist_call s t \<Longrightarrow> store_ok s \<Longrightarrow> store_ok t"
proof (induction rule: checklist_call.induct)
  case (release_running s step_id)
  then show ?case using store_ok_move_if [of s step_id Running Open]
    by (auto simp: release_running_def split: prod.splits sum.splits)
qed (auto simp: step_add_def step_propose_def step_edit_def send_back_def step_transition_def
    mark_running_def step_move_to_def place_in_flow_def limit_visits_def begin_session_def
    clear_flow_places_def step_delete_def step_remove_def
    intro!: store_ok_move_if store_ok_write store_ok_checklist)

lemma flow_ok_link_answer: "preserves flow_ok (link_answer i)"
  unfolding link_answer_def
  by (intro preserves_tx_bind preserves_publish_steps reads_preserves reads_views flow_ok_table)

lemmas store_ok_flow =
  store_ok_steps [OF flow_ok_link_add_in foreign.foreign_links(4)]
  store_ok_steps [OF flow_ok_link_answer foreign.foreign_links(3)]
  store_ok_steps [OF flow_ok_link_edit foreign.foreign_links(6)]
  store_ok_steps [OF flow_ok_link_delete foreign.foreign_links(7)]
  store_ok_steps [OF flow_ok_transition foreign.foreign_flow(5)]
  store_ok_steps [OF flow_ok_reset foreign.foreign_flow(6)]
  store_ok_steps [OF flow_ok_propose foreign.foreign_plans(4)]
  store_ok_steps [OF flow_ok_replan foreign.foreign_plans(5)]

lemma flow_call_ok: "flow_call s t \<Longrightarrow> store_ok s \<Longrightarrow> store_ok t"
proof (induction rule: flow_call.induct)
  case (link_add s u i route outcome)
  then show ?case unfolding link_add_def
    by (intro store_ok_write preserves_tx_bind store_ok_flow(1,2))
qed (auto simp: link_edit_def link_delete_def flow_transition_def flow_reset_def flow_propose_def flow_replan_def
    intro!: store_ok_write store_ok_flow split: sum.splits)

lemmas store_ok_timers =
  store_ok_timed [OF timers_start untimed.untimed_ops(2)] store_ok_timed [OF timers_stop untimed.untimed_ops(4)]
  store_ok_timed [OF timers_edit untimed.untimed_ops(5)] store_ok_timed [OF timers_delete untimed.untimed_rows(3)]
  store_ok_timed [OF timers_shutdown untimed.untimed_ops(6)] store_ok_timed [OF timers_idle untimed.untimed_idle]

lemma timer_call_ok: "timer_call s t \<Longrightarrow> store_ok s \<Longrightarrow> store_ok t"
  by (induction rule: timer_call.induct)
    (auto simp: entry_start_def entry_stop_def entry_edit_def entry_delete_def stop_all_on_shutdown_def stop_idle_def
      intro!: store_ok_write store_ok_timers)

lemma review_call_ok: "review_call s t \<Longrightarrow> store_ok s \<Longrightarrow> store_ok t"
  by (induction rule: review_call.induct)
    (auto simp: session_running_def accept_quick_claim_def
      intro!: store_ok_write store_ok_by_review frame_review_ops)

lemma frame_queue_view: "preserves (queue_frame base) queue_view_in"
proof (rule preserves_wpI)
  fix s assume frame: "queue_frame base s"
  show "wp queue_view_in (\<lambda>_. queue_frame base) s"
    unfolding queue_view_in_def wp_bind by (rule wp_the_queue [OF frame]) (rule wp_reads [OF reads_queue_view])
qed

lemma console_queue_call_ok: "console_queue_call s t \<Longrightarrow> store_ok s \<Longrightarrow> store_ok t"
  by (induction rule: console_queue_call.induct)
    (auto simp: queue_view_def update_settings_def queue_add_def add_and_arm_def queue_remove_def queue_move_def clear_settled_def
      queue_start_def queue_stop_def intro!: store_ok_write store_ok_by_queue frame_queue_view frame_queue_ops)

lemma runner_call_ok: "runner_call s t \<Longrightarrow> store_ok s \<Longrightarrow> store_ok t"
  by (induction rule: runner_call.induct)
    (auto simp: queue_resume_def queue_hold_def queue_finish_def mark_item_def stop_blocked_def refresh_for_task_def
      recover_after_restart_def intro!: store_ok_write store_ok_by_queue frame_queue_ops)

lemma then_refresh_ok: "store_ok (snd r) \<Longrightarrow> store_ok (snd (then_refresh i r))"
  using runner_call_ok [OF runner_call.intros(6), of "snd r" i]
  by (auto simp: then_refresh_def split: sum.splits prod.splits)

lemma dependency_call_ok: "dependency_call s t \<Longrightarrow> store_ok s \<Longrightarrow> store_ok t"
  by (induction rule: dependency_call.induct)
    (auto simp: dependency_add_def dependency_remove_def
      intro!: then_refresh_ok store_ok_write store_ok_by_deps frame_dependency_add frame_dependency_remove)

text \<open>No invariant of the store reads the wrapups or the notes, so a wrapup's only other effect is the claim it makes.\<close>

lemma store_ok_texts:
  "store_ok (wrapups_update f s) = store_ok s" "store_ok (wrapup_versions_update g s) = store_ok s"
  "store_ok (documents_update h s) = store_ok s" "store_ok (document_tasks_update k s) = store_ok s"
  by (simp_all add: store_ok_def flow_ok_def rest_ok_def steps_ok_def rows_ok_def dense_def positions_of_def links_ok_def visits_ok_def
      step_keys_def open_visits_def tasks_ok_def task_ok_def timers_ok_def task_exists_def deps_ok_def dep_edges_def project_of_task_def
      find_task_def queue_wf_def items_ok_def queue_dense_def)

lemma store_ok_wrapup_rows:
  "preserves store_ok (insert_wrapup w)" "preserves store_ok (update_wrapup w)" "preserves store_ok (insert_version v)"
  "preserves store_ok (delete_wrapup_row i)" "preserves store_ok (delete_version_row i)"
  by (rule preservesI, auto simp: insert_wrapup_def update_wrapup_def insert_version_def wrapup_table.insert_Inr wrapup_table.update_Inr
      version_table.insert_Inr delete_wrapup_row_def delete_version_row_def tx_modify_def store_ok_texts)+

lemma store_ok_wrapup_ops:
  "preserves store_ok (wrapup_create i body author)" "preserves store_ok (wrapup_replace before body author)"
  "preserves store_ok (keep_version w head)"
  unfolding wrapup_create_def wrapup_replace_def update_if_changed_def keep_version_def append_version_def trim_versions_def Let_def
  by (intro preserves_intro store_ok_ctx store_ok_wrapup_rows)+

lemma store_ok_wrapup_write: "preserves store_ok (wrapup_write_in t body author head)"
  unfolding wrapup_write_in_def Let_def
  by (intro preserves_intro store_ok_ctx store_ok_wrapup_ops store_ok_by_review frame_review_ops)

lemma wrapup_call_ok: "wrapup_call s t \<Longrightarrow> store_ok s \<Longrightarrow> store_ok t"
  by (induction rule: wrapup_call.induct)
    (auto simp: wrapup_write_at_def wrapup_write_anchored_def wrapup_delete_def
      intro!: store_ok_write preserves_intro store_ok_ctx store_ok_wrapup_write store_ok_wrapup_rows)

lemma authoring_call_ok: "authoring_call s t \<Longrightarrow> store_ok s \<Longrightarrow> store_ok t"
  by (induction rule: authoring_call.induct)
    (auto simp: task_create_def epic_join_def intro!: store_ok_write store_ok_create store_ok_join split: sum.split)

lemma store_ok_note_rows:
  "preserves store_ok (insert_document d)" "preserves store_ok (update_document d)" "preserves store_ok (insert_document_task l)"
  by (rule preservesI, auto simp: insert_document_def update_document_def document_table.insert_Inr document_table.update_Inr
      insert_document_task_def store_ok_texts split: if_splits)+

lemma note_call_ok: "note_call s t \<Longrightarrow> store_ok s \<Longrightarrow> store_ok t"
proof (induction rule: note_call.induct)
  case (1 s u pl label title body on_clash)
  have "preserves store_ok (note_write_in u pl label title body on_clash)"
    unfolding note_write_in_def note_rewrite_def note_add_def update_if_changed_def Let_def
    by (intro preserves_intro store_ok_ctx store_ok_note_rows)
  then show ?case using 1 by (simp add: note_write_def store_ok_write)
qed

lemma service_call_ok: "service_call s t \<Longrightarrow> store_ok s \<Longrightarrow> store_ok t"
  unfolding service_call_def
  by (elim disjE) (erule (1) checklist_call_ok flow_call_ok timer_call_ok review_call_ok dependency_call_ok wrapup_call_ok authoring_call_ok
      note_call_ok feedback_call_store console_queue_call_ok runner_call_ok)+

text \<open>Sequences of calls: the invariant by rule induction over the closure of the step relation.\<close>

lemma calls_ok: "service_call\<^sup>*\<^sup>* s t \<Longrightarrow> store_ok s \<Longrightarrow> store_ok t"
  by (induction rule: rtranclp_induct) (auto intro: service_call_ok)

section \<open>What the invariant says of listings\<close>

lemma sorted_dense:
  assumes "sorted ps" "mset ps = mset (map int [0..<n])"
  shows "ps = map int [0..<n]"
  using assms properties_for_sort [of ps "map int [0..<n]"] sorted_sort_id [of "map int [0..<n]"]
  by (simp add: sorted_map sorted_wrt_upt sorted_wrt_iff_nth_less)

lemma checklist_listing:
  assumes "dense i s" "length (steps_of i s) \<le> 2 ^ 31"
  shows "map ts_position (steps_of i s) = map int [0..<length (steps_of i s)]"
  using assms by (intro sorted_dense) (simp_all add: steps_of_def dense_def positions_of_def)

lemma queue_listing:
  assumes "queue_dense s" "length (items_in_order s) \<le> 2 ^ 31"
  shows "map qi_position (items_in_order s) = map int [0..<length (items_in_order s)]"
  using assms by (intro sorted_dense) (simp_all add: items_in_order_def queue_dense_def)

lemma one_running:
  assumes "timers_ok s"
  shows "length (filter (\<lambda>e. te_task_id e = i \<and> te_stopped_at e = None) (time_entries s)) \<le> 1" (is "length ?es \<le> 1")
proof -
  have "distinct (time_entries s)" using assms by (auto simp: timers_ok_def dest: distinct_map [THEN iffD1])
  then have "length ?es = card (set ?es)" by (intro distinct_card [symmetric] distinct_filter)
  also have "\<dots> \<le> Suc 0" using assms by (intro card_le_Suc0_iff_eq [THEN iffD2]) (auto simp: timers_ok_def)
  finally show ?thesis by simp
qed

end
