(* ===== verification/Procs.thy ===== *)
theory Procs
  imports Services
begin

section \<open>Code outside a transaction\<close>

text \<open>
  The queue's worker and the worktree service run many transactions one after the other and call out to terminals,
  to git and to the file system in between. Such code is \<open>('w, 'a) proc\<close>: it answers a value or fails, and in
  both cases leaves a world behind, since what was committed or done outside stays done. \<open>p_bind\<close> is Rust's
  \<^verbatim>\<open>?\<close> followed by the rest.

  The world holds the committed database, the state \<open>'h\<close> of everything outside Rekall, and what other clients
  commit meanwhile: before each of the procedure's own transactions the next function of the stream \<open>w_others\<close>
  is applied to the database. Nothing is assumed of the stream but what a theorem says.
\<close>

type_synonym ('w, 'a) proc = "'w \<Rightarrow> 'a result \<times> 'w"

definition p_ok :: "'a \<Rightarrow> ('w, 'a) proc" where
  "p_ok x = (\<lambda>w. (Inr x, w))"

definition p_fail :: "rekall_error \<Rightarrow> ('w, 'a) proc" where
  "p_fail e = (\<lambda>w. (Inl e, w))"

definition p_lift :: "'a result \<Rightarrow> ('w, 'a) proc" where
  "p_lift r = (\<lambda>w. (r, w))"

definition p_bind :: "('w, 'a) proc \<Rightarrow> ('a \<Rightarrow> ('w, 'b) proc) \<Rightarrow> ('w, 'b) proc" where
  "p_bind m f = (\<lambda>w. case m w of (Inl e, w') \<Rightarrow> (Inl e, w') | (Inr x, w') \<Rightarrow> f x w')"

text \<open>A result looked at instead of passed on, a read of the world, a change to it.\<close>

definition p_try :: "('w, 'a) proc \<Rightarrow> ('w, 'a result) proc" where
  "p_try m = (\<lambda>w. case m w of (r, w') \<Rightarrow> (Inr r, w'))"

definition p_gets :: "('w \<Rightarrow> 'a) \<Rightarrow> ('w, 'a) proc" where
  "p_gets f = (\<lambda>w. (Inr (f w), w))"

definition p_modify :: "('w \<Rightarrow> 'w) \<Rightarrow> ('w, unit) proc" where
  "p_modify f = (\<lambda>w. (Inr (), f w))"

primrec p_each :: "('a \<Rightarrow> ('w, unit) proc) \<Rightarrow> 'a list \<Rightarrow> ('w, unit) proc" where
  "p_each f [] = p_ok ()"
| "p_each f (x # xs) = p_bind (f x) (\<lambda>_. p_each f xs)"

record 'h world =
  w_db :: db
  w_host :: 'h
  w_others :: "(db \<Rightarrow> db) stream"

definition p_call :: "(db \<Rightarrow> 'a result \<times> db) \<Rightarrow> (('h, 'z) world_scheme, 'a) proc" where
  "p_call f = (\<lambda>w. case f (shd (w_others w) (w_db w)) of (r, s) \<Rightarrow> (r, w\<lparr>w_db := s, w_others := stl (w_others w)\<rparr>))"

definition p_read :: "(db \<Rightarrow> 'a result) \<Rightarrow> (('h, 'z) world_scheme, 'a) proc" where
  "p_read f = p_call (\<lambda>s. (f s, s))"

text \<open>A call that answers and may change what is outside, and a look at it.\<close>

definition p_host :: "('h \<Rightarrow> 'a result \<times> 'h) \<Rightarrow> (('h, 'z) world_scheme, 'a) proc" where
  "p_host f = (\<lambda>w. case f (w_host w) of (r, h) \<Rightarrow> (r, w\<lparr>w_host := h\<rparr>))"

definition p_look :: "('h \<Rightarrow> 'a) \<Rightarrow> (('h, 'z) world_scheme, 'a) proc" where
  "p_look f = p_gets (\<lambda>w. f (w_host w))"

text \<open>The injected clock: the moments the store's clock hands out.\<close>

definition p_now :: "(('h, 'z) world_scheme, instant) proc" where
  "p_now = p_call (\<lambda>s. (Inr (shd (clock s)), s\<lparr>clock := stl (clock s)\<rparr>))"

lemmas procs_run [run_defs] = p_ok_def p_fail_def p_lift_def p_bind_def p_try_def p_gets_def p_modify_def p_call_def p_read_def
  p_host_def p_look_def p_now_def

subsection \<open>Invariants of a world\<close>

definition keeps :: "('w \<Rightarrow> bool) \<Rightarrow> ('w, 'a) proc \<Rightarrow> bool" where
  "keeps I m \<longleftrightarrow> (\<forall>w. I w \<longrightarrow> I (snd (m w)))"

lemma p_bind_Inr: "p_bind m f w = (Inr x, w') \<longleftrightarrow> (\<exists>y v. m w = (Inr y, v) \<and> f y v = (Inr x, w'))"
  by (auto simp: p_bind_def split: prod.splits sum.splits)

named_theorems keeps_intro "structural rules of the invariant judgement on procedures"

lemma keepsI: "(\<And>w. I w \<Longrightarrow> I (snd (m w))) \<Longrightarrow> keeps I m"
  by (simp add: keeps_def)

lemma keepsD: "keeps I m \<Longrightarrow> I w \<Longrightarrow> I (snd (m w))"
  by (simp add: keeps_def)

lemma keeps_plain [keeps_intro]: "keeps I (p_ok x)" "keeps I (p_fail e)" "keeps I (p_lift r)" "keeps I (p_gets f)"
  by (simp_all add: keeps_def p_ok_def p_fail_def p_lift_def p_gets_def)

lemma keeps_look [keeps_intro]: "keeps I (p_look g)"
  by (simp add: p_look_def keeps_plain)

lemma keeps_bind [keeps_intro]: "keeps I m \<Longrightarrow> (\<And>x. keeps I (f x)) \<Longrightarrow> keeps I (p_bind m f)"
  by (fastforce simp: keeps_def p_bind_def split: prod.splits sum.splits)

lemma keeps_try [keeps_intro]: "keeps I m \<Longrightarrow> keeps I (p_try m)"
  by (auto simp: keeps_def p_try_def split: prod.splits)

lemma keeps_each [keeps_intro]: "(\<And>x. keeps I (f x)) \<Longrightarrow> keeps I (p_each f xs)"
  by (induction xs) (simp_all add: keeps_plain keeps_bind)

lemma keeps_cases [keeps_intro]:
  "keeps I m \<Longrightarrow> keeps I n \<Longrightarrow> keeps I (if b then m else n)"
  "keeps I m \<Longrightarrow> (\<And>x. keeps I (g x)) \<Longrightarrow> keeps I (case v of None \<Rightarrow> m | Some x \<Rightarrow> g x)"
  "(\<And>e. keeps I (h e)) \<Longrightarrow> (\<And>x. keeps I (g x)) \<Longrightarrow> keeps I (case r of Inl e \<Rightarrow> h e | Inr x \<Rightarrow> g x)"
  by (auto split: option.split sum.split)

subsection \<open>Triples\<close>

text \<open>
  A triple says what holds after a procedure answered and what holds after it failed, since what was committed stays
  committed either way.
\<close>

definition triple :: "('w \<Rightarrow> bool) \<Rightarrow> ('w, 'a) proc \<Rightarrow> ('w \<Rightarrow> bool) \<Rightarrow> ('w \<Rightarrow> bool) \<Rightarrow> bool" where
  "triple I m J E \<longleftrightarrow> (\<forall>w. I w \<longrightarrow> (case m w of (Inr _, w') \<Rightarrow> J w' | (Inl _, w') \<Rightarrow> E w'))"

named_theorems triple_intro "structural rules of the triples"

lemma triple_keeps: "keeps I m \<longleftrightarrow> triple I m I I"
proof -
  have "(case m w of (Inr _, w') \<Rightarrow> I w' | (Inl _, w') \<Rightarrow> I w') = I (snd (m w))" for w
    by (simp split: prod.split sum.split)
  then show ?thesis by (simp add: keeps_def triple_def)
qed

lemma triple_Inr: "triple I m J E \<Longrightarrow> I w \<Longrightarrow> m w = (Inr x, w') \<Longrightarrow> J w'"
  by (auto simp: triple_def split: prod.splits)

lemma triple_post: "keeps I m \<Longrightarrow> (\<And>w. I w \<Longrightarrow> J w) \<Longrightarrow> (\<And>w. I w \<Longrightarrow> E w) \<Longrightarrow> triple I m J E"
  by (fastforce simp: keeps_def triple_def split: prod.splits sum.splits)

lemma triple_bind: "triple I m K E \<Longrightarrow> (\<And>x. triple K (f x) J E) \<Longrightarrow> triple I (p_bind m f) J E"
  unfolding triple_def p_bind_def by (fastforce split: prod.splits sum.splits)

lemma triple_after: "keeps I m \<Longrightarrow> (\<And>w. I w \<Longrightarrow> E w) \<Longrightarrow> (\<And>x. triple I (f x) J E) \<Longrightarrow> triple I (p_bind m f) J E"
  by (rule triple_bind) (rule triple_post)

lemma triple_cases [triple_intro]:
  "triple I m J E \<Longrightarrow> triple I n J E \<Longrightarrow> triple I (if b then m else n) J E"
  "triple I m J E \<Longrightarrow> (\<And>x. triple I (g x) J E) \<Longrightarrow> triple I (case v of None \<Rightarrow> m | Some x \<Rightarrow> g x) J E"
  "(\<And>e. triple I (h e) J E) \<Longrightarrow> (\<And>x. triple I (g x) J E) \<Longrightarrow> triple I (case r of Inl e \<Rightarrow> h e | Inr x \<Rightarrow> g x) J E"
  by (auto split: option.split sum.split)

lemma bind_cong:
  assumes "\<And>x w'. m w = (Inr x, w') \<Longrightarrow> f x w' = g x w'"
  shows "p_bind m f w = p_bind m g w"
  using assms by (auto simp: p_bind_def split: prod.splits sum.splits)

subsection \<open>Invariants of a world, as an interface\<close>

text \<open>
  What an invariant of the world has to promise so that calls to the database, reads and calls to the outside keep it:
  the database a transaction starts from is well formed, and a well-formed commit and any change outside keep the
  invariant. Its instances are the store being well formed, the sessions the worker has in hand, and a count
  that only goes down.
\<close>

locale world_invariant =
  fixes I :: "('h, 'z) world_scheme \<Rightarrow> bool" and ok :: "db \<Rightarrow> bool"
  assumes stored: "I w \<Longrightarrow> ok (shd (w_others w) (w_db w))"
    and committed: "I w \<Longrightarrow> ok s \<Longrightarrow> I (w\<lparr>w_db := s, w_others := stl (w_others w)\<rparr>)"
    and outside: "I w \<Longrightarrow> I (w\<lparr>w_host := h\<rparr>)"
begin

lemma keeps_db:
  assumes "\<And>s. ok s \<Longrightarrow> ok (snd (f s))"
  shows "keeps I (p_call f)"
proof (rule keepsI)
  fix w assume "I w"
  then show "I (snd (p_call f w))"
    using assms [OF stored] committed by (simp add: p_call_def split: prod.split) (metis snd_conv)
qed

lemma keeps_reading: "keeps I (p_read f)"
  unfolding p_read_def by (rule keeps_db) simp

lemma keeps_outside: "keeps I (p_host f)"
  using outside by (auto simp: keeps_def p_host_def split: prod.splits)

end

text \<open>
  An invariant of the database that the procedure's own transactions keep, and that other clients keep,
  holds whatever happens outside.
\<close>

definition holds_with :: "(db \<Rightarrow> bool) \<Rightarrow> ('h, 'z) world_scheme \<Rightarrow> bool" where
  "holds_with P w \<longleftrightarrow> P (w_db w) \<and> (\<forall>f \<in> sset (w_others w). \<forall>s. P s \<longrightarrow> P (f s))"

lemma stl_sset': "f \<in> sset (stl st) \<Longrightarrow> f \<in> sset st"
  by (metis stl_sset)

interpretation world_db: world_invariant "holds_with P :: ('h, 'z) world_scheme \<Rightarrow> bool" P for P
proof
  fix w :: "('h, 'z) world_scheme" and s h
  assume w: "holds_with P w"
  then show "P (shd (w_others w) (w_db w))" using shd_sset by (auto simp: holds_with_def)
  show "holds_with P (w\<lparr>w_host := h\<rparr>)" using w by (simp add: holds_with_def)
  show "holds_with P (w\<lparr>w_db := s, w_others := stl (w_others w)\<rparr>)" if "P s"
    using w that by (auto simp: holds_with_def dest: stl_sset')
qed

end
