(* ===== verification/Text_Split.thy ===== *)
theory Text_Split
  imports Slug
begin

section \<open>Splitting and joining texts\<close>

text \<open>
  \<^verbatim>\<open>str::split\<close> at one character, \<^verbatim>\<open>str::strip_prefix\<close>, joining with a separator, and numbers
  in decimal: what the readers of versions, paths and command lines share.
\<close>

fun split_on :: "uchar \<Rightarrow> str \<Rightarrow> str list" where
  "split_on sep [] = [[]]"
| "split_on sep (c # cs) =
     (if c = sep then [] # split_on sep cs
      else case split_on sep cs of [] \<Rightarrow> [[c]] | w # ws \<Rightarrow> (c # w) # ws)"

fun joined :: "uchar \<Rightarrow> str list \<Rightarrow> str" where
  "joined sep [] = []"
| "joined sep [x] = x"
| "joined sep (x # y # zs) = x @ sep # joined sep (y # zs)"

definition strip_prefix :: "str \<Rightarrow> str \<Rightarrow> str option" where
  "strip_prefix mark t = (if prefix mark t then Some (drop (length mark) t) else None)"

lemma split_on_nonempty [simp]: "split_on sep t \<noteq> []"
  by (induction t) (auto split: list.splits)

lemma split_on_append: "sep \<notin> set x \<Longrightarrow> split_on sep (x @ sep # t) = x # split_on sep t"
  by (induction x) auto

lemma split_on_plain: "sep \<notin> set x \<Longrightarrow> split_on sep x = [x]"
  by (induction x) auto

lemma split_joined: "xs \<noteq> [] \<Longrightarrow> \<forall>x \<in> set xs. sep \<notin> set x \<Longrightarrow> split_on sep (joined sep xs) = xs"
  by (induction sep xs rule: joined.induct) (auto simp: split_on_append split_on_plain)

lemma joined_cons: "xs \<noteq> [] \<Longrightarrow> joined sep (x # xs) = x @ sep # joined sep xs"
  by (cases xs) auto

lemma joined_split [simp]: "joined sep (split_on sep t) = t"
proof (induction t)
  case (Cons c cs)
  then show ?case
    by (cases "split_on sep cs"; cases "tl (split_on sep cs)") (auto simp: joined_cons)
qed simp

lemma split_on_pieces: "x \<in> set (split_on sep t) \<Longrightarrow> sep \<notin> set x"
  by (induction t arbitrary: x) (auto split: list.splits if_splits)

lemma split_on_letters: "(\<exists>x \<in> set (split_on sep t). c \<in> set x) \<longleftrightarrow> c \<in> set t \<and> c \<noteq> sep"
proof (induction t)
  case (Cons d cs)
  then show ?case by (cases "split_on sep cs") (auto split: if_splits)
qed simp

lemma rust_trim_plain:
  assumes "\<forall>c \<in> set t. \<not> rust_whitespace c"
  shows "rust_trim t = t"
proof -
  have "dropWhile rust_whitespace xs = xs" if "\<forall>c \<in> set xs. \<not> rust_whitespace c" for xs
    using that by (cases xs) auto
  from this [of t] this [of "rev t"] show ?thesis
    using assms by (simp add: rust_trim_def trim_matches_def trim_end_matches_def)
qed

subsection \<open>Decimal numbers\<close>

lemma digits_value_append: "digits_value (t @ [c]) = digits_value t * 10 + (c - 48)"
  by (simp add: digits_value_def)

lemma show_nat_digits: "show_nat n \<noteq> []" "list_all ascii_digit (show_nat n)" "digits_value (show_nat n) = n"
proof (induction n rule: show_nat.induct)
  case (1 n)
  have "digits_value [48 + n] = n" by (simp add: digits_value_def)
  then show "show_nat n \<noteq> []" "list_all ascii_digit (show_nat n)" "digits_value (show_nat n) = n"
    using 1 by (auto simp: show_nat.simps [of n] digits_value_append) (auto simp: ascii_digit_def)
qed

lemma parse_show_nat: "n < 2 ^ 64 \<Longrightarrow> parse_u64 (show_nat n) = Some n"
  using show_nat_digits [of n] by (simp add: parse_u64_def)

end
