(* ===== verification/Worktrees.thy ===== *)
theory Worktrees
  imports Procs Text_Split "HOL-Library.List_Lexorder"
begin

section \<open>Worktrees of tasks\<close>

text \<open>
  \<^verbatim>\<open>rekall-core/src/worktree\<close>: where a task's git worktree lives and what its branch is called
  (\<^verbatim>\<open>rule/worktree_layout.rs\<close>), reading git's listing (\<^verbatim>\<open>rule/worktree_listing.rs\<close>), giving a task its
  worktree and taking it away (\<^verbatim>\<open>service/task_worktree_service.rs\<close>), and clearing what a crash left behind
  (\<^verbatim>\<open>service/orphan_reclaim_service.rs\<close>). git and the file system are the parameter \<open>'h worktree_host\<close>; a path is
  its text, on a system that separates with a slash.
\<close>

subsection \<open>Names and folders\<close>

definition BRANCH_PREFIX :: str where "BRANCH_PREFIX = lit ''rekall/''"

definition safe_name_char :: "uchar \<Rightarrow> bool" where
  "safe_name_char c = ((97 \<le> c \<and> c \<le> 122) \<or> ascii_digit c \<or> c \<in> {45, 95, 46})"

definition require_safe_name :: "string \<Rightarrow> str \<Rightarrow> unit result" where
  "require_safe_name what name =
     (if name = [] \<or> prefix (lit ''.'') name \<or> prefix (lit ''-'') name \<or> find_from (lit ''..'') 0 name \<noteq> None
         \<or> \<not> list_all safe_name_char name
      then Inl (IllegalArgument (Msg what [name])) else Inr ())"

text \<open>\<^verbatim>\<open>Path::join\<close>: an absolute second path replaces the first.\<close>

definition path_join :: "str \<Rightarrow> str \<Rightarrow> str" where
  "path_join a b = (if prefix (lit ''/'') b then b
     else if a = [] \<or> suffix (lit ''/'') a then a @ b else a @ lit ''/'' @ b)"

definition branch_for :: "str \<Rightarrow> str result" where
  "branch_for task_label = res_bind (require_safe_name ''task label'' task_label) (\<lambda>_. Inr (BRANCH_PREFIX @ task_label))"

definition folder_for :: "str \<Rightarrow> str \<Rightarrow> str \<Rightarrow> str result" where
  "folder_for root project_label task_label =
     res_bind (require_safe_name ''project label'' project_label) (\<lambda>_.
     res_bind (require_safe_name ''task label'' task_label) (\<lambda>_.
     Inr (path_join (path_join root project_label) task_label)))"

definition require_branch :: "str \<Rightarrow> unit result" where
  "require_branch branch_name = (case strip_prefix BRANCH_PREFIX branch_name of
       None \<Rightarrow> Inl (IllegalArgument (Msg ''is not a branch Rekall names'' [branch_name]))
     | Some task_label \<Rightarrow> require_safe_name ''branch name'' task_label)"

text \<open>
  \<^verbatim>\<open>Path::components\<close>: empty segments and a dot that is not first are skipped.
\<close>

datatype component = RootDir | CurDir | ParentDir | Normal str

definition segment_component :: "str \<Rightarrow> component option" where
  "segment_component x = (if x = [] \<or> x = lit ''.'' then None else if x = lit ''..'' then Some ParentDir else Some (Normal x))"

definition path_components :: "str \<Rightarrow> component list" where
  "path_components t = (let segments = split_on 47 t in
     (if prefix (lit ''/'') t then [RootDir] else if hd segments = lit ''.'' then [CurDir] else [])
     @ List.map_filter segment_component segments)"

definition require_folder :: "str \<Rightarrow> str \<Rightarrow> unit result" where
  "require_folder root folder =
     (if \<not> prefix (path_components root) (path_components folder)
      then Inl (IllegalArgument (Msg ''is outside the worktree folder'' [folder]))
      else let relative = drop (length (path_components root)) (path_components folder)
           in if relative = [] \<or> list_ex (\<lambda>part. case part of Normal _ \<Rightarrow> False | _ \<Rightarrow> True) relative
              then Inl (IllegalArgument (Msg ''is not a folder inside the worktree folder'' [folder])) else Inr ())"

subsection \<open>Git's listing\<close>

record worktree =
  wt_project_folder :: str
  wt_folder :: str
  wt_branch :: str

text \<open>\<^verbatim>\<open>str::lines\<close>: a line ends at a newline, with a carriage return before it dropped.\<close>

definition drop_cr :: "str \<Rightarrow> str" where
  "drop_cr l = (if suffix [13] l then butlast l else l)"

definition rust_lines :: "str \<Rightarrow> str list" where
  "rust_lines t = (let pieces = split_on 10 t
     in map drop_cr (butlast pieces) @ (if last pieces = [] then [] else [last pieces]))"

fun split_blank :: "str \<Rightarrow> str \<Rightarrow> str list" where
  "split_blank acc [] = [rev acc]"
| "split_blank acc [c] = [rev (c # acc)]"
| "split_blank acc (c # d # cs) = (if c = 10 \<and> d = 10 then rev acc # split_blank [] cs else split_blank (c # acc) (d # cs))"

definition find_marked :: "str \<Rightarrow> str list \<Rightarrow> str option" where
  "find_marked mark ls = (case List.find (prefix mark) ls of None \<Rightarrow> None | Some l \<Rightarrow> strip_prefix mark l)"

definition worktree_of :: "str \<Rightarrow> str \<Rightarrow> worktree option" where
  "worktree_of project_folder block =
     (case find_marked (lit ''worktree '') (rust_lines block) of None \<Rightarrow> None
      | Some folder \<Rightarrow> (case find_marked (lit ''branch '') (rust_lines block) of None \<Rightarrow> None
      | Some reference \<Rightarrow> (case strip_prefix (lit ''refs/heads/'') reference of None \<Rightarrow> None
      | Some branch \<Rightarrow> if prefix BRANCH_PREFIX branch
          then Some \<lparr>wt_project_folder = project_folder, wt_folder = folder, wt_branch = branch\<rparr> else None)))"

definition parse_listing :: "str \<Rightarrow> str \<Rightarrow> worktree list" where
  "parse_listing project_folder porcelain = List.map_filter (worktree_of project_folder) (split_blank [] porcelain)"

subsection \<open>The host\<close>

record worktree_status =
  ws_has_unsaved_changes :: bool
  ws_commits_ahead :: nat

record branch_review =
  br_branch :: str
  br_commits_ahead :: nat
  br_changed_files :: "str list"
  br_merges_cleanly :: "bool option"
  br_worktree_folder :: "str option"
  br_has_unsaved_changes :: bool

datatype merge_outcome = OutcomeMerged | OutcomeRefused str

record 'h worktree_host =
  wh_is_dir :: "str \<Rightarrow> 'h \<Rightarrow> bool"
  wh_create :: "str \<Rightarrow> str \<Rightarrow> str \<Rightarrow> 'h \<Rightarrow> worktree result \<times> 'h"
  wh_remove :: "worktree \<Rightarrow> 'h \<Rightarrow> unit result \<times> 'h"
  wh_list :: "str \<Rightarrow> 'h \<Rightarrow> worktree list result \<times> 'h"
  wh_status :: "worktree \<Rightarrow> 'h \<Rightarrow> worktree_status result \<times> 'h"
  wh_review_branch :: "str \<Rightarrow> str \<Rightarrow> str option \<Rightarrow> 'h \<Rightarrow> branch_review option result \<times> 'h"
  wh_merge_branch :: "str \<Rightarrow> str \<Rightarrow> 'h \<Rightarrow> merge_outcome result \<times> 'h"

datatype release = ReleaseRemoved | ReleaseKeptWithChanges | ReleaseNoWorktree

datatype merge = Merged | AlreadyMerged | MergeKeptWithChanges | Conflicts str | MergeRefused str | NothingToMerge

subsection \<open>The service\<close>

definition worktree_read_in :: "id \<Rightarrow> (task \<times> str option \<times> str) action" where
  "worktree_read_in task_id =
     tx_bind (task_or_unknown task_id) (\<lambda>t.
     tx_bind (project_of t) (\<lambda>p.
     tx_ok (t, (case pr_repo_folder p of None \<Rightarrow> None | Some folder \<Rightarrow> if is_blank folder then None else Some folder), pr_label p)))"

definition worktree_read :: "id \<Rightarrow> (('h, 'z) world_scheme, task \<times> str option \<times> str) proc" where
  "worktree_read task_id = p_read (in_read (worktree_read_in task_id))"

definition name_on_task_in :: "id \<Rightarrow> str option \<Rightarrow> unit action" where
  "name_on_task_in task_id folder =
     tx_bind (task_or_unknown task_id) (\<lambda>before.
     tx_bind (save_task before (before\<lparr>tk_worktree_folder := folder\<rparr>)) (\<lambda>_. tx_ok ()))"

definition name_on_task :: "id \<Rightarrow> str option \<Rightarrow> (('h, 'z) world_scheme, unit) proc" where
  "name_on_task task_id folder = p_call (in_write (name_on_task_in task_id folder))"

definition worktree_ensure :: "'h worktree_host \<Rightarrow> str \<Rightarrow> id \<Rightarrow> (('h, 'z) world_scheme, str) proc" where
  "worktree_ensure host root task_id =
     p_bind (worktree_read task_id) (\<lambda>(t, project_folder, project_label).
     p_bind (p_look (\<lambda>h. case tk_worktree_folder t of None \<Rightarrow> None
        | Some folder \<Rightarrow> if wh_is_dir host folder h then Some folder else None)) (\<lambda>there.
     case there of Some folder \<Rightarrow> p_ok folder
     | None \<Rightarrow> (case project_folder of
         None \<Rightarrow> p_fail (IllegalArgument (Msg ''set this project's folder on its page'' []))
       | Some pf \<Rightarrow>
         p_bind (p_lift (branch_for (tk_label t))) (\<lambda>branch.
         p_bind (p_lift (folder_for root project_label (tk_label t))) (\<lambda>folder.
         p_bind (p_host (wh_create host pf branch folder)) (\<lambda>made.
         p_bind (name_on_task task_id (Some (wt_folder made))) (\<lambda>_. p_ok (wt_folder made))))))))"

definition worktree_release :: "'h worktree_host \<Rightarrow> id \<Rightarrow> (('h, 'z) world_scheme, release) proc" where
  "worktree_release host task_id =
     p_bind (worktree_read task_id) (\<lambda>(t, project_folder, _).
     case tk_worktree_folder t of None \<Rightarrow> p_ok ReleaseNoWorktree
     | Some folder \<Rightarrow> (case project_folder of None \<Rightarrow> p_ok ReleaseNoWorktree
     | Some pf \<Rightarrow>
       p_bind (p_lift (branch_for (tk_label t))) (\<lambda>branch.
       let wt = \<lparr>wt_project_folder = pf, wt_folder = folder, wt_branch = branch\<rparr> in
       p_bind (p_look (wh_is_dir host folder)) (\<lambda>there.
       p_bind (if there then p_bind (p_host (wh_status host wt)) (\<lambda>status.
                 if ws_has_unsaved_changes status then p_ok False
                 else p_bind (p_host (wh_remove host wt)) (\<lambda>_. p_ok True))
               else p_ok True) (\<lambda>gone.
       if \<not> gone then p_ok ReleaseKeptWithChanges
       else p_bind (name_on_task task_id None) (\<lambda>_. p_ok ReleaseRemoved))))))"

definition worktree_review_branch :: "'h worktree_host \<Rightarrow> id \<Rightarrow> (('h, 'z) world_scheme, branch_review option) proc" where
  "worktree_review_branch host task_id =
     p_bind (worktree_read task_id) (\<lambda>(t, project_folder, _).
     case project_folder of None \<Rightarrow> p_ok None
     | Some pf \<Rightarrow>
       p_bind (p_lift (branch_for (tk_label t))) (\<lambda>branch.
       p_bind (p_look (\<lambda>h. case tk_worktree_folder t of None \<Rightarrow> None
          | Some folder \<Rightarrow> if wh_is_dir host folder h then Some folder else None)) (\<lambda>wt.
       p_host (wh_review_branch host pf branch wt))))"

definition merge_accepted :: "'h worktree_host \<Rightarrow> id \<Rightarrow> (('h, 'z) world_scheme, merge) proc" where
  "merge_accepted host task_id =
     p_bind (worktree_review_branch host task_id) (\<lambda>found. case found of
       None \<Rightarrow> p_ok NothingToMerge
     | Some review \<Rightarrow>
       if br_has_unsaved_changes review then p_ok MergeKeptWithChanges
       else if br_commits_ahead review = 0 then p_ok AlreadyMerged
       else if br_merges_cleanly review = Some False
       then p_ok (Conflicts (br_branch review @ lit '' conflicts with the project's current branch''))
       else p_bind (worktree_read task_id) (\<lambda>(_, project_folder, _).
         case project_folder of None \<Rightarrow> p_ok NothingToMerge
         | Some pf \<Rightarrow>
           p_bind (p_host (wh_merge_branch host pf (br_branch review))) (\<lambda>outcome. case outcome of
             OutcomeMerged \<Rightarrow> p_ok Merged
           | OutcomeRefused reason \<Rightarrow> p_ok (MergeRefused reason))))"

subsection \<open>After a restart\<close>

definition tasks_with_worktree :: "db \<Rightarrow> task list" where
  "tasks_with_worktree s = sort_key tk_label (filter (\<lambda>t. tk_worktree_folder t \<noteq> None) (tasks s))"

definition forget_missing_folders :: "'h worktree_host \<Rightarrow> (('h, 'z) world_scheme, unit) proc" where
  "forget_missing_folders host =
     p_bind (p_read (\<lambda>s. Inr (tasks_with_worktree s))) (\<lambda>attached.
     p_each (\<lambda>t. p_bind (p_look (\<lambda>h. case tk_worktree_folder t of None \<Rightarrow> False | Some folder \<Rightarrow> wh_is_dir host folder h)) (\<lambda>there.
       if there then p_ok () else name_on_task (tk_id t) None)) attached)"

record orphan_report =
  or_removed :: "worktree list"
  or_kept_with_changes :: "worktree list"

primrec reclaim_each :: "'h worktree_host \<Rightarrow> str set \<Rightarrow> orphan_report \<Rightarrow> worktree list \<Rightarrow> (('h, 'z) world_scheme, orphan_report) proc" where
  "reclaim_each host active_branches report [] = p_ok report"
| "reclaim_each host active_branches report (wt # rest) =
     (if wt_branch wt \<in> active_branches then reclaim_each host active_branches report rest
      else p_bind (p_host (wh_status host wt)) (\<lambda>status.
        if ws_has_unsaved_changes status
        then reclaim_each host active_branches (report\<lparr>or_kept_with_changes := or_kept_with_changes report @ [wt]\<rparr>) rest
        else p_bind (p_host (wh_remove host wt)) (\<lambda>_.
          reclaim_each host active_branches (report\<lparr>or_removed := or_removed report @ [wt]\<rparr>) rest)))"

definition reclaim_orphans :: "'h worktree_host \<Rightarrow> str \<Rightarrow> str set \<Rightarrow> (('h, 'z) world_scheme, orphan_report) proc" where
  "reclaim_orphans host project_folder active_branches =
     p_bind (p_host (wh_list host project_folder)) (\<lambda>listed.
     reclaim_each host active_branches \<lparr>or_removed = [], or_kept_with_changes = []\<rparr> listed)"

definition worktree_reconcile :: "'h worktree_host \<Rightarrow> (('h, 'z) world_scheme, unit) proc" where
  "worktree_reconcile host =
     p_bind (forget_missing_folders host) (\<lambda>_.
     p_bind (p_read (\<lambda>s. Inr (projects_oldest_first s, tasks_with_worktree s))) (\<lambda>(all_projects, named_tasks).
     p_each (\<lambda>p. case pr_repo_folder p of None \<Rightarrow> p_ok ()
       | Some folder \<Rightarrow> if is_blank folder then p_ok ()
         else let named = set (List.map_filter (\<lambda>t. case branch_for (tk_label t) of Inr b \<Rightarrow> Some b | Inl _ \<Rightarrow> None)
                          (filter (\<lambda>t. tk_project_id t = pr_id p) named_tasks))
              in p_bind (p_try (reclaim_orphans host (strip folder) named)) (\<lambda>_. p_ok ())) all_projects))"

lemmas worktrees_run [run_defs] = BRANCH_PREFIX_def safe_name_char_def require_safe_name_def path_join_def branch_for_def folder_for_def
  require_branch_def segment_component_def path_components_def require_folder_def worktree_read_in_def worktree_read_def
  name_on_task_in_def name_on_task_def worktree_ensure_def worktree_release_def worktree_review_branch_def merge_accepted_def

section \<open>Names and folders stay inside the layout\<close>

lemma require_safe_name_Inr:
  "require_safe_name what name = Inr u \<longleftrightarrow> name \<noteq> [] \<and> hd name \<noteq> 46 \<and> hd name \<noteq> 45 \<and> find_from (lit ''..'') 0 name = None
     \<and> list_all safe_name_char name"
  by (cases name) (auto simp: require_safe_name_def)

lemma safe_name_segment:
  assumes "require_safe_name what name = Inr u"
  shows "split_on 47 name = [name]" "segment_component name = Some (Normal name)" "\<not> prefix (lit ''/'') name"
proof -
  have name: "name \<noteq> []" "hd name \<noteq> 46" "list_all safe_name_char name" using assms by (simp_all add: require_safe_name_Inr)
  have "\<not> safe_name_char 47" by (simp add: safe_name_char_def ascii_digit_def)
  then have "47 \<notin> set name" using name(3) by (auto simp: list_all_iff)
  then show "split_on 47 name = [name]" "\<not> prefix (lit ''/'') name" using name(1) by (auto simp: split_on_plain prefix_def)
  show "segment_component name = Some (Normal name)" using name(1,2) by (auto simp: segment_component_def)
qed

lemma split_on_end: "split_on sep (t @ [sep]) = split_on sep t @ [[]]"
  by (induction t) (auto split: list.splits)

lemma split_on_join: "sep \<notin> set x \<Longrightarrow> split_on sep (t @ sep # x) = split_on sep t @ [x]"
  by (induction t) (auto simp: split_on_plain split: list.splits)

lemma components_join:
  assumes "require_safe_name what name = Inr u" "root \<noteq> []"
  shows "path_components (path_join root name) = path_components root @ [Normal name]"
proof -
  note name = safe_name_segment [OF assms(1)]
  have plain: "47 \<notin> set name" using split_on_pieces [of name 47 name] name(1) by simp
  have one: "List.map_filter segment_component [name] = [Normal name]" "List.map_filter segment_component [[]] = []"
    using name(2) by (simp_all add: List.map_filter_def segment_component_def)
  obtain ps where ps: "split_on 47 (path_join root name) = ps @ [name]" "ps \<noteq> []"
    "split_on 47 root = ps \<or> split_on 47 root = ps @ [[]]" "path_join root name = root @ name \<or> path_join root name = root @ 47 # name"
  proof (cases "suffix (lit ''/'') root")
    case True
    then obtain t where t: "root = t @ [47]" by (auto simp: suffix_def)
    have join: "path_join root name = t @ 47 # name" using True name(3) by (simp add: path_join_def t)
    show thesis
      by (rule that [of "split_on 47 t"]) (simp_all add: join [unfolded t] t split_on_join [OF plain] split_on_end)
  next
    case False
    then have join: "path_join root name = root @ 47 # name" using name(3) assms(2) by (simp add: path_join_def)
    show thesis by (rule that [of "split_on 47 root"]) (simp_all add: join split_on_join [OF plain])
  qed
  have "List.map_filter segment_component (split_on 47 (path_join root name)) = List.map_filter segment_component (split_on 47 root) @ [Normal name]"
    using ps(1,3) one by (auto simp: map_filter_append)
  moreover have "hd (split_on 47 (path_join root name)) = hd (split_on 47 root)" using ps(1-3) by auto
  moreover have "prefix (lit ''/'') (path_join root name) = prefix (lit ''/'') root" using ps(4) assms(2) by (cases root) auto
  ultimately show ?thesis by (simp add: path_components_def Let_def)
qed

lemma path_join_nonempty: "root \<noteq> [] \<Longrightarrow> path_join root name \<noteq> []"
  by (auto simp: path_join_def prefix_def)

text \<open>
  C20. The layout accepts what it names: a branch named for a task is a branch the layout accepts, a folder named for
  a project and a task lies properly inside the root, two folders below it and nothing climbing, and
  different labels never share a branch or a folder.
\<close>

theorem layout_sound:
  assumes "branch_for t = Inr branch" "folder_for root p t = Inr folder" "root \<noteq> []"
  shows "require_branch branch = Inr () \<and> require_folder root folder = Inr ()
    \<and> path_components folder = path_components root @ [Normal p, Normal t]
    \<and> (\<forall>p' t'. folder_for root p' t' = Inr folder \<longrightarrow> p' = p \<and> t' = t) \<and> (\<forall>t'. branch_for t' = Inr branch \<longrightarrow> t' = t)"
proof -
  have two: "path_components (path_join (path_join root a) b) = path_components root @ [Normal a, Normal b]"
    if "folder_for root a b = Inr x" for a b x
    using that assms(3) components_join [of "''project label''" a "()" root] components_join [of "''task label''" b "()" "path_join root a"]
    by (auto simp: folder_for_def res_bind_Inr path_join_nonempty)
  have folder: "folder = path_join (path_join root p) t" using assms(2) by (auto simp: folder_for_def res_bind_Inr)
  have components: "path_components folder = path_components root @ [Normal p, Normal t]" using two [OF assms(2)] folder by simp
  have "require_branch branch = Inr ()" "\<forall>t'. branch_for t' = Inr branch \<longrightarrow> t' = t"
    using assms(1) by (auto simp: branch_for_def require_branch_def strip_prefix_def BRANCH_PREFIX_def res_bind_Inr require_safe_name_Inr)
  moreover have "require_folder root folder = Inr ()" by (simp add: require_folder_def components)
  moreover have "p' = p \<and> t' = t" if "folder_for root p' t' = Inr folder" for p' t'
    using two [OF that] that components by (auto simp: folder_for_def res_bind_Inr)
  ultimately show ?thesis using components by blast
qed

theorem layout_sound_witness: "require_folder (lit ''/w'') (lit ''/w/rekall/fix-1'') = Inr ()"
proof -
  have "branch_for (lit ''fix-1'') = Inr (lit ''rekall/fix-1'')" "folder_for (lit ''/w'') (lit ''rekall'') (lit ''fix-1'') = Inr (lit ''/w/rekall/fix-1'')"
    by (simp_all add: run_defs suffix_def)
  from layout_sound [OF this] show ?thesis by simp
qed

section \<open>A worktree with unsaved work is never taken away\<close>

lemma worktree_release_runs:
  assumes "worktree_read i w = (Inr (t, Some pf, label), w')" "tk_worktree_folder t = Some folder" "branch_for (tk_label t) = Inr branch"
    and "wh_is_dir host folder (w_host w')"
    and "wh_status host \<lparr>wt_project_folder = pf, wt_folder = folder, wt_branch = branch\<rparr> (w_host w') = (Inr status, h)"
    and "ws_has_unsaved_changes status"
  shows "worktree_release host i w = (Inr ReleaseKeptWithChanges, w'\<lparr>w_host := h\<rparr>)"
  using assms by (simp add: worktree_release_def p_bind_def p_lift_def p_look_def p_gets_def p_host_def p_ok_def Let_def)

text \<open>
  C19. Unsaved work is kept: when the task's worktree is there and git says it has unsaved changes, releasing it
  answers that it was kept, asks git for nothing but that status, and writes nothing of its own to the database.
\<close>

theorem release_keeps_changes:
  assumes "in_read (worktree_read_in i) (shd (w_others w) (w_db w)) = Inr (t, Some pf, label)"
    and "tk_worktree_folder t = Some folder" "branch_for (tk_label t) = Inr branch" "wh_is_dir host folder (w_host w)"
    and "wh_status host \<lparr>wt_project_folder = pf, wt_folder = folder, wt_branch = branch\<rparr> (w_host w) = (Inr status, h)"
    and "ws_has_unsaved_changes status"
  shows "worktree_release host i w = (Inr ReleaseKeptWithChanges,
     w\<lparr>w_db := shd (w_others w) (w_db w), w_others := stl (w_others w), w_host := h\<rparr>)"
proof -
  have "worktree_read i w = (Inr (t, Some pf, label), w\<lparr>w_db := shd (w_others w) (w_db w), w_others := stl (w_others w)\<rparr>)"
    using assms(1) by (simp add: worktree_read_def p_read_def p_call_def)
  from worktree_release_runs [OF this assms(2,3)] show ?thesis using assms(4-6) by simp
qed

text \<open>A host on which every folder is there and holds unsaved changes.\<close>

definition dirty_host :: "unit worktree_host" where
  "dirty_host = \<lparr>wh_is_dir = (\<lambda>_ _. True), wh_create = (\<lambda>_ _ _ h. (Inl (Internal (Msg ''no git'' [])), h)),
     wh_remove = (\<lambda>_ h. (Inr (), h)), wh_list = (\<lambda>_ h. (Inr [], h)),
     wh_status = (\<lambda>_ h. (Inr \<lparr>ws_has_unsaved_changes = True, ws_commits_ahead = 0\<rparr>, h)),
     wh_review_branch = (\<lambda>_ _ _ h. (Inr None, h)), wh_merge_branch = (\<lambda>_ _ h. (Inr OutcomeMerged, h))\<rparr>"

definition tracked_world :: "unit world" where
  "tracked_world = \<lparr>w_db = sample_db\<lparr>projects := [sample_project\<lparr>pr_repo_folder := Some (lit ''/r'')\<rparr>],
     tasks := [sample_task\<lparr>tk_worktree_folder := Some (lit ''/w/p/t'')\<rparr>]\<rparr>, w_host = (), w_others = sconst (\<lambda>s. s)\<rparr>"

theorem release_keeps_changes_witness: "fst (worktree_release dirty_host 2 tracked_world) = Inr ReleaseKeptWithChanges"
proof -
  let ?p = "sample_project\<lparr>pr_repo_folder := Some (lit ''/r'')\<rparr>" and ?t = "sample_task\<lparr>tk_worktree_folder := Some (lit ''/w/p/t'')\<rparr>"
  have "in_read (worktree_read_in 2) (shd (w_others tracked_world) (w_db tracked_world)) = Inr (?t, Some (lit ''/r''), lit ''p'')"
    by (simp add: tracked_world_def in_read_def run_defs)
  moreover have "branch_for (tk_label ?t) = Inr (lit ''rekall/t'')" by (simp add: run_defs)
  ultimately show ?thesis
    using release_keeps_changes [of 2 tracked_world ?t "lit ''/r''" "lit ''p''" "lit ''/w/p/t''" "lit ''rekall/t''" dirty_host
        "\<lparr>ws_has_unsaved_changes = True, ws_commits_ahead = 0\<rparr>" "()"]
    by (simp add: dirty_host_def)
qed

section \<open>The store stays well formed\<close>

lemma frame_name_on_task: "preserves (review_frame base) (name_on_task_in i folder)"
proof (rule preserves_wpI)
  fix s assume frame: "review_frame base s"
  have "wp (save_task before (before\<lparr>tk_worktree_folder := folder\<rparr>)) (\<lambda>_. review_frame base) s"
    if before: "before \<in> set (tasks s)" for before
  proof (rule wpI)
    fix x t assume run: "save_task before (before\<lparr>tk_worktree_folder := folder\<rparr>) s = Inr (x, t)"
    have d: "distinct (map tk_id (tasks s))" and row: "task_moments_ok before" "task_validate before = Inr ()"
      using frame before by (auto simp: review_frame_def tasks_ok_def)
    obtain u where x: "x = before\<lparr>tk_worktree_folder := folder, tk_updated_at := u\<rparr>"
      and t: "t = s\<lparr>tasks := replace_row tk_id x (tasks s), clock := stl (clock s)\<rparr>"
      using save_task_Inr [OF run d before] by auto
    have "task_moments_ok x" "task_validate x = Inr ()"
      using row by (simp_all add: x task_moments_ok_def task_validate_def cong: task_step_state.case_cong)
    then show "review_frame base t" unfolding t
      by (intro review_frame_save [OF frame before]) (simp_all add: x)
  qed
  then show "wp (name_on_task_in i folder) (\<lambda>_. review_frame base) s"
    using frame unfolding name_on_task_in_def by (auto simp: wp_simps wp_tx_ok dest!: find_task_Some elim!: wp_mono)
qed

lemma store_ok_name_on_task: "store_ok s \<Longrightarrow> store_ok (snd (in_write (name_on_task_in i folder) s))"
  by (intro store_ok_write store_ok_by_review frame_name_on_task)

context world_invariant
begin

lemma keeps_naming:
  assumes "\<And>s. ok s \<Longrightarrow> ok (snd (in_write (name_on_task_in i folder) s))"
  shows "keeps I (name_on_task i folder)"
  unfolding name_on_task_def using assms by (rule keeps_db)

lemma keeps_ensure:
  assumes "\<And>s i folder. ok s \<Longrightarrow> ok (snd (in_write (name_on_task_in i folder) s))"
  shows "keeps I (worktree_ensure host root i)"
  unfolding worktree_ensure_def worktree_read_def
  by (intro keeps_intro keeps_reading keeps_outside keeps_naming assms | clarsimp split: prod.split)+

lemma keeps_reclaim_each: "keeps I (reclaim_each host branches report listed)"
  by (induction listed arbitrary: report) (auto intro!: keeps_intro keeps_outside)

lemma keeps_reconcile:
  assumes "\<And>s i folder. ok s \<Longrightarrow> ok (snd (in_write (name_on_task_in i folder) s))"
  shows "keeps I (worktree_reconcile host)"
  unfolding worktree_reconcile_def forget_missing_folders_def reclaim_orphans_def Let_def
  by (intro keeps_intro keeps_reading keeps_outside keeps_naming keeps_reclaim_each assms | clarsimp split: prod.split)+

end

end
