(* ===== verification/Usage_Ceiling.thy ===== *)
theory Usage_Ceiling
  imports Complex_Main Text_Split Samples
begin

section \<open>The usage cap\<close>

text \<open>
  \<^verbatim>\<open>rekall-infra/src/queue/usage_ceiling.rs\<close>: whether the queue may start something new, from a reading of
  the usage windows. A percentage is a finite \<^verbatim>\<open>f64\<close>, kept as the rational number it is; comparing it with the cap
  is exact. Moments are microseconds.
\<close>

datatype severity = SeverityNormal | SeverityWarning | SeverityCritical

record limit =
  li_key :: str
  li_label :: str
  li_percent :: rat
  li_severity :: severity
  li_resets_at :: "instant option"

datatype usage_status = UsageOk | Unauthenticated | RateLimited | Unavailable

record claude_usage_view =
  cu_status :: usage_status
  cu_limits :: "limit list"
  cu_fetched_at :: instant
  cu_retry_at :: "instant option"

definition RESET_GRACE :: int where "RESET_GRACE = 60 * 1000000"
definition NO_RESET_RECHECK :: int where "NO_RESET_RECHECK = 15 * 60 * 1000000"
definition UNREADABLE_RECHECK :: int where "UNREADABLE_RECHECK = 5 * 60 * 1000000"

definition ALWAYS :: "str list" where "ALWAYS = [lit ''session'', lit ''weekly_all'']"

record verdict =
  vd_clear :: bool
  vd_resume_at :: "instant option"
  vd_reason :: "str option"

definition verdict_go :: verdict where
  "verdict_go = \<lparr>vd_clear = True, vd_resume_at = None, vd_reason = None\<rparr>"

definition verdict_hold :: "instant \<Rightarrow> str \<Rightarrow> verdict" where
  "verdict_hold resume_at reason = \<lparr>vd_clear = False, vd_resume_at = Some resume_at, vd_reason = Some reason\<rparr>"

definition round_half_up :: "rat \<Rightarrow> int" where
  "round_half_up value = \<lfloor>value + 1 / 2\<rfloor>"

definition show_int :: "int \<Rightarrow> str" where
  "show_int i = (if i < 0 then lit ''-'' @ show_nat (nat (- i)) else show_nat (nat i))"

definition counts :: "str \<Rightarrow> str option \<Rightarrow> bool" where
  "counts window_key model =
     (window_key \<in> set ALWAYS \<or> (case model of None \<Rightarrow> False | Some m \<Rightarrow> window_key = lit ''weekly_'' @ m))"

text \<open>The first of equal maxima, so the reason names the window listed first.\<close>

fun worst_of :: "limit \<Rightarrow> limit list \<Rightarrow> limit" where
  "worst_of worst [] = worst"
| "worst_of worst (l # ls) = worst_of (if li_percent l > li_percent worst then l else worst) ls"

definition windows_over :: "int \<Rightarrow> str option \<Rightarrow> limit list \<Rightarrow> limit list" where
  "windows_over cap model limits = filter (\<lambda>l. of_int cap \<le> li_percent l) (filter (\<lambda>l. counts (li_key l) model) limits)"

definition over_reason :: "int \<Rightarrow> limit list \<Rightarrow> str" where
  "over_reason cap over = (let worst = worst_of (hd over) (tl over)
     in li_label worst @ lit '' is at '' @ show_int (round_half_up (li_percent worst))
        @ lit ''%, at or over the '' @ show_int cap @ lit ''% ceiling.'')"

definition hold_over :: "int \<Rightarrow> instant \<Rightarrow> limit list \<Rightarrow> verdict" where
  "hold_over cap now over =
     (if list_ex (\<lambda>l. li_resets_at l = None) over then verdict_hold (now + NO_RESET_RECHECK) (over_reason cap over)
      else let resume_at = Max (set (List.map_filter li_resets_at over)) + RESET_GRACE
           in verdict_hold (if resume_at > now then resume_at else now + RESET_GRACE) (over_reason cap over))"

definition usage_check :: "claude_usage_view option \<Rightarrow> int option \<Rightarrow> str option \<Rightarrow> instant \<Rightarrow> verdict" where
  "usage_check usage ceiling_percent model now = (case ceiling_percent of
       None \<Rightarrow> verdict_go
     | Some cap \<Rightarrow>
       (case (case usage of None \<Rightarrow> None
              | Some u \<Rightarrow> if cu_status u = UsageOk \<and> cu_limits u \<noteq> [] then Some u else None) of
          None \<Rightarrow> verdict_hold (now + UNREADABLE_RECHECK)
            (lit ''Claude usage can't be read, so the '' @ show_int cap @ lit ''% ceiling can't be checked.'')
        | Some u \<Rightarrow> (let over = windows_over cap model (cu_limits u)
                      in if over = [] then verdict_go else hold_over cap now over)))"

lemmas usage_run [run_defs] = RESET_GRACE_def NO_RESET_RECHECK_def UNREADABLE_RECHECK_def ALWAYS_def verdict_go_def verdict_hold_def
  round_half_up_def show_int_def counts_def usage_check_def windows_over_def hold_over_def over_reason_def

lemma windows_over_iff: "l \<in> set (windows_over cap model limits) \<longleftrightarrow> l \<in> set limits \<and> counts (li_key l) model \<and> of_int cap \<le> li_percent l"
  by (auto simp: windows_over_def)

lemma hold_over_later:
  "\<exists>until reason. hold_over cap now over = verdict_hold until reason \<and> now < until
     \<and> ((\<forall>l \<in> set over. li_resets_at l \<noteq> None) \<longrightarrow> (\<forall>l \<in> set over. \<forall>r. li_resets_at l = Some r \<longrightarrow> r < until))"
proof (cases "list_ex (\<lambda>l. li_resets_at l = None) over")
  case True
  then have "\<exists>l \<in> set over. li_resets_at l = None" by (simp add: list_ex_iff)
  then show ?thesis using True by (intro exI [of _ "now + NO_RESET_RECHECK"] exI [of _ "over_reason cap over"])
      (auto simp: hold_over_def NO_RESET_RECHECK_def)
next
  case False
  let ?m = "Max (set (List.map_filter li_resets_at over))"
  have "r < ?m + RESET_GRACE" if "l \<in> set over" "li_resets_at l = Some r" for l r
  proof -
    have "r \<in> set (List.map_filter li_resets_at over)" using that by (force simp: List.map_filter_def)
    then have "r \<le> ?m" by (intro Max_ge) simp_all
    then show ?thesis by (simp add: RESET_GRACE_def)
  qed
  moreover have "r < now + RESET_GRACE" if "\<not> now < ?m + RESET_GRACE" "l \<in> set over" "li_resets_at l = Some r" for l r
    using that calculation [OF that(2,3)] by (simp add: RESET_GRACE_def)
  ultimately show ?thesis
    using False by (intro exI [of _ "if now < ?m + RESET_GRACE then ?m + RESET_GRACE else now + RESET_GRACE"] exI [of _ "over_reason cap over"])
      (auto simp: hold_over_def Let_def RESET_GRACE_def)
qed



end
