(* ===== verification/Queue_Worker.thy ===== *)
theory Queue_Worker
  imports Worktrees Usage_Ceiling
begin

section \<open>The queue's worker\<close>

text \<open>
  \<^verbatim>\<open>rekall-infra/src/queue/run_queue_worker.rs\<close>: the decisions of the task that works through the run
  queue. The worker keeps which sessions it has open, which items it passed over, and the number of the last
  session; everything else is in the database. Terminals, usage readings and worktrees are the parameter
  \<open>'h worker_parts\<close>. A command sent for after the grace is queued in \<open>wk_commands\<close>; an answer to the console is
  kept in \<open>wk_replies\<close>. A failed decision is logged and forgotten: \<open>guarded\<close> drops its error and keeps its effects.

  The loop that fills the free places follows at most \<open>wp_rounds\<close> rounds and then fails; \<open>advance_ends\<close>
  shows how many are enough.
\<close>

subsection \<open>What the worker decides with\<close>

text \<open>The columns of a session the worker reads.\<close>

record terminal_view =
  tv_id :: id
  tv_live :: bool
  tv_awaiting_permission :: bool
  tv_started_at :: instant

datatype terminal_target = TargetTask id | TargetProject id

text \<open>Every opening of the worker is one to work on a task's steps.\<close>

record terminal_opening =
  to_target :: terminal_target
  to_step_id :: "id option"
  to_skip_permissions :: bool
  to_model :: "str option"
  to_effort :: "str option"
  to_kind :: session_kind

record 'h worker_parts =
  wp_worktrees :: "'h worktree_host"
  wp_root :: str
  wp_open :: "terminal_opening \<Rightarrow> 'h \<Rightarrow> terminal_view result \<times> 'h"
  wp_get :: "id \<Rightarrow> 'h \<Rightarrow> terminal_view option"
  wp_close :: "id \<Rightarrow> str \<Rightarrow> 'h \<Rightarrow> 'h"
  wp_has_live_for :: "id \<Rightarrow> 'h \<Rightarrow> bool"
  wp_renew :: "id \<Rightarrow> 'h \<Rightarrow> terminal_view result \<times> 'h"
  wp_usage_current :: "'h \<Rightarrow> claude_usage_view \<times> 'h"
  wp_usage_refresh :: "'h \<Rightarrow> 'h"
  wp_wording :: "message \<Rightarrow> str"
  wp_rounds :: nat

record active =
  ac_generation :: nat
  ac_item_id :: id
  ac_task_id :: id
  ac_terminal_id :: id
  ac_settled_steps :: nat
  ac_waiting_for_permission :: bool
  ac_closing :: bool

datatype command = Tick | Review id | SessionEnded id | Settle nat run_queue_item_state str | Renew nat
  | Pause nat verdict | Stop | Shutdown

record 'h worker = "'h world" +
  wk_active :: "active list"
  wk_parked :: "id set"
  wk_generation :: nat
  wk_commands :: "command list"
  wk_replies :: "run_queue_view result list"

subsection \<open>The sessions in hand\<close>

definition places :: "snapshot \<Rightarrow> nat" where
  "places sn = (if sn_parallel_sessions sn < 0 then 1 else max 1 (nat (sn_parallel_sessions sn)))"

definition WAITING_FOR_PERMISSION :: str where
  "WAITING_FOR_PERMISSION = lit ''Waiting for you to answer a permission prompt in the chat session.''"

definition nothing_open :: "task_work \<Rightarrow> str" where
  "nothing_open work = (if tw_flow_ended work then lit ''Nothing to run: the flow already reached its end.''
     else if tw_remaining work = RemAccepted then lit ''Nothing to run: all of it is already accepted.''
     else lit ''Nothing to run: all of it is claimed and waiting for review.'')"

definition finished :: "task_work \<Rightarrow> str" where
  "finished work = (if tw_flow_ended work then lit ''Flow finished: the steps it did not need were left unrun.''
     else if tw_remaining work = RemAccepted then lit ''All of it accepted.''
     else lit ''All of it claimed and waiting for review.'')"

definition active_of :: "nat \<Rightarrow> 'h worker \<Rightarrow> active option" where
  "active_of generation w = List.find (\<lambda>a. ac_generation a = generation) (wk_active w)"

definition is_current :: "nat \<Rightarrow> 'h worker \<Rightarrow> bool" where
  "is_current generation w = list_ex (\<lambda>a. ac_generation a = generation) (wk_active w)"

text \<open>\<open>update_first\<close> changes the session \<^verbatim>\<open>active_mut\<close> finds, \<open>remove_first\<close> takes it out.\<close>

fun update_first :: "('a \<Rightarrow> bool) \<Rightarrow> ('a \<Rightarrow> 'a) \<Rightarrow> 'a list \<Rightarrow> 'a list" where
  "update_first p f [] = []"
| "update_first p f (x # xs) = (if p x then f x # xs else x # update_first p f xs)"

fun remove_first :: "('a \<Rightarrow> bool) \<Rightarrow> 'a list \<Rightarrow> 'a list" where
  "remove_first p [] = []"
| "remove_first p (x # xs) = (if p x then xs else x # remove_first p xs)"

definition active_mut :: "nat \<Rightarrow> (active \<Rightarrow> active) \<Rightarrow> ('h worker, unit) proc" where
  "active_mut generation f = p_modify (\<lambda>w. w\<lparr>wk_active := update_first (\<lambda>a. ac_generation a = generation) f (wk_active w)\<rparr>)"

definition mark_closing :: "nat \<Rightarrow> ('h worker, unit) proc" where
  "mark_closing generation = active_mut generation (\<lambda>a. a\<lparr>ac_closing := True\<rparr>)"

definition forget :: "nat \<Rightarrow> ('h worker, unit) proc" where
  "forget generation = p_modify (\<lambda>w. w\<lparr>wk_active := remove_first (\<lambda>a. ac_generation a = generation) (wk_active w)\<rparr>)"

definition send_later :: "command \<Rightarrow> ('h worker, unit) proc" where
  "send_later command = p_modify (\<lambda>w. w\<lparr>wk_commands := wk_commands w @ [command]\<rparr>)"

definition read_work :: "id \<Rightarrow> (('h, 'z) world_scheme, task_work) proc" where
  "read_work task_id = p_read (in_read (work_read_in task_id))"

definition release_running_steps :: "id \<Rightarrow> (('h, 'z) world_scheme, unit) proc" where
  "release_running_steps task_id =
     p_bind (p_try (read_work task_id)) (\<lambda>found. case found of
       Inl _ \<Rightarrow> p_ok ()
     | Inr work \<Rightarrow> p_each (\<lambda>step_id. p_bind (p_try (p_call (release_running (Some step_id)))) (\<lambda>_. p_ok ())) (tw_running_step_ids work))"

definition close_session :: "'h worker_parts \<Rightarrow> active \<Rightarrow> str \<Rightarrow> (('h, 'z) world_scheme, unit) proc" where
  "close_session parts current reason =
     p_bind (p_host (\<lambda>h. (Inr (), wp_close parts (ac_terminal_id current) reason h))) (\<lambda>_.
     release_running_steps (ac_task_id current))"

definition read_ceiling :: "'h worker_parts \<Rightarrow> snapshot \<Rightarrow> (('h, 'z) world_scheme, verdict) proc" where
  "read_ceiling parts sn =
     (if sn_ceiling_percent sn = None then p_ok verdict_go
      else p_bind (p_host (\<lambda>h. case wp_usage_current parts h of (reading, h') \<Rightarrow> (Inr reading, h'))) (\<lambda>reading.
           p_bind p_now (\<lambda>now. p_ok (usage_check (Some reading) (sn_ceiling_percent sn) (sn_model sn) now))))"

definition is_spent :: "'h worker_parts \<Rightarrow> id \<Rightarrow> task_work \<Rightarrow> 'h \<Rightarrow> bool" where
  "is_spent parts terminal_id work h = (case wp_get parts terminal_id h of None \<Rightarrow> False
     | Some terminal \<Rightarrow> session_is_spent work (tv_started_at terminal))"

subsection \<open>Starting the next items\<close>

definition park :: "'h worker_parts \<Rightarrow> run_queue_item_view \<Rightarrow> rekall_error \<Rightarrow> ('h worker, unit) proc" where
  "park parts item refusal =
     p_bind (p_modify (\<lambda>w. w\<lparr>wk_parked := insert (iv_id item) (wk_parked w)\<rparr>)) (\<lambda>_.
     p_call (mark_item (iv_id item) Queued (Some (lit ''Could not make a worktree: '' @ wp_wording parts (error_message refusal)))))"

definition opening_for :: "run_queue_item_view \<Rightarrow> snapshot \<Rightarrow> terminal_opening" where
  "opening_for item sn = \<lparr>to_target = TargetTask (iv_task_id item), to_step_id = None, to_skip_permissions = sn_skip_permissions sn,
     to_model = sn_model sn, to_effort = sn_effort sn, to_kind = sn_session_kind sn\<rparr>"

definition open_item :: "'h worker_parts \<Rightarrow> run_queue_item_view \<Rightarrow> snapshot \<Rightarrow> task_work \<Rightarrow> ('h worker, unit) proc" where
  "open_item parts item sn before =
     p_bind (p_try (p_host (wp_open parts (opening_for item sn)))) (\<lambda>answer. case answer of
       Inl refused \<Rightarrow> (case refused of
           Conflict m \<Rightarrow> p_call (mark_item (iv_id item) Failed (Some (wp_wording parts m)))
         | IllegalArgument m \<Rightarrow> p_call (mark_item (iv_id item) Failed (Some (wp_wording parts m)))
         | UnknownAnchor m \<Rightarrow> p_call (mark_item (iv_id item) Failed (Some (wp_wording parts m)))
         | _ \<Rightarrow> p_fail refused)
     | Inr opened \<Rightarrow>
         p_bind (p_modify (\<lambda>w. w\<lparr>wk_generation := Suc (wk_generation w), wk_active := wk_active w @
           [\<lparr>ac_generation = Suc (wk_generation w), ac_item_id = iv_id item, ac_task_id = iv_task_id item,
             ac_terminal_id = tv_id opened, ac_settled_steps = tw_settled_steps before,
             ac_waiting_for_permission = False, ac_closing = False\<rparr>]\<rparr>)) (\<lambda>_.
         p_call (mark_item (iv_id item) IRunning None)))"

definition launch :: "'h worker_parts \<Rightarrow> run_queue_item_view \<Rightarrow> snapshot \<Rightarrow> ('h worker, unit) proc" where
  "launch parts item sn =
     p_bind (p_try (read_work (iv_task_id item))) (\<lambda>answer. case answer of
       Inl e \<Rightarrow> (case e of
           UnknownAnchor _ \<Rightarrow> p_call (mark_item (iv_id item) Failed (Some (lit ''The task no longer exists.'')))
         | _ \<Rightarrow> p_fail e)
     | Inr before \<Rightarrow>
         if \<not> has_work before then p_call (mark_item (iv_id item) Skipped (Some (nothing_open before)))
         else p_bind (p_look (wp_has_live_for parts (iv_task_id item))) (\<lambda>live.
           if live then p_call (mark_item (iv_id item) Failed
             (Some (lit ''A terminal was already open on this task. Close it and queue the task again.'')))
           else if sn_parallel_sessions sn > 1
           then p_bind (p_try (worktree_ensure (wp_worktrees parts) (wp_root parts) (iv_task_id item))) (\<lambda>made. case made of
                  Inl refused \<Rightarrow> park parts item refused
                | Inr _ \<Rightarrow> open_item parts item sn before)
           else open_item parts item sn before))"

text \<open>What the turn found leads to; \<open>again\<close> is the next round of the loop.\<close>

definition take_turn :: "'h worker_parts \<Rightarrow> snapshot \<Rightarrow> nat \<Rightarrow> ('h worker, unit) proc \<Rightarrow> next_turn \<Rightarrow> ('h worker, unit) proc" where
  "take_turn parts sn busy again turn = (case turn of
       EmptyTurn \<Rightarrow> if busy = 0 then p_call queue_finish else p_ok ()
     | BlockedTurn blocked \<Rightarrow>
         if busy = 0 then p_bind (p_call (stop_blocked blocked)) (\<lambda>_. p_modify (\<lambda>w. w\<lparr>wk_parked := {}\<rparr>)) else p_ok ()
     | ReadyTurn item \<Rightarrow>
         p_bind (read_ceiling parts sn) (\<lambda>verdict.
         if \<not> vd_clear verdict
         then if busy = 0 then p_call (queue_hold (vd_resume_at verdict) (vd_reason verdict)) else p_ok ()
         else p_bind (launch parts item sn) (\<lambda>_. again)))"

primrec advance_rounds :: "'h worker_parts \<Rightarrow> nat \<Rightarrow> ('h worker, unit) proc" where
  "advance_rounds parts 0 = p_fail (Internal (Msg ''out of rounds'' []))"
| "advance_rounds parts (Suc n) =
     p_bind (p_read (\<lambda>s. Inr (snapshot_of s))) (\<lambda>sn.
     p_bind (p_gets (\<lambda>w. length (wk_active w))) (\<lambda>busy.
     if sn_state sn \<noteq> QRunning \<or> places sn \<le> busy then p_ok ()
     else p_bind (p_gets wk_parked) (\<lambda>parked.
       p_bind (p_read (next_turn_of parked)) (take_turn parts sn busy (advance_rounds parts n)))))"

definition advance :: "'h worker_parts \<Rightarrow> ('h worker, unit) proc" where
  "advance parts = advance_rounds parts (wp_rounds parts)"

subsection \<open>What happens to a session\<close>

definition note_permission_wait :: "'h worker_parts \<Rightarrow> nat \<Rightarrow> ('h worker, unit) proc" where
  "note_permission_wait parts generation =
     p_bind (p_gets (active_of generation)) (\<lambda>found. case found of None \<Rightarrow> p_ok ()
     | Some a \<Rightarrow>
       p_bind (p_look (\<lambda>h. case wp_get parts (ac_terminal_id a) h of None \<Rightarrow> False | Some session \<Rightarrow> tv_awaiting_permission session)) (\<lambda>waiting.
       if waiting = ac_waiting_for_permission a then p_ok ()
       else p_bind (active_mut generation (\<lambda>a. a\<lparr>ac_waiting_for_permission := waiting\<rparr>)) (\<lambda>_.
            p_call (mark_item (ac_item_id a) IRunning (if waiting then Some WAITING_FOR_PERMISSION else None)))))"

definition review_boundary :: "'h worker_parts \<Rightarrow> active \<Rightarrow> task_work \<Rightarrow> ('h worker, bool) proc" where
  "review_boundary parts current now_work =
     (if tw_settled_steps now_work > ac_settled_steps current
      then p_bind (active_mut (ac_generation current) (\<lambda>a. a\<lparr>ac_settled_steps := tw_settled_steps now_work\<rparr>)) (\<lambda>_.
           p_bind (p_read (\<lambda>s. Inr (snapshot_of s))) (\<lambda>sn.
           p_bind (read_ceiling parts sn) (\<lambda>verdict.
           if \<not> vd_clear verdict
           then p_bind (mark_closing (ac_generation current)) (\<lambda>_.
                p_bind (send_later (Pause (ac_generation current) verdict)) (\<lambda>_. p_ok False))
           else p_ok True)))
      else p_ok True)"

definition review_task :: "'h worker_parts \<Rightarrow> id \<Rightarrow> ('h worker, unit) proc" where
  "review_task parts task_id =
     p_bind (p_gets (\<lambda>w. List.find (\<lambda>a. ac_task_id a = task_id) (wk_active w))) (\<lambda>found. case found of None \<Rightarrow> p_ok ()
     | Some current \<Rightarrow>
       if ac_closing current then p_ok ()
       else p_bind (p_try (read_work task_id)) (\<lambda>answer. case answer of
         Inl e \<Rightarrow> (case e of
             UnknownAnchor _ \<Rightarrow>
               p_bind (forget (ac_generation current)) (\<lambda>_.
               p_bind (close_session parts current (lit ''The task was deleted.'')) (\<lambda>_. advance parts))
           | _ \<Rightarrow> p_fail e)
       | Inr now_work \<Rightarrow>
           if \<not> has_work now_work
           then p_bind (mark_closing (ac_generation current)) (\<lambda>_.
                send_later (Settle (ac_generation current) Finished (finished now_work)))
           else p_bind (review_boundary parts current now_work) (\<lambda>goes_on.
             if \<not> goes_on then p_ok ()
             else p_bind (p_look (is_spent parts (ac_terminal_id current) now_work)) (\<lambda>spent.
               if spent then send_later (Renew (ac_generation current)) else p_ok ()))))"

definition renew_session :: "'h worker_parts \<Rightarrow> nat \<Rightarrow> ('h worker, unit) proc" where
  "renew_session parts generation =
     p_bind (p_gets (active_of generation)) (\<lambda>found. case found of None \<Rightarrow> p_ok ()
     | Some current \<Rightarrow>
       if ac_closing current then p_ok ()
       else p_bind (read_work (ac_task_id current)) (\<lambda>work.
         p_bind (p_look (is_spent parts (ac_terminal_id current) work)) (\<lambda>spent.
         if \<not> spent then p_ok ()
         else p_bind (mark_closing generation) (\<lambda>_.
           p_bind (p_try (p_host (wp_renew parts (ac_terminal_id current)))) (\<lambda>answer. case answer of
             Inr renewed \<Rightarrow> active_mut generation (\<lambda>a. a\<lparr>ac_terminal_id := tv_id renewed, ac_closing := False\<rparr>)
           | Inl _ \<Rightarrow>
               p_bind (forget generation) (\<lambda>_.
               p_bind (release_running_steps (ac_task_id current)) (\<lambda>_.
               p_bind (p_call (mark_item (ac_item_id current) Failed (Some (lit ''The next session could not be opened.'')))) (\<lambda>_.
               advance parts))))))))"

definition settle :: "'h worker_parts \<Rightarrow> nat \<Rightarrow> run_queue_item_state \<Rightarrow> str \<Rightarrow> ('h worker, unit) proc" where
  "settle parts generation outcome reason =
     p_bind (p_gets (active_of generation)) (\<lambda>found. case found of None \<Rightarrow> p_ok ()
     | Some current \<Rightarrow>
       p_bind (forget generation) (\<lambda>_.
       p_bind (close_session parts current (lit ''The run queue moved on to the next task.'')) (\<lambda>_.
       p_bind (p_call (mark_item (ac_item_id current) outcome (Some reason))) (\<lambda>_.
       advance parts))))"

definition pause :: "'h worker_parts \<Rightarrow> nat \<Rightarrow> verdict \<Rightarrow> ('h worker, unit) proc" where
  "pause parts generation verdict =
     p_bind (p_gets (active_of generation)) (\<lambda>found. case found of None \<Rightarrow> p_ok ()
     | Some current \<Rightarrow>
       p_bind (forget generation) (\<lambda>_.
       p_bind (close_session parts current (lit ''The run queue reached its usage ceiling.'')) (\<lambda>_.
       p_bind (p_call (mark_item (ac_item_id current) Queued
         (Some (lit ''Paused at the usage ceiling; it picks up at the next open step.'')))) (\<lambda>_.
       p_bind (p_gets (\<lambda>w. wk_active w = [])) (\<lambda>none_left.
       if none_left then p_call (queue_hold (vd_resume_at verdict) (vd_reason verdict)) else p_ok ())))))"

definition session_ended :: "'h worker_parts \<Rightarrow> id \<Rightarrow> ('h worker, unit) proc" where
  "session_ended parts terminal_id =
     p_bind (p_gets (\<lambda>w. List.find (\<lambda>a. ac_terminal_id a = terminal_id) (wk_active w))) (\<lambda>found. case found of None \<Rightarrow> p_ok ()
     | Some current \<Rightarrow>
       if ac_closing current then p_ok ()
       else p_bind (forget (ac_generation current)) (\<lambda>_.
         p_bind (release_running_steps (ac_task_id current)) (\<lambda>_.
         p_bind (p_try (read_work (ac_task_id current))) (\<lambda>after.
         p_bind (case after of
             Inr work \<Rightarrow> if \<not> has_work work
               then p_call (mark_item (ac_item_id current) Finished (Some (finished work)))
               else p_call (mark_item (ac_item_id current) Failed (Some (lit ''The session ended before its work was claimed.'')))
           | Inl _ \<Rightarrow> p_call (mark_item (ac_item_id current) Failed (Some (lit ''The session ended before its work was claimed.'')))) (\<lambda>_.
         advance parts)))))"

subsection \<open>Ticks and commands\<close>

definition tick_session :: "'h worker_parts \<Rightarrow> active \<Rightarrow> ('h worker, unit) proc" where
  "tick_session parts a =
     p_bind (p_look (\<lambda>h. case wp_get parts (ac_terminal_id a) h of None \<Rightarrow> False | Some session \<Rightarrow> tv_live session)) (\<lambda>live.
     if \<not> ac_closing a \<and> \<not> live then session_ended parts (ac_terminal_id a)
     else p_bind (review_task parts (ac_task_id a)) (\<lambda>_. note_permission_wait parts (ac_generation a)))"

definition tick_sessions :: "'h worker_parts \<Rightarrow> ('h worker, unit) proc" where
  "tick_sessions parts = p_bind (p_gets wk_active) (\<lambda>sessions.
     p_bind (p_each (tick_session parts) sessions) (\<lambda>_. advance parts))"

definition tick :: "'h worker_parts \<Rightarrow> ('h worker, unit) proc" where
  "tick parts =
     p_bind (p_read (\<lambda>s. Inr (snapshot_of s))) (\<lambda>sn.
     p_bind p_now (\<lambda>now. case sn_state sn of
       Idle \<Rightarrow> p_ok ()
     | Scheduled \<Rightarrow>
         if (case sn_start_at sn of None \<Rightarrow> False | Some start \<Rightarrow> now < start) then p_ok ()
         else p_bind (p_call queue_resume) (\<lambda>_. tick_sessions parts)
     | Holding \<Rightarrow>
         if (case sn_hold_until sn of None \<Rightarrow> False | Some until \<Rightarrow> now < until) then p_ok ()
         else p_bind (p_host (\<lambda>h. (Inr (), wp_usage_refresh parts h))) (\<lambda>_.
              p_bind (p_call queue_resume) (\<lambda>_. tick_sessions parts))
     | QRunning \<Rightarrow> tick_sessions parts))"

definition guarded :: "('w, 'a) proc \<Rightarrow> ('w, unit) proc" where
  "guarded m = p_bind (p_try m) (\<lambda>_. p_ok ())"

definition stop_worker :: "'h worker_parts \<Rightarrow> ('h worker, unit) proc" where
  "stop_worker parts =
     p_bind (p_gets wk_active) (\<lambda>stopping.
     p_bind (p_modify (\<lambda>w. w\<lparr>wk_active := []\<rparr>)) (\<lambda>_.
     p_bind (p_each (\<lambda>a. close_session parts a (lit ''Stopped from the console.'')) stopping) (\<lambda>_.
     p_bind (p_modify (\<lambda>w. w\<lparr>wk_parked := {}\<rparr>)) (\<lambda>_.
     p_bind (p_try (p_call (queue_stop (lit ''Stopped from the console; it picks up at the next open step.'')))) (\<lambda>stopped.
     p_modify (\<lambda>w. w\<lparr>wk_replies := wk_replies w @ [stopped]\<rparr>))))))"

definition handle :: "'h worker_parts \<Rightarrow> command \<Rightarrow> ('h worker, unit) proc" where
  "handle parts command = (case command of
       Tick \<Rightarrow> guarded (tick parts)
     | Review task_id \<Rightarrow> p_bind (guarded (p_call (refresh_for_task task_id))) (\<lambda>_. guarded (review_task parts task_id))
     | SessionEnded terminal_id \<Rightarrow> guarded (session_ended parts terminal_id)
     | Settle generation outcome reason \<Rightarrow> guarded (settle parts generation outcome reason)
     | Renew generation \<Rightarrow> guarded (renew_session parts generation)
     | Pause generation verdict \<Rightarrow> guarded (pause parts generation verdict)
     | Shutdown \<Rightarrow> p_ok ()
     | Stop \<Rightarrow> stop_worker parts)"

text \<open>The commands of the inbox in order, until a shutdown.\<close>

fun run_inbox :: "'h worker_parts \<Rightarrow> command list \<Rightarrow> ('h worker, unit) proc" where
  "run_inbox parts [] = p_ok ()"
| "run_inbox parts (command # inbox) =
     (if command = Shutdown then p_ok () else p_bind (handle parts command) (\<lambda>_. run_inbox parts inbox))"

definition run_worker :: "'h worker_parts \<Rightarrow> command list \<Rightarrow> ('h worker, unit) proc" where
  "run_worker parts inbox =
     p_bind (guarded (p_call recover_after_restart)) (\<lambda>_.
     p_bind (guarded (worktree_reconcile (wp_worktrees parts))) (\<lambda>_.
     run_inbox parts inbox))"

end
