(* ===== verification/Worker_Facts.thy ===== *)
theory Worker_Facts
  imports Queue_Worker
begin

section \<open>Facts about the worker\<close>

text \<open>
  What the procedures of \<open>Queue_Worker\<close> keep. The worker holds at most four sessions, numbered apart, over a
  well-formed store; and every item a free place is given to leaves the items that wait, so filling the places ends.
\<close>

lemma keeps_guarded [keeps_intro]: "keeps I m \<Longrightarrow> keeps I (guarded m)"
  unfolding guarded_def by (intro keeps_intro)

lemma triple_snd: "triple I m J J \<Longrightarrow> I w \<Longrightarrow> J (snd (m w))"
  by (cases "m w"; cases "fst (m w)") (auto simp: triple_def dest!: spec [of _ w])

lemma read_bind: "p_bind (p_read (\<lambda>s. Inr (f s))) g w =
    g (f (shd (w_others w) (w_db w))) (w\<lparr>w_db := shd (w_others w) (w_db w), w_others := stl (w_others w)\<rparr>)"
  by (simp add: p_bind_def p_read_def p_call_def)

lemma gets_bind: "p_bind (p_gets f) g w = g (f w) w"
  by (simp add: p_bind_def p_gets_def)

subsection \<open>Any invariant of the world\<close>

context world_invariant
begin

lemma keeps_read_work: "keeps I (read_work i)"
  unfolding read_work_def by (rule keeps_reading)

lemma keeps_read_ceiling: "table_invariant ok \<Longrightarrow> keeps I (read_ceiling parts sn)"
  unfolding read_ceiling_def p_now_def
  by (intro keeps_intro keeps_outside keeps_db) (simp add: table_invariantD)

lemma keeps_release_steps:
  assumes "\<And>s i. ok s \<Longrightarrow> ok (snd (release_running i s))"
  shows "keeps I (release_running_steps i)"
  unfolding release_running_steps_def using assms by (intro keeps_intro keeps_read_work keeps_db)

lemma keeps_close_session:
  assumes "\<And>s i. ok s \<Longrightarrow> ok (snd (release_running i s))"
  shows "keeps I (close_session parts a reason)"
  unfolding close_session_def using assms by (intro keeps_intro keeps_outside keeps_release_steps)

end

subsection \<open>The sessions in hand\<close>

definition worker_within :: "nat \<Rightarrow> 'h worker \<Rightarrow> bool" where
  "worker_within n w \<longleftrightarrow> holds_with store_ok w \<and> distinct (map ac_generation (wk_active w))
     \<and> (\<forall>a \<in> set (wk_active w). ac_generation a \<le> wk_generation w) \<and> length (wk_active w) \<le> n"

interpretation in_hand: world_invariant "worker_within n" store_ok for n
proof
  fix w :: "'h worker" and s h
  assume w: "worker_within n w"
  then have holds: "holds_with store_ok w" by (simp add: worker_within_def)
  show "store_ok (shd (w_others w) (w_db w))" using holds by (rule world_db.stored)
  show "worker_within n (w\<lparr>w_host := h\<rparr>)" using w world_db.outside [OF holds] by (simp add: worker_within_def)
  show "worker_within n (w\<lparr>w_db := s, w_others := stl (w_others w)\<rparr>)" if "store_ok s"
    using w world_db.committed [OF holds that] by (simp add: worker_within_def)
qed

lemma within_more: "worker_within n w \<Longrightarrow> n \<le> m \<Longrightarrow> worker_within m w"
  by (simp add: worker_within_def)

lemmas store_ok_runner = runner_call_ok [OF runner_call.intros(1)] runner_call_ok [OF runner_call.intros(2)]
  runner_call_ok [OF runner_call.intros(3)] runner_call_ok [OF runner_call.intros(4)] runner_call_ok [OF runner_call.intros(5)]
  runner_call_ok [OF runner_call.intros(6)] runner_call_ok [OF runner_call.intros(7)]

lemma store_ok_release_running: "store_ok s \<Longrightarrow> store_ok (snd (release_running i s))"
  by (rule checklist_call_ok [OF checklist_call.release_running])

lemma store_ok_queue_stop: "store_ok s \<Longrightarrow> store_ok (snd (queue_stop reason s))"
  by (rule console_queue_call_ok [OF console_queue_call.stop])

lemmas worker_calls = in_hand.keeps_db store_ok_runner store_ok_queue_stop in_hand.keeps_reading in_hand.keeps_outside
  in_hand.keeps_read_work in_hand.keeps_read_ceiling [OF store_ok_table] in_hand.keeps_release_steps [OF store_ok_release_running]
  in_hand.keeps_close_session [OF store_ok_release_running] in_hand.keeps_ensure [OF store_ok_name_on_task]
  in_hand.keeps_reconcile [OF store_ok_name_on_task]

lemma update_first_length [simp]: "length (update_first p f xs) = length xs"
  by (induction xs) auto

lemma update_first_generations:
  "(\<And>a. ac_generation (f a) = ac_generation a) \<Longrightarrow> map ac_generation (update_first p f xs) = map ac_generation xs"
  by (induction xs) auto

lemma remove_first_subset: "set (remove_first p xs) \<subseteq> set xs" "length (remove_first p xs) \<le> length xs"
  by (induction xs) auto

lemma remove_first_distinct: "distinct (map g xs) \<Longrightarrow> distinct (map g (remove_first p xs))"
proof (induction xs)
  case (Cons x xs)
  then show ?case using remove_first_subset(1) [of p xs] by auto
qed simp

lemma generations_bound: "(\<forall>a \<in> set xs. ac_generation a \<le> g) \<longleftrightarrow> (\<forall>x \<in> set (map ac_generation xs). x \<le> g)"
  by simp

lemma keeps_active_mut [keeps_intro]:
  assumes "\<And>a. ac_generation (f a) = ac_generation a"
  shows "keeps (worker_within n) (active_mut g f)"
  by (auto simp: keeps_def active_mut_def p_modify_def worker_within_def holds_with_def generations_bound
      update_first_generations [OF assms] simp del: set_map)

lemma keeps_mark_closing [keeps_intro]: "keeps (worker_within n) (mark_closing g)"
  unfolding mark_closing_def by (rule keeps_active_mut) simp

lemma keeps_forget [keeps_intro]: "keeps (worker_within n) (forget g)"
proof (rule keepsI)
  fix w :: "'h worker" assume "worker_within n w"
  then show "worker_within n (snd (forget g w))"
    using remove_first_subset [of "\<lambda>a. ac_generation a = g" "wk_active w"]
    by (simp add: forget_def p_modify_def worker_within_def holds_with_def remove_first_distinct subset_iff)
qed

lemma keeps_send_later [keeps_intro]: "keeps (worker_within n) (send_later c)"
  by (simp add: keeps_def send_later_def p_modify_def worker_within_def holds_with_def)

lemma keeps_notes [keeps_intro]:
  "keeps (worker_within n) (p_modify (\<lambda>w. w\<lparr>wk_parked := f w\<rparr>))" "keeps (worker_within n) (p_modify (\<lambda>w. w\<lparr>wk_replies := r w\<rparr>))"
  by (simp_all add: keeps_def p_modify_def worker_within_def holds_with_def)

lemma keeps_errors [keeps_intro]:
  assumes "\<And>m. keeps I (a m)" "\<And>m. keeps I (b m)" "\<And>m. keeps I (c m)" "\<And>m. keeps I (d m)" "\<And>m l. keeps I (f m l)"
    "\<And>m. keeps I (g m)" "\<And>m. keeps I (h m)"
  shows "keeps I (case e of NotFound m \<Rightarrow> a m | Conflict m \<Rightarrow> b m | IllegalArgument m \<Rightarrow> c m | UnknownAnchor m \<Rightarrow> d m
    | AmbiguousAnchor m l \<Rightarrow> f m l | Integrity m \<Rightarrow> g m | Internal m \<Rightarrow> h m)"
  using assms by (cases e) simp_all

subsection \<open>Never more sessions than places\<close>

lemma opened_within:
  "triple (worker_within n) (p_modify (\<lambda>w. w\<lparr>wk_generation := Suc (wk_generation w), wk_active := wk_active w @
     [\<lparr>ac_generation = Suc (wk_generation w), ac_item_id = i, ac_task_id = t, ac_terminal_id = term,
       ac_settled_steps = k, ac_waiting_for_permission = False, ac_closing = False\<rparr>]\<rparr>)) (worker_within (Suc n)) E"
  by (auto simp: triple_def p_modify_def worker_within_def holds_with_def)

lemma within_answers:
  assumes "keeps (worker_within n) m"
  shows "triple (worker_within n) m (worker_within (Suc n)) (worker_within (Suc n))"
  using assms by (rule triple_post) (auto intro: within_more)

lemma within_after:
  assumes "keeps (worker_within n) m" "\<And>x. triple (worker_within n) (f x) (worker_within (Suc n)) (worker_within (Suc n))"
  shows "triple (worker_within n) (p_bind m f) (worker_within (Suc n)) (worker_within (Suc n))"
  using assms(1) _ assms(2) by (rule triple_after) (auto intro: within_more)

lemma open_item_within: "triple (worker_within n) (open_item parts item sn before) (worker_within (Suc n)) (worker_within (Suc n))"
  unfolding open_item_def
proof (rule within_after)
  show "keeps (worker_within n) (p_try (p_host (wp_open parts (opening_for item sn))))" by (intro keeps_intro worker_calls)
  fix answer :: "terminal_view result"
  show "triple (worker_within n) (case answer of
       Inl refused \<Rightarrow> (case refused of
           Conflict m \<Rightarrow> p_call (mark_item (iv_id item) Failed (Some (wp_wording parts m)))
         | IllegalArgument m \<Rightarrow> p_call (mark_item (iv_id item) Failed (Some (wp_wording parts m)))
         | UnknownAnchor m \<Rightarrow> p_call (mark_item (iv_id item) Failed (Some (wp_wording parts m)))
         | _ \<Rightarrow> p_fail refused)
     | Inr opened \<Rightarrow>
         p_bind (p_modify (\<lambda>w. w\<lparr>wk_generation := Suc (wk_generation w), wk_active := wk_active w @
           [\<lparr>ac_generation = Suc (wk_generation w), ac_item_id = iv_id item, ac_task_id = iv_task_id item,
             ac_terminal_id = tv_id opened, ac_settled_steps = tw_settled_steps before,
             ac_waiting_for_permission = False, ac_closing = False\<rparr>]\<rparr>)) (\<lambda>_.
         p_call (mark_item (iv_id item) IRunning None))) (worker_within (Suc n)) (worker_within (Suc n))"
  proof (cases answer)
    case (Inl refused)
    show ?thesis unfolding Inl sum.case by (intro within_answers keeps_intro worker_calls)
  next
    case (Inr opened)
    show ?thesis unfolding Inr sum.case
      by (rule triple_bind [OF opened_within], subst triple_keeps [symmetric]) (intro keeps_intro worker_calls)
  qed
qed

lemma launch_within: "triple (worker_within n) (launch parts item sn) (worker_within (Suc n)) (worker_within (Suc n))"
  unfolding launch_def park_def
  by (intro within_after triple_cases open_item_within; (rule within_answers)?; intro keeps_intro worker_calls)

lemma places_most: "store_ok s \<Longrightarrow> places (snapshot_of s) \<le> 4"
proof (cases "oldest_queue s")
  case (Some q)
  assume "store_ok s"
  then have "queue_validate q = Inr ()"
    using oldest_queue_Some [OF Some] by (auto simp: store_ok_def rest_ok_def queue_wf_def)
  then have "rq_parallel_sessions q \<le> 4"
    by (simp add: queue_validate_def violations_finish_Inr PARALLEL_SESSIONS_MAX_def)
  then show ?thesis by (simp add: places_def snapshot_of_def Some nat_le_iff)
qed (simp add: places_def snapshot_of_def PARALLEL_SESSIONS_MIN_def)

lemma take_turn_within:
  assumes "keeps (worker_within (Suc n)) again"
  shows "triple (worker_within n) (take_turn parts sn busy again turn) (worker_within (Suc n)) (worker_within (Suc n))"
proof -
  have launched: "triple (worker_within n) (p_bind (launch parts item sn) (\<lambda>_. again)) (worker_within (Suc n)) (worker_within (Suc n))" for item
    using assms by (intro triple_bind [OF launch_within]) (simp add: triple_keeps)
  show ?thesis unfolding take_turn_def
    by (cases turn; simp only: next_turn.case; intro launched within_after triple_cases; (rule within_answers)?; intro keeps_intro worker_calls)
qed

lemma keeps_advance_rounds:
  fixes parts :: "'h worker_parts"
  shows "keeps (worker_within 4) (advance_rounds parts n)"
proof (induction n)
  case (Suc n)
  then have again: "keeps (worker_within (Suc 3)) (advance_rounds parts n)" by simp
  have turn: "triple (worker_within 3) (p_bind (p_gets wk_parked) (\<lambda>parked.
      p_bind (p_read (next_turn_of parked)) (take_turn parts sn busy (advance_rounds parts n)))) (worker_within (Suc 3)) (worker_within (Suc 3))" for sn busy
    by (intro within_after take_turn_within again; intro keeps_intro worker_calls)
  show ?case
  proof (rule keepsI)
    fix w :: "'h worker" assume w: "worker_within 4 w"
    let ?s = "shd (w_others w) (w_db w)"
    let ?w = "w\<lparr>w_db := ?s, w_others := stl (w_others w)\<rparr>"
    have ok: "store_ok ?s" using w by (rule in_hand.stored)
    then have w': "worker_within 4 ?w" by (rule in_hand.committed [OF w])
    have "worker_within 3 ?w" if "\<not> places (snapshot_of ?s) \<le> length (wk_active w)"
      using w' that places_most [OF ok] by (simp add: worker_within_def)
    then show "worker_within 4 (snd (advance_rounds parts (Suc n) w))"
      using w' triple_snd [OF turn, of ?w "snapshot_of ?s" "length (wk_active w)"] by (simp add: read_bind gets_bind p_ok_def)
  qed
qed (simp add: keeps_plain)

lemma keeps_advance [keeps_intro]: "keeps (worker_within 4) (advance parts)"
  unfolding advance_def by (rule keeps_advance_rounds)

subsection \<open>Every command\<close>

lemma keeps_note_permission_wait [keeps_intro]: "keeps (worker_within n) (note_permission_wait parts g)"
  unfolding note_permission_wait_def by (intro keeps_intro worker_calls) simp

lemma keeps_review_boundary [keeps_intro]: "keeps (worker_within n) (review_boundary parts a work)"
  unfolding review_boundary_def by (intro keeps_intro worker_calls) simp

lemma keeps_review_task [keeps_intro]: "keeps (worker_within 4) (review_task parts i)"
  unfolding review_task_def by (intro keeps_intro worker_calls)

lemma keeps_renew_session [keeps_intro]: "keeps (worker_within 4) (renew_session parts g)"
  unfolding renew_session_def by (intro keeps_intro worker_calls) simp_all

lemma keeps_settle [keeps_intro]: "keeps (worker_within 4) (settle parts g st reason)"
  unfolding settle_def by (intro keeps_intro worker_calls)

lemma keeps_pause [keeps_intro]: "keeps (worker_within 4) (pause parts g verdict)"
  unfolding pause_def by (intro keeps_intro worker_calls)

lemma keeps_session_ended [keeps_intro]: "keeps (worker_within 4) (session_ended parts i)"
  unfolding session_ended_def by (intro keeps_intro worker_calls)

lemma keeps_tick_sessions [keeps_intro]: "keeps (worker_within 4) (tick_sessions parts)"
  unfolding tick_sessions_def tick_session_def by (intro keeps_intro worker_calls)

lemma keeps_now [keeps_intro]: "keeps (worker_within n) p_now"
  unfolding p_now_def by (rule in_hand.keeps_db) (simp add: table_invariantD [OF store_ok_table])

lemma keeps_queue_states [keeps_intro]:
  assumes "keeps I a" "keeps I b" "keeps I c" "keeps I d"
  shows "keeps I (case st of Idle \<Rightarrow> a | Scheduled \<Rightarrow> b | QRunning \<Rightarrow> c | Holding \<Rightarrow> d)"
  using assms by (cases st) simp_all

lemma keeps_tick [keeps_intro]: "keeps (worker_within 4) (tick parts)"
  unfolding tick_def by (intro keeps_intro worker_calls)

lemma keeps_stop_worker [keeps_intro]: "keeps (worker_within 4) (stop_worker parts)"
proof -
  have "keeps (worker_within 4) (p_modify (\<lambda>w. w\<lparr>wk_active := []\<rparr>))"
    by (simp add: keeps_def p_modify_def worker_within_def holds_with_def)
  then show ?thesis unfolding stop_worker_def by (intro keeps_intro worker_calls)
qed

lemma keeps_handle [keeps_intro]: "keeps (worker_within 4) (handle parts c)"
  unfolding handle_def by (cases c; simp only: command.case; intro keeps_intro worker_calls)

lemma keeps_run_inbox: "keeps (worker_within 4) (run_inbox parts inbox)"
  by (induction inbox) (auto intro!: keeps_intro)

lemma keeps_run_worker: "keeps (worker_within 4) (run_worker parts inbox)"
  unfolding run_worker_def by (intro keeps_intro worker_calls keeps_run_inbox)

subsection \<open>Filling the places ends\<close>

definition waiting_ids :: "db \<Rightarrow> id set" where
  "waiting_ids s = qi_id ` {item \<in> set (run_queue_items s). qi_state item = Queued}"

definition still_waiting :: "'h worker \<Rightarrow> id set" where
  "still_waiting w = waiting_ids (w_db w) - wk_parked w"

definition undisturbed :: "('h, 'z) world_scheme \<Rightarrow> bool" where
  "undisturbed w \<longleftrightarrow> w_others w = sconst (\<lambda>s. s)"

definition calm :: "id set \<Rightarrow> id set \<Rightarrow> 'h worker \<Rightarrow> bool" where
  "calm W P w \<longleftrightarrow> undisturbed w \<and> store_ok (w_db w) \<and> waiting_ids (w_db w) \<subseteq> W \<and> wk_parked w = P"

definition left_over :: "id set \<Rightarrow> 'h worker \<Rightarrow> bool" where
  "left_over K w \<longleftrightarrow> undisturbed w \<and> store_ok (w_db w) \<and> still_waiting w \<subseteq> K"

interpretation in_calm: world_invariant "calm W P" "\<lambda>s. store_ok s \<and> waiting_ids s \<subseteq> W" for W P
  by unfold_locales (auto simp: calm_def undisturbed_def)

lemma waiting_ids_table: "table_invariant (\<lambda>s. store_ok s \<and> waiting_ids s \<subseteq> W)"
  using store_ok_table by (simp add: table_invariant_def waiting_ids_def)

lemma marked_waiting:
  assumes "store_ok s" "mark_item i st reason s = (Inr (), t)"
  shows "waiting_ids t \<subseteq> waiting_ids s - {i} \<union> (if st = Queued then {i} else {})"
proof -
  let ?Q = "\<lambda>_ t. waiting_ids t \<subseteq> waiting_ids s - {i} \<union> (if st = Queued then {i} else {})"
  have frame: "queue_frame s (tx_begin s)" and items: "run_queue_items (tx_begin s) = run_queue_items s"
    using assms(1) queue_frame_refl [of s] queue_frame_table [THEN table_invariantD(4)]
    by (auto simp: store_ok_def rest_ok_def tx_begin_def)
  have "wp (mark_item_in i st reason) ?Q (tx_begin s)"
  proof (cases "find_item i (tx_begin s)")
    case None
    then have "i \<notin> qi_id ` set (run_queue_items s)" by (simp add: items find_item_def find_row_None)
    then show ?thesis by (auto simp: mark_item_in_def wp_simps None waiting_ids_def items)
  next
    case (Some item)
    have item: "item \<in> set (run_queue_items (tx_begin s))" "qi_id item = i" using find_item_Some [OF Some] by auto
    have "wp (mark_item_in i st reason) (\<lambda>_ t. \<exists>m. run_queue_items t
        = replace_row qi_id (item_move_to m st reason item) (run_queue_items s)) (tx_begin s)"
      unfolding mark_item_in_def wp_simps Some
      by (auto simp: wp_simps items intro!: wp_move_item [OF frame item_keys_in [OF item(1)]] wp_the_queue wp_queue_publish)
    then show ?thesis by (rule wp_mono) (auto simp: waiting_ids_def set_replace_row item(2))
  qed
  moreover obtain t' where "mark_item_in i st reason (tx_begin s) = Inr ((), t')" "t = tx_commit t'"
    using assms(2) by (auto simp: mark_item_def in_write_Inr)
  moreover have "waiting_ids (tx_commit t') = waiting_ids t'" by (simp add: waiting_ids_def tx_commit_def)
  ultimately show ?thesis using wpD by fastforce
qed

lemma named_waiting:
  assumes "store_ok s \<and> waiting_ids s \<subseteq> W"
  shows "store_ok (snd (in_write (name_on_task_in i folder) s)) \<and> waiting_ids (snd (in_write (name_on_task_in i folder) s)) \<subseteq> W"
proof -
  have "review_frame s s" using assms by (intro review_frame_refl) (simp_all add: store_ok_def rest_ok_def)
  then have "review_frame s (snd (in_write (name_on_task_in i folder) s))"
    by (rule in_write_invariant [OF review_frame_table frame_name_on_task])
  then show ?thesis using assms store_ok_name_on_task by (simp add: review_frame_def waiting_ids_def)
qed

lemma marked_left_over:
  assumes "st \<noteq> Queued"
  shows "triple (calm W P) (p_call (mark_item i st reason)) (left_over (W - P - {i})) (\<lambda>_. True)"
proof -
  have "left_over (W - P - {i}) (w\<lparr>w_db := t, w_others := sconst (\<lambda>s. s)\<rparr>)"
    if "calm W P w" "mark_item i st reason (w_db w) = (Inr (), t)" for w :: "'h worker" and t
    using that marked_waiting [of "w_db w" i st reason t] store_ok_runner(4) [of "w_db w" i st reason] assms
    by (auto simp: calm_def left_over_def still_waiting_def undisturbed_def)
  then show ?thesis
    by (auto simp: triple_def p_call_def calm_def undisturbed_def split: prod.splits sum.splits)
qed

lemma parked_left_over:
  assumes "iv_id item \<in> W"
  shows "triple (calm W P) (park parts item refusal) (left_over (W - P - {iv_id item})) (\<lambda>_. True)"
proof -
  let ?i = "iv_id item"
  have "store_ok t \<and> waiting_ids t \<subseteq> W" if "store_ok s \<and> waiting_ids s \<subseteq> W" "t = snd (mark_item ?i Queued reason s)" for s t reason
    using that marked_waiting [of s ?i Queued reason] store_ok_runner(4) [of s ?i Queued reason] in_write_Inl [of "mark_item_in ?i Queued reason" s] assms
    by (cases "mark_item ?i Queued reason s"; cases "fst (mark_item ?i Queued reason s)") (auto simp: mark_item_def)
  then have "keeps (calm W (insert ?i P)) (p_call (mark_item ?i Queued reason))" for reason
    by (intro in_calm.keeps_db) blast
  then have "triple (calm W (insert ?i P)) (p_call (mark_item ?i Queued reason)) (left_over (W - P - {?i})) (\<lambda>_. True)" for reason
    by (rule triple_post) (auto simp: calm_def left_over_def still_waiting_def)
  moreover have "triple (calm W P) (p_modify (\<lambda>w. w\<lparr>wk_parked := insert ?i (wk_parked w)\<rparr>)) (calm W (insert ?i P)) (\<lambda>_. True)"
    by (simp add: triple_def p_modify_def calm_def undisturbed_def)
  ultimately show ?thesis unfolding park_def by (intro triple_bind)
qed

lemma calm_after:
  assumes "keeps (calm W P) m" "\<And>x. triple (calm W P) (f x) J (\<lambda>_. True)"
  shows "triple (calm W P) (p_bind m f) J (\<lambda>_. True)"
  using assms(1) _ assms(2) by (rule triple_after) simp

lemma triple_fail: "triple I (p_fail e) J (\<lambda>_. True)"
  by (simp add: triple_def p_fail_def)

lemma triple_errors:
  assumes "\<And>m. triple I (a m) J E" "\<And>m. triple I (b m) J E" "\<And>m. triple I (c m) J E" "\<And>m. triple I (d m) J E"
    "\<And>m l. triple I (f m l) J E" "\<And>m. triple I (g m) J E" "\<And>m. triple I (h m) J E"
  shows "triple I (case e of NotFound m \<Rightarrow> a m | Conflict m \<Rightarrow> b m | IllegalArgument m \<Rightarrow> c m | UnknownAnchor m \<Rightarrow> d m
    | AmbiguousAnchor m l \<Rightarrow> f m l | Integrity m \<Rightarrow> g m | Internal m \<Rightarrow> h m) J E"
  using assms by (cases e) simp_all

lemma open_item_left_over:
  "triple (calm W P) (open_item parts item sn before) (left_over (W - P - {iv_id item})) (\<lambda>_. True)"
proof -
  have opened: "keeps (calm W P) (p_modify (\<lambda>w. w\<lparr>wk_generation := g w, wk_active := as w\<rparr>))" for g as
    by (simp add: keeps_def p_modify_def calm_def undisturbed_def)
  show ?thesis unfolding open_item_def
    by (intro calm_after triple_cases triple_errors marked_left_over triple_fail keeps_try in_calm.keeps_outside opened) simp_all
qed

lemma launch_left_over:
  assumes "iv_id item \<in> W"
  shows "triple (calm W P) (launch parts item sn) (left_over (W - P - {iv_id item})) (\<lambda>_. True)"
  unfolding launch_def using assms
  by (intro calm_after triple_cases triple_errors marked_left_over triple_fail open_item_left_over parked_left_over keeps_try keeps_look
      in_calm.keeps_read_work in_calm.keeps_ensure named_waiting) simp_all

lemma turn_waits:
  assumes "next_turn_of parked s = Inr (ReadyTurn item)"
  shows "iv_id item \<in> waiting_ids s - parked"
proof -
  let ?s = "tx_begin s"
  obtain t where "next_turn_in parked ?s = Inr (ReadyTurn item, t)"
    using assms by (auto simp: next_turn_of_def in_read_def split: sum.splits)
  then have "first_ready parked (queued_task_ids (items_in_order ?s)) [] (filter (\<lambda>c. qi_state c = Queued) (items_in_order ?s)) ?s
      = Inr (ReadyTurn item, t)"
    by (simp add: next_turn_in_def tx_bind_Inr)
  from first_ready_run [OF this] obtain before row after
    where found: "filter (\<lambda>c. qi_state c = Queued) (items_in_order ?s) = before @ row # after" "iv_id item = qi_id row" "qi_id row \<notin> parked"
    by auto
  have "row \<in> set (filter (\<lambda>c. qi_state c = Queued) (items_in_order ?s))" using found(1) by simp
  then show ?thesis using found(2,3) by (auto simp: waiting_ids_def tx_begin_def items_in_order_def)
qed

lemma calm_read:
  assumes "undisturbed w"
  shows "p_bind (p_read f) g w = (case f (w_db w) of Inl e \<Rightarrow> (Inl e, w) | Inr x \<Rightarrow> g x w)"
proof -
  have "w\<lparr>w_db := w_db w, w_others := stl (w_others w)\<rparr> = w" using assms by (cases w) (simp add: undisturbed_def)
  then have "p_read f w = (f (w_db w), w)" using assms by (simp add: p_read_def p_call_def undisturbed_def)
  then show ?thesis by (simp add: p_bind_def)
qed

lemma take_turn_again:
  assumes "undisturbed w" "store_ok (w_db w)" and turn: "next_turn_of (wk_parked w) (w_db w) = Inr turn"
    and again: "\<And>w'. \<lbrakk>undisturbed w'; store_ok (w_db w'); card (still_waiting w') < card (still_waiting w)\<rbrakk> \<Longrightarrow> m w' = m' w'"
  shows "take_turn parts sn busy m turn w = take_turn parts sn busy m' turn w"
proof (cases turn)
  case (ReadyTurn item)
  let ?W = "waiting_ids (w_db w)" and ?P = "wk_parked w"
  have calm: "calm ?W ?P w" using assms by (simp add: calm_def)
  have item: "iv_id item \<in> ?W - ?P" using turn_waits turn ReadyTurn by blast
  have "finite (still_waiting w)" by (simp add: still_waiting_def waiting_ids_def)
  then have less: "card (still_waiting w') < card (still_waiting w)" if "left_over (?W - ?P - {iv_id item}) w'" for w'
    using that item by (intro psubset_card_mono) (auto simp: left_over_def still_waiting_def)
  have "p_bind (launch parts item sn) (\<lambda>_. m) w' = p_bind (launch parts item sn) (\<lambda>_. m') w'" if "calm ?W ?P w'" for w'
  proof (rule bind_cong)
    fix x w'' assume "launch parts item sn w' = (Inr x, w'')"
    then have left: "left_over (?W - ?P - {iv_id item}) w''" using triple_Inr [OF launch_left_over that] item by blast
    then show "m w'' = m' w''" using less by (intro again) (auto simp: left_over_def)
  qed
  then show ?thesis unfolding take_turn_def ReadyTurn next_turn.case
    using triple_Inr [OF in_calm.keeps_read_ceiling [OF waiting_ids_table, unfolded triple_keeps] calm] by (intro bind_cong) auto
qed (simp_all add: take_turn_def)

lemma advance_rounds_enough:
  fixes parts :: "'h worker_parts"
  assumes "undisturbed w" "store_ok (w_db w)" "card (still_waiting w) < n" "card (still_waiting w) < m"
  shows "advance_rounds parts n w = advance_rounds parts m w"
  using assms
proof (induction n arbitrary: m w)
  case (Suc n)
  then obtain m' where m: "m = Suc m'" by (cases m) auto
  have "take_turn parts sn busy (advance_rounds parts n) turn w = take_turn parts sn busy (advance_rounds parts m') turn w"
    if "next_turn_of (wk_parked w) (w_db w) = Inr turn" for sn busy turn
  proof (rule take_turn_again [OF Suc.prems(1,2) that])
    fix w' :: "'h worker"
    assume "undisturbed w'" "store_ok (w_db w')" "card (still_waiting w') < card (still_waiting w)"
    then show "advance_rounds parts n w' = advance_rounds parts m' w'" using Suc.prems(3,4) m by (intro Suc.IH) simp_all
  qed
  then show ?case unfolding m advance_rounds.simps
    using Suc.prems by (simp add: calm_read gets_bind split: sum.split)
qed simp

end
