(* ===== verification/Step_Properties.thy ===== *)
theory Step_Properties
  imports Step_Facts Samples
begin

section \<open>What the checklist operations do\<close>

text \<open>
  The functional behaviour of the operations of \<open>Steps\<close> on success: the order a move gives the
  checklist, what a deletion takes along, which steps a session may move and to which state, and
  what a proposal may add.
\<close>

subsection \<open>Moving a step\<close>

lemma clamp_index_eq: "len \<le> 2 ^ 31 - 1 \<Longrightarrow> clamp_index position len = nat (min (max position 0) (int len))"
  by (simp add: clamp_index_def as_i32_id as_usize_id)

text \<open>The order a move asks for: \<open>r\<close> at the given index among the others, drafts last.\<close>

definition moved_order :: "int \<Rightarrow> task_step \<Rightarrow> task_step list \<Rightarrow> task_step list" where
  "moved_order position r all =
     (let others = filter (\<lambda>c. ts_id c \<noteq> ts_id r) all;
          k = nat (min (max position 0) (int (length others)));
          wanted = take k others @ r # drop k others
      in filter (\<lambda>c. ts_state c \<noteq> Draft) wanted @ filter (\<lambda>c. ts_state c = Draft) wanted)"

lemma step_move_to_run:
  assumes "step_move_to i position s = (Inr views, t)" and "find_step i s = Some r"
  defines "others \<equiv> filter (\<lambda>c. ts_id c \<noteq> i) (steps_of (ts_task_id r) s)"
  obtains x t' where "settle_drafts_at_tail (insert_at (clamp_index position (length others)) r others) (tx_begin s) = Inr (x, t')"
    and "task_steps t = task_steps t'"
  using assms(1,2) that
  by (auto simp: step_move_to_def in_write_Inr step_move_to_in_def Let_def tx_bind_Inr step_require_def
      tx_begin_def others_def publish_steps_in_def tx_publish_def tx_commit_def
      dest!: reads_views [unfolded reads_def, rule_format])

text \<open>
  C6. Moving a step: the checklist then reads as the other steps in their order with the step
  inserted at the asked index (clamped into the list), every draft after every other step, and
  the positions are 0, 1, 2, \<dots>; the checklists of other tasks do not change.
\<close>

theorem step_move_to_order:
  assumes "step_move_to i position s = (Inr views, t)" and "steps_ok s" and "find_step i s = Some r"
    and "length (steps_of (ts_task_id r) s) < 2 ^ 31"
  shows "map ts_id (steps_of (ts_task_id r) t) = map ts_id (moved_order position r (steps_of (ts_task_id r) s))
    \<and> map ts_position (steps_of (ts_task_id r) t) = map int [0..<length (steps_of (ts_task_id r) t)]
    \<and> (\<forall>j. j \<noteq> ts_task_id r \<longrightarrow> steps_of j t = steps_of j s)"
proof -
  let ?others = "filter (\<lambda>c. ts_id c \<noteq> i) (steps_of (ts_task_id r) s)"
  let ?k = "clamp_index position (length ?others)"
  let ?wanted = "insert_at ?k r ?others"
  have r: "r \<in> set (task_steps (tx_begin s))" "ts_id r = i"
    using find_step_Some [OF assms(3)] by (auto simp: tx_begin_def)
  have ok: "steps_ok (tx_begin s)" and same: "steps_of j (tx_begin s) = steps_of j s" for j
    using assms(2) by (simp_all add: tx_begin_def)
  have n: "length ?others < 2 ^ 31" by (rule le_less_trans [OF length_filter_le assms(4)])
  then have k: "?k = nat (min (max position 0) (int (length ?others)))" by (simp add: clamp_index_eq)
  obtain x t' where run: "settle_drafts_at_tail ?wanted (tx_begin s) = Inr (x, t')" and t: "task_steps t = task_steps t'"
    by (rule step_move_to_run [OF assms(1,3)])
  have st: "steps_of j t = steps_of j t'" for j using t by (simp add: steps_of_def)
  note moved = moved_checklist [OF steps_okD(1) [OF ok] r(1), of ?k, unfolded r(2) same]
  have size: "length ?wanted \<le> 2 ^ 31" using n k by (simp add: insert_at_def)
  note settled = settle_Inr [OF run ok moved size]
  have "filter (\<lambda>c. \<not> draft (ts_state c)) ?wanted @ filter (\<lambda>c. draft (ts_state c)) ?wanted
      = moved_order position r (steps_of (ts_task_id r) s)"
    by (simp add: moved_order_def Let_def insert_at_def draft_def k r(2))
  then show ?thesis using settled(1-3) same st by (metis length_map map_nth length_upt minus_nat.diff_0)
qed

lemma sample_db_ok: "steps_ok sample_db"
proof -
  have "rows_ok sample_db"
    by (simp add: rows_ok_def run_defs step_moments_ok_def)
  moreover have "dense i sample_db" for i
    by (cases "i = 2") (simp_all add: dense_def positions_of_def run_defs)
  ultimately show ?thesis by (simp add: steps_ok_def)
qed

lemma sample_steps:
  "find_step 10 sample_db = Some claimed_step" "find_step 11 sample_db = Some open_step"
  "find_step 12 sample_db = Some draft_step" "steps_of 2 sample_db = [claimed_step, open_step, draft_step]"
  "ts_task_id open_step = 2" "ts_task_id claimed_step = 2" "ts_task_id draft_step = 2"
  by (simp_all add: run_defs)

theorem step_move_to_order_witness:
  "\<exists>views t. step_move_to 12 0 sample_db = (Inr views, t) \<and> map ts_id (steps_of 2 t) = [10, 11, 12]
    \<and> map ts_position (steps_of 2 t) = map int [0..<length (steps_of 2 t)] \<and> steps_of 3 t = steps_of 3 sample_db"
proof -
  have "\<exists>views t. step_move_to 12 0 sample_db = (Inr views, t)" by (simp add: run_defs)
  then obtain views t where run: "step_move_to 12 0 sample_db = (Inr views, t)" by blast
  show ?thesis
    using step_move_to_order [OF run sample_db_ok sample_steps(3)] run
    by (simp add: sample_steps moved_order_def) (simp add: run_defs)
qed

subsection \<open>A session's moves\<close>

lemma save_marked_Inr:
  assumes "save_marked st before s = Inr (x, t)" "steps_ok s" "before \<in> set (task_steps s)"
  shows "\<exists>m u. x = (mark_state m st before)\<lparr>ts_updated_at := u\<rparr>"
    and "t = s\<lparr>task_steps := replace_row ts_id x (task_steps s), clock := stl (stl (clock s))\<rparr>"
  using wpD [OF wp_save_marked [OF step_frame_refl [OF assms(2)] assms(3), where Q = "\<lambda>x t. (\<exists>m u. x = (mark_state m st before)\<lparr>ts_updated_at := u\<rparr>) \<and>
    t = s\<lparr>task_steps := replace_row ts_id x (task_steps s), clock := stl (stl (clock s))\<rparr>"] assms(1)]
  by blast+

lemma transition_in_Inr:
  assumes "transition_in u tk reference target s = Inr (x, t)"
  obtains r where "target \<noteq> Done" "resolve_step u (tk_id tk) reference s = Inr (r, s)"
    "ts_state r \<noteq> Draft" "ts_state r \<noteq> Done" "save_marked target r s = Inr (x, t)"
proof -
  have target: "target \<noteq> Done" using assms by (auto simp: transition_in_def)
  then obtain r s' where r: "resolve_step u (tk_id tk) reference s = Inr (r, s')"
    and rest: "(if ts_state r = Draft then tx_fail (IllegalArgument (Msg ''is still a draft'' [ts_title r]))
        else if ts_state r = Done then tx_fail (IllegalArgument (Msg ''is already done'' [ts_title r]))
        else save_marked target r) s' = Inr (x, t)"
    using assms by (auto simp: transition_in_def tx_bind_Inr)
  have "s' = s" by (rule resolve_step_Inr(1) [OF r])
  then show thesis using that target r rest by (auto split: if_splits)
qed

lemma find_step_replace:
  assumes "rows_ok s" "task_steps t = replace_row ts_id x (task_steps s)" "ts_id x = ts_id r" "r \<in> set (task_steps s)"
  shows "find_step i t = (if i = ts_id r then Some x else find_step i s)"
  using assms find_row_key [of ts_id "task_steps s" r]
  by (auto simp: find_step_def find_replace_row rows_ok_def)

lemma view_in_Inr: "view_in r s = Inr (v, s') \<Longrightarrow> tv_id v = ts_id r \<and> tv_state v = ts_state r \<and> s' = s"
  by (auto simp: view_in_def tx_bind_Inr dest!: step_view_of_Inr)

lemma publish_steps_Inr: "publish_steps_in i s = Inr (x, t) \<Longrightarrow> \<exists>ev. t = s\<lparr>events := ev\<rparr>"
  using wp_publish_steps [where Q = "\<lambda>_ t. \<exists>ev. t = s\<lparr>events := ev\<rparr>" and s = s and i = i] by (auto simp: wp_def)

lemma tx_begin_reads [simp]:
  "steps_of i (tx_begin s) = steps_of i s" "find_step i (tx_begin s) = find_step i s"
  "task_steps (tx_begin s) = task_steps s" "tasks (tx_begin s) = tasks s" "steps_ok (tx_begin s) = steps_ok s"
  "step_links (tx_begin s) = step_links s" "step_visits (tx_begin s) = step_visits s"
  by (simp_all add: tx_begin_def)

lemma tx_commit_reads [simp]:
  "steps_of i (tx_commit s) = steps_of i s" "find_step i (tx_commit s) = find_step i s"
  "task_steps (tx_commit s) = task_steps s" "tasks (tx_commit s) = tasks s" "steps_ok (tx_commit s) = steps_ok s"
  "step_links (tx_commit s) = step_links s" "step_visits (tx_commit s) = step_visits s"
  by (simp_all add: tx_commit_def steps_of_def find_step_def table_invariantD(5) [OF steps_ok_table(1), unfolded tx_commit_def])

text \<open>
  C7. A session's transition never accepts work and never touches a draft or an accepted step:
  when it succeeds the target is not \<open>Done\<close>, the step it moved was neither \<open>Draft\<close> nor \<open>Done\<close>,
  that step is now in the target state with its title, detail and place unchanged, and every
  other step is as it was.
\<close>

theorem step_transition_safe:
  assumes "step_transition u pl label reference target s = (Inr view, t)" and "steps_ok s"
  shows "target \<noteq> Done \<and> tv_state view = target \<and>
    (\<exists>before after. find_step (tv_id view) s = Some before \<and> find_step (tv_id view) t = Some after
       \<and> ts_state before \<notin> {Draft, Done} \<and> ts_state after = target
       \<and> ts_title after = ts_title before \<and> ts_body_markdown after = ts_body_markdown before
       \<and> ts_position after = ts_position before \<and> ts_task_id after = ts_task_id before)
    \<and> (\<forall>i. i \<noteq> tv_id view \<longrightarrow> find_step i t = find_step i s)"
proof -
  obtain tk saved t1 t2 where run: "transition_in u tk reference target (tx_begin s) = Inr (saved, t1)"
    and view: "tv_id view = ts_id saved" "tv_state view = ts_state saved"
    and t: "t = tx_commit t2" "task_steps t2 = task_steps t1"
    using assms(1) unfolding step_transition_def in_write_Inr step_transition_in_def tx_bind_Inr
    by (force dest!: resolve_task_Inr(1) view_in_Inr publish_steps_Inr)
  obtain r where target: "target \<noteq> Done" and r: "resolve_step u (tk_id tk) reference (tx_begin s) = Inr (r, tx_begin s)"
    and state: "ts_state r \<noteq> Draft" "ts_state r \<noteq> Done"
    and save: "save_marked target r (tx_begin s) = Inr (saved, t1)"
    by (rule transition_in_Inr [OF run])
  have mem: "r \<in> set (task_steps (tx_begin s))" by (rule resolve_step_Inr(2) [OF r])
  obtain m w where saved: "saved = (mark_state m target r)\<lparr>ts_updated_at := w\<rparr>"
    and t1: "task_steps t1 = replace_row ts_id saved (task_steps s)"
    using save_marked_Inr [OF save _ mem] assms(2) by auto
  have found: "find_step i t = (if i = ts_id r then Some saved else find_step i s)" for i
    using find_step_replace [of s t saved r i] assms(2) mem saved t t1 by (simp add: steps_okD)
  have "find_step (ts_id r) s = Some r"
    using find_row_key [of ts_id "task_steps s" r] mem steps_okD(3) [OF assms(2)] by (simp add: find_step_def)
  then show ?thesis using found view saved state target by auto
qed

theorem step_transition_safe_witness:
  "\<exists>view t. step_transition ascii_case (Some (lit ''p'')) (lit ''t'') (Some (lit ''B'')) Running sample_db = (Inr view, t)
    \<and> tv_state view = Running \<and> find_step 10 t = find_step 10 sample_db"
proof -
  have "\<exists>view t. step_transition ascii_case (Some (lit ''p'')) (lit ''t'') (Some (lit ''B'')) Running sample_db = (Inr view, t)
      \<and> tv_id view = 11"
    by (simp add: run_defs)
  then obtain view t where
    run: "step_transition ascii_case (Some (lit ''p'')) (lit ''t'') (Some (lit ''B'')) Running sample_db = (Inr view, t)"
    and "tv_id view = 11" by blast
  then show ?thesis using step_transition_safe [OF run sample_db_ok] by (intro exI [of _ view] exI [of _ t]) auto
qed

subsection \<open>Deleting a step\<close>

lemma delete_in_Inr:
  assumes run: "delete_in r s = Inr (x, t)" and ok: "steps_ok s" and r: "r \<in> set (task_steps s)"
    and size: "length (steps_of (ts_task_id r) s) \<le> 2 ^ 31"
  defines "left \<equiv> filter (\<lambda>c. ts_id c \<noteq> ts_id r) (steps_of (ts_task_id r) s)"
  shows "map ts_id (steps_of (ts_task_id r) t) = map ts_id left"
    "map ts_position (steps_of (ts_task_id r) t) = map int [0..<length left]"
    "j \<noteq> ts_task_id r \<Longrightarrow> steps_of j t = steps_of j s"
    "step_links t = filter (\<lambda>l. sl_from_step_id l \<noteq> ts_id r \<and> sl_to_step_id l \<noteq> Some (ts_id r)) (step_links s)"
    "step_visits t = filter (\<lambda>v. sv_step_id v \<noteq> ts_id r) (step_visits s)"
proof -
  let ?s = "s\<lparr>task_steps := filter (\<lambda>q. ts_id q \<noteq> ts_id r) (task_steps s),
    step_links := filter (\<lambda>l. sl_from_step_id l \<noteq> ts_id r \<and> sl_to_step_id l \<noteq> Some (ts_id r)) (step_links s),
    step_visits := filter (\<lambda>v. sv_step_id v \<noteq> ts_id r) (step_visits s)\<rparr>"
  obtain y where ren: "renumber (steps_of (ts_task_id r) ?s) ?s = Inr (y, t)"
    using run by (auto simp: delete_in_def tx_bind_Inr delete_step_row_def)
  have rok: "rows_ok ?s" and dok: "\<And>j. j \<noteq> ts_task_id r \<Longrightarrow> dense j ?s"
    using rows_ok_delete [OF steps_okD(1) [OF ok] steps_okD(2) [OF ok] r refl refl] by blast+
  have whole: "set (steps_of (ts_task_id r) ?s) = {q \<in> set (task_steps ?s). ts_task_id q = ts_task_id r}" by auto
  note dist = distinct_steps_of [OF rok, of "ts_task_id r"]
  have left: "steps_of (ts_task_id r) ?s = left"
    by (simp add: steps_of_def left_def filter_sort conj_commute)
  have n: "length left \<le> 2 ^ 31" using size length_filter_le order_trans unfolding left_def by blast
  show "map ts_id (steps_of (ts_task_id r) t) = map ts_id left"
    "map ts_position (steps_of (ts_task_id r) t) = map int [0..<length left]"
    using renumber_Inr(3,4) [OF ren rok dok whole dist] n unfolding left by simp_all
  obtain rs ck where t: "t = ?s\<lparr>task_steps := rs, clock := ck\<rparr>"
    using renumber_rows_ok(4) [OF ren rok whole dist] by blast
  then show "step_links t = filter (\<lambda>l. sl_from_step_id l \<noteq> ts_id r \<and> sl_to_step_id l \<noteq> Some (ts_id r)) (step_links s)"
    "step_visits t = filter (\<lambda>v. sv_step_id v \<noteq> ts_id r) (step_visits s)" by simp_all
  assume j: "j \<noteq> ts_task_id r"
  have "filter (\<lambda>q. ts_task_id q = j \<and> ts_id q \<noteq> ts_id r) (task_steps s) = filter (\<lambda>q. ts_task_id q = j) (task_steps s)"
    using ok r j by (intro filter_cong) (auto simp: steps_ok_def rows_ok_def distinct_map inj_on_def)
  then have "steps_of j ?s = steps_of j s" by (simp add: steps_of_def conj_commute)
  then show "steps_of j t = steps_of j s" using renumber_rows_ok(6) [OF ren rok whole dist j] by simp
qed

text \<open>
  C40. Deleting a step takes its routes (at either end) and its visits along and nothing else of
  them; the rest of its checklist keeps its order and closes up to positions 0, 1, 2, \<dots>; the
  checklists of other tasks do not change.
\<close>

theorem step_delete_takes_along:
  assumes "step_delete i s = (Inr u, t)" and "steps_ok s" and "find_step i s = Some r"
    and "length (steps_of (ts_task_id r) s) \<le> 2 ^ 31"
  shows "map ts_id (steps_of (ts_task_id r) t) = filter (\<lambda>k. k \<noteq> i) (map ts_id (steps_of (ts_task_id r) s))
    \<and> map ts_position (steps_of (ts_task_id r) t) = map int [0..<length (steps_of (ts_task_id r) t)]
    \<and> (\<forall>j. j \<noteq> ts_task_id r \<longrightarrow> steps_of j t = steps_of j s)
    \<and> step_links t = filter (\<lambda>l. sl_from_step_id l \<noteq> i \<and> sl_to_step_id l \<noteq> Some i) (step_links s)
    \<and> step_visits t = filter (\<lambda>v. sv_step_id v \<noteq> i) (step_visits s)"
proof -
  have r: "r \<in> set (task_steps (tx_begin s))" "ts_id r = i" using find_step_Some [OF assms(3)] by simp_all
  obtain x t1 ev where run: "delete_in r (tx_begin s) = Inr (x, t1)" and t: "t = tx_commit (t1\<lparr>events := ev\<rparr>)"
    using assms(1,3) unfolding step_delete_def in_write_Inr step_delete_in_def
    by (auto simp: tx_bind_Inr dest!: publish_steps_Inr)
  have "map ts_id (filter (\<lambda>c. ts_id c \<noteq> i) cs) = filter (\<lambda>k. k \<noteq> i) (map ts_id cs)" for cs
    by (induction cs) auto
  moreover have "length (steps_of (ts_task_id r) t1) = length (filter (\<lambda>c. ts_id c \<noteq> ts_id r) (steps_of (ts_task_id r) (tx_begin s)))"
    using delete_in_Inr(1) [OF run _ r(1)] assms(2,4) by (metis length_map tx_begin_reads(1,5))
  ultimately show ?thesis
    using delete_in_Inr [OF run _ r(1)] assms(2,4) r(2) t by simp
qed

theorem step_delete_takes_along_witness:
  "\<exists>t. step_delete 10 sample_db = (Inr (), t) \<and> map ts_id (steps_of 2 t) = [11, 12]
    \<and> map ts_position (steps_of 2 t) = map int [0..<length (steps_of 2 t)]"
proof -
  have "\<exists>u t. step_delete 10 sample_db = (Inr u, t)" by (simp add: run_defs)
  then obtain t where run: "step_delete 10 sample_db = (Inr (), t)" by auto
  show ?thesis
    using step_delete_takes_along [OF run sample_db_ok sample_steps(1)] run
    by (simp add: sample_steps) (simp add: run_defs)
qed

subsection \<open>Sending a claimed step back\<close>

text \<open>
  Sending a step back is possible exactly from \<open>Claimed\<close>: the step is open again with an
  empty detail, the detail it had is kept as the last of its passes, earlier passes and every
  other step are as they were.
\<close>

theorem send_back_keeps_pass:
  assumes "send_back i s = (Inr view, t)" and "steps_ok s"
  shows "\<exists>before after ps now. find_step i s = Some before \<and> find_step i t = Some after
    \<and> ts_state before = Claimed \<and> ts_state after = Open \<and> ts_body_markdown after = None
    \<and> ts_passes before = Some ps
    \<and> ts_passes after = Some (ps @ [\<lparr>sp_detail_markdown = ts_body_markdown before, sp_sent_back_at = now\<rparr>])
    \<and> (\<forall>j. j \<noteq> i \<longrightarrow> find_step j t = find_step j s)"
proof -
  obtain before now moment sent saved s1 t1 ev
    where found: "find_step i s = Some before" and sent: "step_send_back moment now before = Inr sent"
      and s1: "s1 = (tx_begin s)\<lparr>clock := stl (stl (clock (tx_begin s)))\<rparr>"
      and save: "save_step before sent s1 = Inr (saved, t1)" and t: "t = tx_commit (t1\<lparr>events := ev\<rparr>)"
    using assms(1) unfolding send_back_def in_write_Inr step_send_back_in_def
    by (auto simp: tx_bind_Inr step_require_def ctx_now_def dest!: view_in_Inr publish_steps_Inr split: option.splits)
  note facts = step_send_back_Inr [OF sent]
  have mem: "before \<in> set (task_steps s)" "ts_id before = i" using find_step_Some [OF found] by auto
  have "distinct (map ts_id (task_steps s1))" "before \<in> set (task_steps s1)"
    using steps_okD(3) [OF assms(2)] mem s1 by simp_all
  from save_step_Inr [OF save this facts(5)] obtain w
    where saved: "saved = sent\<lparr>ts_updated_at := w\<rparr>" and "t1 = s1\<lparr>task_steps := replace_row ts_id saved (task_steps s1), clock := stl (clock s1)\<rparr>"
    by metis
  then have t1: "task_steps t1 = replace_row ts_id saved (task_steps s)" by (simp add: s1)
  have "find_step j t = (if j = i then Some saved else find_step j s)" for j
    using find_step_replace [of s t saved before j] steps_okD(1) [OF assms(2)] mem facts saved t t1 by simp
  moreover obtain ps where "ts_passes before = Some ps"
    using sent by (auto simp: step_send_back_def step_passes_def split: if_splits option.splits)
  ultimately show ?thesis using found facts saved by simp
qed

theorem send_back_keeps_pass_witness:
  "\<exists>view t. send_back 10 sample_db = (Inr view, t) \<and> map_option ts_state (find_step 10 t) = Some Open
    \<and> find_step 11 t = find_step 11 sample_db"
proof -
  have "\<exists>view t. send_back 10 sample_db = (Inr view, t)" by (simp add: run_defs)
  then obtain view t where run: "send_back 10 sample_db = (Inr view, t)" by blast
  show ?thesis using send_back_keeps_pass [OF run sample_db_ok] run by auto
qed

end
