(* ===== verification/Flow_Properties.thy ===== *)
theory Flow_Properties
  imports Flow_Facts Step_Properties
begin

section \<open>What the flow operations do\<close>

text \<open>
  Functional and safety properties of \<open>Flow\<close>: how a claimed step chooses its route, what a
  session's routed move may and may not change, and what the progress of a task shows.
\<close>

subsection \<open>Choosing a route\<close>

lemma find_first:
  "List.find P xs = Some x \<longleftrightarrow> (\<exists>before after. xs = before @ x # after \<and> P x \<and> (\<forall>y \<in> set before. \<not> P y))"
proof
  show "List.find P xs = Some x \<Longrightarrow> \<exists>before after. xs = before @ x # after \<and> P x \<and> (\<forall>y \<in> set before. \<not> P y)"
  proof (induction xs)
    case (Cons a xs)
    show ?case
    proof (cases "P a")
      case False
      then obtain before after where "xs = before @ x # after" "P x" "\<forall>y \<in> set before. \<not> P y"
        using Cons by auto
      then show ?thesis using False by (intro exI [of _ "a # before"] exI [of _ after]) auto
    next
      case True
      then show ?thesis using Cons.prems by (intro exI [of _ "[]"] exI [of _ xs]) auto
    qed
  qed simp
  have "List.find P (before @ x # after) = Some x" if "P x" "\<forall>y \<in> set before. \<not> P y" for before after
    using that by (induction before) auto
  then show "\<exists>before after. xs = before @ x # after \<and> P x \<and> (\<forall>y \<in> set before. \<not> P y) \<Longrightarrow> List.find P xs = Some x"
    by blast
qed

text \<open>
  Which route a claimed step leaves by: a named outcome takes the first route out that
  carries it and fails when none does; without an outcome the only route is taken, no route at
  all ends the flow, and several routes are refused.
\<close>

theorem choose_route_iff:
  "choose_route title outgoing outcome = Inr chosen \<longleftrightarrow>
     (case outcome of
        Some oc \<Rightarrow> (\<exists>before link after. outgoing = before @ link # after \<and> sl_outcome link = oc
                       \<and> oc \<notin> sl_outcome ` set before \<and> chosen = Some link)
      | None \<Rightarrow> outgoing = [] \<and> chosen = None \<or> (\<exists>link. outgoing = [link] \<and> chosen = Some link))"
proof (cases outcome)
  case None
  then show ?thesis by (auto simp: choose_route_def route_without_outcome_def split: list.splits)
next
  case (Some oc)
  have "List.find (\<lambda>link. sl_outcome link = oc) outgoing = Some link \<longleftrightarrow>
      (\<exists>before after. outgoing = before @ link # after \<and> sl_outcome link = oc \<and> oc \<notin> sl_outcome ` set before)" for link
  proof -
    have "(\<forall>y \<in> set before. sl_outcome y \<noteq> oc) \<longleftrightarrow> oc \<notin> sl_outcome ` set before" for before :: "step_link list" by auto
    then show ?thesis unfolding find_first by simp
  qed
  note first = this
  have "choose_route title outgoing outcome = Inr chosen \<longleftrightarrow>
      (\<exists>link. List.find (\<lambda>link. sl_outcome link = oc) outgoing = Some link \<and> chosen = Some link)"
    using Some by (auto simp: choose_route_def route_named_def res_bind_Inr split: option.splits)
  then show ?thesis unfolding first using Some by auto
qed

subsection \<open>A session's move through the flow\<close>

lemma flow_run_committed:
  assumes "flow_transition u pl label reference target outcome report s = (Inr mv, t)" and "flow_ok s"
  shows "flow_run s t"
proof -
  have "table_invariant (flow_run s)" by (rule flow_run_table)
  from in_write_invariant [OF this flow_run_transition flow_run_refl [OF assms(2)]]
  show ?thesis using assms(1) unfolding flow_transition_def by (metis snd_conv)
qed

text \<open>
  C4. The visit budget holds: whenever a session's move counts one more visit of a step, that
  step has not been entered more often than its budget allows.
\<close>

theorem flow_budget_respected:
  assumes "flow_transition u pl label reference target outcome report s = (Inr mv, t)" and "flow_ok s"
    and "r \<in> set (task_steps t)" and "ts_max_visits r = Some cap"
    and "count_visits_of_step (ts_id r) s < count_visits_of_step (ts_id r) t"
  shows "count_visits_of_step (ts_id r) t \<le> as_usize cap"
  using flow_run_committed [OF assms(1,2)] assms(3-5) by (force simp: flow_run_def budget_kept_def)

lemma flow_db_ok: "flow_ok flow_db"
proof -
  have "rows_ok flow_db"
    by (simp add: rows_ok_def run_defs step_moments_ok_def)
  moreover have "dense i flow_db" for i
    by (cases "i = 2") (simp_all add: dense_def positions_of_def run_defs)
  moreover have "links_ok flow_db"
    by (simp add: links_ok_def step_keys_def run_defs)
  moreover have "visits_ok flow_db"
    by (simp add: visits_ok_def step_keys_def open_visits_def run_defs)
  ultimately show ?thesis by (simp add: flow_ok_def steps_ok_def)
qed

text \<open>The open step claimed with its outcome: the flow enters the budgeted step a second time.\<close>

lemma flow_db_claim:
  "\<exists>mv t. flow_transition ascii_case (Some (lit ''p'')) (lit ''t'') (Some (lit ''b'')) Claimed (Some (lit ''OK'')) None flow_db
      = (Inr mv, t) \<and> task_steps t \<noteq> [] \<and> ts_id (hd (task_steps t)) = 10 \<and> ts_max_visits (hd (task_steps t)) = Some 2
     \<and> count_visits_of_step 10 flow_db = 1 \<and> count_visits_of_step 10 t = 2"
  by (simp add: run_defs)

theorem flow_budget_respected_witness:
  "\<exists>mv t. flow_transition ascii_case (Some (lit ''p'')) (lit ''t'') (Some (lit ''b'')) Claimed (Some (lit ''OK'')) None flow_db
      = (Inr mv, t) \<and> count_visits_of_step 10 t \<le> as_usize 2"
proof -
  obtain mv t where run: "flow_transition ascii_case (Some (lit ''p'')) (lit ''t'') (Some (lit ''b'')) Claimed
        (Some (lit ''OK'')) None flow_db = (Inr mv, t)"
    and r: "task_steps t \<noteq> []" "ts_id (hd (task_steps t)) = 10" "ts_max_visits (hd (task_steps t)) = Some 2"
      "count_visits_of_step 10 flow_db = 1" "count_visits_of_step 10 t = 2"
    using flow_db_claim by blast
  show ?thesis
    using flow_budget_respected [OF run flow_db_ok hd_in_set [OF r(1)] r(3)] r run by auto
qed

text \<open>
  C5. A session moving through a flow, however its claims are routed, never accepts a step
  (whatever is \<open>Done\<close> afterwards was the same row, accepted, before), never changes a draft, and
  leaves the flow well formed with at most one open visit per task.
\<close>

theorem flow_transition_safe:
  assumes "flow_transition u pl label reference target outcome report s = (Inr mv, t)" and "flow_ok s"
  shows "(\<forall>r. r \<in> set (task_steps t) \<and> ts_state r = Done \<longrightarrow> r \<in> set (task_steps s))
    \<and> (\<forall>r. r \<in> set (task_steps s) \<and> ts_state r = Draft \<longrightarrow> r \<in> set (task_steps t))
    \<and> flow_ok t \<and> (\<forall>i. length (open_visits i t) \<le> 1)"
  using flow_run_committed [OF assms] by (auto simp: flow_run_def session_safe_def flow_ok_def visits_ok_def)

theorem flow_transition_safe_witness:
  "\<exists>mv t. flow_transition ascii_case (Some (lit ''p'')) (lit ''t'') (Some (lit ''b'')) Claimed (Some (lit ''OK'')) None flow_db
      = (Inr mv, t) \<and> draft_step \<in> set (task_steps t) \<and> length (open_visits 2 t) \<le> 1"
proof -
  obtain mv t where run: "flow_transition ascii_case (Some (lit ''p'')) (lit ''t'') (Some (lit ''b'')) Claimed
        (Some (lit ''OK'')) None flow_db = (Inr mv, t)"
    using flow_db_claim by blast
  have "draft_step \<in> set (task_steps flow_db)" "ts_state draft_step = Draft" by (simp_all add: run_defs)
  then show ?thesis using flow_transition_safe [OF run flow_db_ok] run by blast
qed

subsection \<open>Progress\<close>

definition released_of :: "task_step list \<Rightarrow> task_step list" where
  "released_of steps = filter (\<lambda>r. ts_state r \<noteq> Draft) steps"

definition flow_over :: "task_step list \<Rightarrow> step_visit list \<Rightarrow> step_link list \<Rightarrow> bool" where
  "flow_over steps visits links \<longleftrightarrow>
     carries_routes links (released_of steps) \<and> flow_has_ended (released_of steps) visits"

lemma at_most_one_key:
  "distinct (map f xs) \<Longrightarrow> length (filter (\<lambda>x. k = Some (f x)) xs) \<le> 1"
  by (induction xs) (auto simp: filter_empty_conv image_iff)

text \<open>
  The progress a watcher sees: one entry per released step in checklist order; at most one
  is current, and none once the flow has ended; a step shows as not needed exactly when it is
  open, the flow has ended and no visit entered it.
\<close>

theorem progress_of_spec:
  assumes "distinct (map ts_id steps)"
  shows "map sg_title (progress_of steps visits links) = map ts_title (released_of steps)
    \<and> length (filter sg_current (progress_of steps visits links)) \<le> 1
    \<and> (flow_over steps visits links \<longrightarrow> filter sg_current (progress_of steps visits links) = [])
    \<and> (\<forall>k. k < length (released_of steps) \<longrightarrow>
          (sg_state (progress_of steps visits links ! k) = PNotNeeded \<longleftrightarrow>
             flow_over steps visits links \<and> ts_state (released_of steps ! k) = Open
             \<and> ts_id (released_of steps ! k) \<notin> sv_step_id ` set visits))"
proof -
  let ?released = "released_of steps" and ?over = "flow_over steps visits links"
  define current where "current = (if ?over then None else current_step ?released visits)"
  have p: "progress_of steps visits links = map (\<lambda>step. \<lparr>sg_title = ts_title step,
      sg_state = progress_state_of step ?over visits, sg_current = (current = Some (ts_id step))\<rparr>) ?released"
    by (simp add: progress_of_def Let_def released_of_def flow_over_def current_def draft_def)
  have d: "distinct (map ts_id ?released)" unfolding released_of_def by (rule distinct_map_filter [OF assms(1)])
  have "list_ex (\<lambda>v. sv_step_id v = i) visits \<longleftrightarrow> i \<in> sv_step_id ` set visits" for i by (auto simp: list_ex_iff)
  then have "progress_state_of r ?over visits = PNotNeeded \<longleftrightarrow>
      ?over \<and> ts_state r = Open \<and> ts_id r \<notin> sv_step_id ` set visits" if "r \<in> set ?released" for r
    using that by (cases "ts_state r") (simp_all add: progress_state_of_def released_of_def)
  then show ?thesis
    using at_most_one_key [OF d, of current] by (auto simp: p filter_map o_def current_def)
qed

theorem progress_of_spec_witness:
  "map sg_title (progress_of (task_steps flow_db) (step_visits flow_db) (step_links flow_db)) = [lit ''a'', lit ''b'']
    \<and> length (filter sg_current (progress_of (task_steps flow_db) (step_visits flow_db) (step_links flow_db))) \<le> 1"
proof -
  have "distinct (map ts_id (task_steps flow_db))" by (simp add: run_defs)
  from progress_of_spec [OF this, of "step_visits flow_db" "step_links flow_db"] show ?thesis
    by (simp add: released_of_def) (simp add: run_defs)
qed

end
