(* ===== verification/Worker_Properties.thy ===== *)
theory Worker_Properties
  imports Worker_Facts Flow_Properties
begin

section \<open>Properties of the worker\<close>

text \<open>
  What the worker promises whatever arrives in its inbox, that filling the free places comes to an end, and that a
  stop from the console always goes through.
\<close>

subsection \<open>Transactions that go through\<close>

definition runs :: "('s, 'a) tx \<Rightarrow> ('a \<Rightarrow> 's \<Rightarrow> bool) \<Rightarrow> 's \<Rightarrow> bool" where
  "runs m Q s \<longleftrightarrow> (\<exists>x t. m s = Inr (x, t) \<and> Q x t)"

lemma runsI: "m s = Inr (x, t) \<Longrightarrow> wp m Q s \<Longrightarrow> runs m Q s"
  by (auto simp: runs_def wp_def)

lemma runs_bind: "runs m (\<lambda>x. runs (f x) Q) s \<Longrightarrow> runs (tx_bind m f) Q s"
  by (auto simp: runs_def tx_bind_def)

lemma runs_gets: "runs (tx_gets f) Q s = Q (f s) s"
  by (simp add: runs_def tx_gets_def)

lemma runs_mono: "runs m Q s \<Longrightarrow> (\<And>x t. Q x t \<Longrightarrow> R x t) \<Longrightarrow> runs m R s"
  by (auto simp: runs_def)

lemma the_queue_runs:
  assumes "queue_frame base s"
  shows "runs the_queue (\<lambda>q t. queue_frame base t \<and> run_queues t = [q] \<and> row_ok q \<and> run_queue_items t = run_queue_items s) s"
proof -
  have "\<exists>q t. the_queue s = Inr (q, t)"
  proof (cases "oldest_queue s")
    case None
    moreover have "run_queues s = []" using None by (simp add: oldest_queue_None)
    ultimately show ?thesis
      by (simp add: the_queue_def tx_bind_def tx_gets_def ctx_now_def random_id_def insert_queue_def insert_row_def queue_ok_def)
  qed (simp add: the_queue_def tx_bind_def tx_gets_def tx_ok_def)
  then show ?thesis using assms by (auto intro!: runsI wp_the_queue)
qed

lemma move_item_runs:
  assumes "queue_frame base s" "(qi_id x, qi_task_id x, qi_position x) \<in> set (item_keys s)"
  shows "runs (move_item st reason x) (\<lambda>_ t. queue_frame base t \<and> item_keys t = item_keys s \<and> run_queues t = run_queues s
    \<and> (\<exists>m. run_queue_items t = replace_row qi_id (item_move_to m st reason x) (run_queue_items s))) s"
proof -
  have "qi_id x \<in> qi_id ` set (run_queue_items s)" "task_exists s (qi_task_id x)"
    using assms by (auto simp: item_keys_def queue_frame_def queue_wf_def items_ok_def)
  then have "\<exists>t. move_item st reason x s = Inr ((), t)"
    by (auto simp: move_item_def save_item_def tx_bind_def tx_ok_def ctx_now_def update_item_def update_row_def item_ok_def task_exists_def)
  then show ?thesis using assms by (auto intro!: runsI wp_move_item)
qed

definition running_in :: "id set \<Rightarrow> db \<Rightarrow> bool" where
  "running_in K s \<longleftrightarrow> (\<forall>item \<in> set (run_queue_items s). qi_state item = IRunning \<longrightarrow> qi_id item \<in> K)"

lemma move_items_runs:
  assumes "queue_frame base s" "\<forall>x \<in> set xs. (qi_id x, qi_task_id x, qi_position x) \<in> set (item_keys s)" "running_in (qi_id ` set xs) s"
    and "run_queues s = rows"
  shows "runs (tx_each (move_item Queued reason) xs) (\<lambda>_ t. queue_frame base t \<and> running_in {} t \<and> run_queues t = rows) s"
  using assms
proof (induction xs arbitrary: s)
  case (Cons x xs)
  have "runs (move_item Queued reason x) (\<lambda>_. runs (tx_each (move_item Queued reason) xs) (\<lambda>_ t. queue_frame base t \<and> running_in {} t \<and> run_queues t = rows)) s"
  proof (rule runs_mono [OF move_item_runs])
    fix u t
    assume t: "queue_frame base t \<and> item_keys t = item_keys s \<and> run_queues t = run_queues s
      \<and> (\<exists>m. run_queue_items t = replace_row qi_id (item_move_to m Queued reason x) (run_queue_items s))"
    then have "running_in (qi_id ` set xs) t" using Cons.prems(3) by (auto simp: running_in_def set_replace_row)
    then show "runs (tx_each (move_item Queued reason) xs) (\<lambda>_ t. queue_frame base t \<and> running_in {} t \<and> run_queues t = rows) t"
      using t Cons.prems(2,4) by (intro Cons.IH) auto
  qed (use Cons.prems in auto)
  then show ?case by (simp add: runs_bind)
qed (simp add: runs_def tx_ok_def)

lemma view_of_queue_total:
  assumes "tasks_ok s" "deps_ok s" "items_ok s"
  shows "\<exists>view. view_of_queue q s = Inr (view, s)"
proof -
  have "\<exists>ys. tx_map (\<lambda>item. item_view item (queued_task_ids (items_in_order s))) (items_in_order s) s = Inr (ys, s)"
    using assms item_view_total by (intro tx_map_total) (auto simp: items_ok_def items_in_order_def)
  then show ?thesis by (auto simp: view_of_queue_def tx_bind_def tx_gets_def tx_ok_def)
qed

lemma queue_publish_runs:
  assumes frame: "queue_frame base s" and base: "store_ok base"
    and one: "map rq_id (run_queues s) = [rq_id q]" and row: "row_ok q" "queue_validate q = Inr ()"
  shows "runs (queue_publish q) (\<lambda>_ t. \<exists>u. run_queues t = [q\<lparr>rq_updated_at := u\<rparr>] \<and> run_queue_items t = run_queue_items s) s"
proof -
  have "store_ok s" using frame base by (rule store_ok_queue_frame)
  then have ok: "tasks_ok s" "deps_ok s" "items_ok s" by (simp_all add: store_ok_def rest_ok_def queue_wf_def)
  let ?q = "q\<lparr>rq_updated_at := shd (clock s)\<rparr>"
  let ?t = "run_queues_update (replace_row rq_id ?q) (s\<lparr>clock := stl (clock s)\<rparr>)"
  have "tasks_ok ?t" "items_ok ?t" using ok by (simp_all add: tasks_ok_def task_ok_def items_ok_def task_exists_def)
  moreover have "deps_ok ?t" using ok(2) by (rule deps_ok_cong) (simp_all add: project_of_task_def find_task_def)
  ultimately obtain view where view: "view_of_queue ?q ?t = Inr (view, ?t)" using view_of_queue_total by blast
  have "queue_validate ?q = Inr ()" using row(2) by (simp add: queue_validate_def)
  moreover have "rq_id q \<in> rq_id ` set (run_queues s)" using one by (metis list.set_intros(1) list.set_map)
  ultimately have "\<exists>t. queue_publish q s = Inr (view, t)"
    using view by (simp add: queue_publish_def tx_bind_def ctx_now_def tx_lift_def update_queue_def update_row_def queue_ok_def tx_publish_def tx_modify_def tx_ok_def Let_def)
  then obtain t where "queue_publish q s = Inr (view, t)" by blast
  then show ?thesis by (rule runsI) (rule wp_queue_publish [OF frame one row(1)], blast)
qed

lemma queue_stop_runs:
  assumes "store_ok s"
  shows "runs (queue_stop_in reason) (\<lambda>_ t. running_in {} t \<and> (\<exists>q. run_queues t = [q] \<and> rq_state q = Idle)) (tx_begin s)"
  (is "runs _ ?Q _")
  unfolding queue_stop_in_def
proof (rule runs_bind, rule runs_mono [OF the_queue_runs])
  let ?s = "tx_begin s"
  have ok: "store_ok ?s" using assms by (simp add: table_invariantD [OF store_ok_table])
  show frame: "queue_frame ?s ?s" using ok by (simp add: queue_frame_refl store_ok_def rest_ok_def)
  fix q t
  assume t: "queue_frame ?s t \<and> run_queues t = [q] \<and> row_ok q \<and> run_queue_items t = run_queue_items ?s"
  let ?moved = "filter (\<lambda>item. qi_state item = IRunning) (items_in_order t)"
  have valid: "queue_validate (queue_move_to Idle q) = Inr ()"
    using t by (auto simp: queue_frame_def queue_wf_def queue_validate_def queue_move_to_def violations_finish_Inr)
  have "runs (tx_each (move_item Queued (Some reason)) ?moved) (\<lambda>_ u. queue_frame ?s u \<and> running_in {} u \<and> run_queues u = [q]) t"
    using t item_keys_in [of _ t] by (intro move_items_runs) (auto simp: running_in_def items_in_order_def)
  then have "runs (tx_each (move_item Queued (Some reason)) ?moved) (\<lambda>_. runs (queue_publish (queue_move_to Idle q)) ?Q) t"
  proof (rule runs_mono)
    fix x u assume u: "queue_frame ?s u \<and> running_in {} u \<and> run_queues u = [q]"
    then have "runs (queue_publish (queue_move_to Idle q)) (\<lambda>_ t. \<exists>v. run_queues t = [(queue_move_to Idle q)\<lparr>rq_updated_at := v\<rparr>]
        \<and> run_queue_items t = run_queue_items u) u"
      using ok t valid by (intro queue_publish_runs [of ?s]) (auto intro: row_ok_moves)
    then show "runs (queue_publish (queue_move_to Idle q)) ?Q u" by (rule runs_mono) (use u in \<open>auto simp: running_in_def\<close>)
  qed
  then show "runs (tx_bind (tx_gets items_in_order) (\<lambda>all. tx_bind (tx_each (move_item Queued (Some reason))
      (filter (\<lambda>item. qi_state item = IRunning) all)) (\<lambda>_. queue_publish (queue_move_to Idle q)))) ?Q t"
    by (intro runs_bind) (simp add: runs_gets runs_bind)
qed

subsection \<open>Procedures that never fail\<close>

definition answers :: "('w, 'a) proc \<Rightarrow> bool" where
  "answers m \<longleftrightarrow> (\<forall>w. \<exists>x. fst (m w) = Inr x)"

lemma answersE: "answers m \<Longrightarrow> (\<And>x w'. m w = (Inr x, w') \<Longrightarrow> thesis) \<Longrightarrow> thesis"
  by (metis answers_def prod.collapse)

lemma answers_plain: "answers (p_ok x)" "answers (p_try m)" "answers (p_host (\<lambda>h. (Inr x, f h)))" "answers (p_gets g)" "answers (p_modify k)"
  by (auto simp: answers_def p_ok_def p_try_def p_host_def p_gets_def p_modify_def split: prod.splits)

lemma answers_bind:
  assumes "answers m" "\<And>x. answers (f x)"
  shows "answers (p_bind m f)"
  unfolding answers_def
proof
  fix w
  obtain x w' where "m w = (Inr x, w')" using assms(1) by (rule answersE)
  then show "\<exists>y. fst (p_bind m f w) = Inr y" using assms(2) [of x] by (simp add: p_bind_def answers_def)
qed

lemma answers_each: "(\<And>x. answers (f x)) \<Longrightarrow> answers (p_each f xs)"
  by (induction xs) (simp_all add: answers_plain answers_bind)

lemma answers_close_session: "answers (close_session parts a reason)"
proof -
  have "answers (case found of Inl _ \<Rightarrow> p_ok () | Inr work \<Rightarrow>
      p_each (\<lambda>step_id. p_bind (p_try (p_call (release_running (Some step_id)))) (\<lambda>_. p_ok ())) (tw_running_step_ids work))" for found :: "task_work result"
    by (cases found) (auto intro!: answers_plain answers_bind answers_each)
  then show ?thesis unfolding close_session_def release_running_steps_def by (intro answers_bind answers_plain)
qed

definition stopping :: "run_queue_view result list \<Rightarrow> 'h worker \<Rightarrow> bool" where
  "stopping replies w \<longleftrightarrow> holds_with store_ok w \<and> wk_active w = [] \<and> wk_replies w = replies"

interpretation at_stop: world_invariant "stopping replies" store_ok for replies
  using world_db.stored world_db.committed world_db.outside by unfold_locales (fastforce simp: stopping_def)+

lemma queue_stop_effect:
  assumes "store_ok s"
  shows "\<exists>view t. queue_stop reason s = (Inr view, t) \<and> running_in {} t \<and> (\<exists>q. run_queues t = [q] \<and> rq_state q = Idle)"
  using queue_stop_runs [OF assms, of reason]
  by (auto simp: runs_def queue_stop_def in_write_def running_in_def tx_commit_def)

subsection \<open>A queue at work\<close>

text \<open>A waiting task, places for two sessions, and a host that opens a terminal whenever asked.\<close>

lemma flow_db_store_ok: "store_ok flow_db"
proof -
  have "acyclic (dep_edges flow_db)" by (simp add: dep_edges_def sample_defs acyclic_def)
  then have "deps_ok flow_db" by (simp add: deps_ok_def dep_edges_def sample_defs)
  moreover have "timers_ok flow_db" by (simp add: timers_ok_def sample_defs)
  moreover have "tasks_ok flow_db" by (simp add: tasks_ok_def task_moments_ok_def run_defs)
  moreover have "queue_wf flow_db" by (simp add: queue_wf_def items_ok_def queue_dense_def sample_defs)
  ultimately show ?thesis using flow_db_ok by (simp add: store_ok_def rest_ok_def)
qed

definition work_db :: db where
  "work_db = flow_db\<lparr>run_queues := [(run_queue_new 70 0)\<lparr>rq_state := QRunning, rq_parallel_sessions := 2\<rparr>],
     run_queue_items := [queue_item_new 60 2 0 0]\<rparr>"

definition sample_terminal :: terminal_view where
  "sample_terminal = \<lparr>tv_id = 80, tv_live = True, tv_awaiting_permission = False, tv_started_at = 0\<rparr>"

definition sample_parts :: "unit worker_parts" where
  "sample_parts = \<lparr>wp_worktrees = dirty_host, wp_root = lit ''/w'', wp_open = (\<lambda>_ h. (Inr sample_terminal, h)),
     wp_get = (\<lambda>_ _. Some sample_terminal), wp_close = (\<lambda>_ _ h. h), wp_has_live_for = (\<lambda>_ _. False),
     wp_renew = (\<lambda>_ h. (Inr sample_terminal, h)),
     wp_usage_current = (\<lambda>h. (\<lparr>cu_status = UsageOk, cu_limits = [], cu_fetched_at = 0, cu_retry_at = None\<rparr>, h)),
     wp_usage_refresh = (\<lambda>h. h), wp_wording = (\<lambda>_. []), wp_rounds = 3\<rparr>"

definition sample_worker :: "unit worker" where
  "sample_worker = \<lparr>w_db = work_db, w_host = (), w_others = sconst (\<lambda>s. s), wk_active = [], wk_parked = {}, wk_generation = 0,
     wk_commands = [], wk_replies = []\<rparr>"

lemma work_db_store_ok: "store_ok work_db"
proof -
  have "queue_wf work_db"
    by (simp add: queue_wf_def row_ok_def items_ok_def item_moments_ok_def queue_dense_def work_db_def run_defs)
  moreover have "same_tables flow_db work_db" by (simp add: same_tables_def work_db_def)
  ultimately have "queue_frame flow_db work_db" by (simp add: queue_frame_def)
  then show ?thesis using flow_db_store_ok by (rule store_ok_queue_frame)
qed

lemma sample_worker_holds: "holds_with store_ok sample_worker"
  using work_db_store_ok by (simp add: sample_worker_def holds_with_def)

subsection \<open>The worker\<close>

text \<open>
  C10. However the worker's inbox fills, whatever the terminals, git and the usage reading answer and whatever other clients that keep
  the store well formed commit in between: the store stays well formed, the worker never has more than
  four sessions in hand, their numbers differ, and no number is ahead of the counter, so a command sent
  for a session that is gone is recognised as stale.
\<close>

theorem worker_invariant:
  assumes "holds_with store_ok w" "wk_active w = []" "run_worker parts inbox w = (r, w')"
  shows "store_ok (w_db w') \<and> length (wk_active w') \<le> 4 \<and> distinct (map ac_generation (wk_active w'))
    \<and> list_all (\<lambda>a. ac_generation a \<le> wk_generation w') (wk_active w')"
proof -
  have "worker_within 4 w" using assms(1,2) by (simp add: worker_within_def)
  then have "worker_within 4 w'" using keepsD [OF keeps_run_worker, of w parts inbox] assms(3) by simp
  then show ?thesis by (simp add: worker_within_def holds_with_def list_all_iff)
qed

theorem worker_invariant_witness:
  "length (wk_active (snd (run_worker sample_parts [Tick, Review 2, Tick] sample_worker))) \<le> 4"
proof -
  obtain r w' where run: "run_worker sample_parts [Tick, Review 2, Tick] sample_worker = (r, w')" by (rule prod.exhaust)
  have "wk_active sample_worker = []" by (simp add: sample_worker_def)
  from worker_invariant [OF sample_worker_holds this run] show ?thesis unfolding run snd_conv by (elim conjE)
qed



text \<open>
  C13. A stop from the console always goes through: it answers with the queue's view, and then the queue is idle, no item runs, the
  worker has no session in hand and no item is passed over any more.
\<close>

theorem stop_goes_through:
  assumes "holds_with store_ok w" "handle parts Stop w = (r, w')"
  shows "r = Inr () \<and> wk_active w' = [] \<and> wk_parked w' = {} \<and> (\<exists>view. wk_replies w' = wk_replies w @ [Inr view])
    \<and> (\<exists>q. run_queues (w_db w') = [q] \<and> rq_state q = Idle) \<and> list_all (\<lambda>item. qi_state item \<noteq> IRunning) (run_queue_items (w_db w'))"
proof -
  let ?w1 = "w\<lparr>wk_active := []\<rparr>" and ?R = "wk_replies w"
  have "stopping ?R ?w1" using assms(1) by (simp add: stopping_def holds_with_def)
  moreover obtain x w2 where closed: "p_each (\<lambda>a. close_session parts a (lit ''Stopped from the console.'')) (wk_active w) ?w1 = (Inr x, w2)"
    using answers_each [OF answers_close_session] by (rule answersE)
  moreover have "keeps (stopping ?R) (p_each (\<lambda>a. close_session parts a (lit ''Stopped from the console.'')) (wk_active w))"
    by (intro keeps_each at_stop.keeps_close_session store_ok_release_running)
  ultimately have w2: "stopping ?R w2" using keepsD by fastforce
  let ?s = "shd (w_others w2) (w_db w2)"
  obtain view t where stop: "queue_stop (lit ''Stopped from the console; it picks up at the next open step.'') ?s = (Inr view, t)"
    and after: "running_in {} t" "\<exists>q. run_queues t = [q] \<and> rq_state q = Idle"
    using queue_stop_effect [OF at_stop.stored [OF w2]] by blast
  have "handle parts Stop w = (Inr (), w2\<lparr>wk_parked := {}, w_db := t, w_others := stl (w_others w2), wk_replies := wk_replies w2 @ [Inr view]\<rparr>)"
    by (simp add: handle_def stop_worker_def p_bind_def p_gets_def p_modify_def closed p_try_def p_call_def stop
        del: lit_Nil lit_Cons)
  then show ?thesis using w2 after assms(2) by (auto simp: stopping_def running_in_def list_all_iff)
qed

theorem stop_goes_through_witness:
  "\<exists>view. wk_replies (snd (handle sample_parts Stop (sample_worker\<lparr>wk_active := [\<lparr>ac_generation = 1, ac_item_id = 60, ac_task_id = 2,
     ac_terminal_id = 80, ac_settled_steps = 0, ac_waiting_for_permission = False, ac_closing = False\<rparr>]\<rparr>))) = [Inr view]"
  (is "\<exists>view. wk_replies (snd (handle sample_parts Stop ?w)) = _")
proof -
  have "holds_with store_ok ?w" using sample_worker_holds by (simp add: holds_with_def)
  moreover have "wk_replies ?w = []" by (simp add: sample_worker_def)
  ultimately show ?thesis
    using stop_goes_through [of ?w sample_parts "fst (handle sample_parts Stop ?w)" "snd (handle sample_parts Stop ?w)"] by (metis append_Nil prod.collapse)
qed

end
