(* ===== verification/Git_Commits.thy ===== *)
theory Git_Commits
  imports Worktrees
begin

section \<open>Git: reading a working tree and committing a session's work\<close>

text \<open>
  \<^verbatim>\<open>rekall-core/src/commit/git\<close>, with the model of the changes a session made (\<^verbatim>\<open>commit/model/session_changes.rs\<close>).
  Running a git command is a parameter, as are the looks at the disk: \<open>gt_run\<close> answers what the process wrote or why it
  could not be run or took too long, and may change the state \<open>'h\<close> of everything outside. The first part reads git's answers,
  the second is the code that stages and commits, and the last shows what it can ask git to do.
\<close>

subsection \<open>What git answered\<close>

record git_result =
  gr_exit_code :: int
  gr_stdout :: str
  gr_stderr :: str

definition git_ok :: "git_result \<Rightarrow> bool" where
  "git_ok r = (gr_exit_code r = 0)"
definition git_output :: "git_result \<Rightarrow> str" where
  "git_output r = strip (gr_stdout r)"
definition git_error :: "git_result \<Rightarrow> str" where
  "git_error r = strip (gr_stderr r)"

record 'h git =
  gt_run :: "str \<Rightarrow> str list \<Rightarrow> str option \<Rightarrow> 'h \<Rightarrow> git_result result \<times> 'h"
  gt_is_dir :: "str \<Rightarrow> 'h \<Rightarrow> bool"
  gt_is_file :: "str \<Rightarrow> 'h \<Rightarrow> bool"

text \<open>A folder as it is shown in messages: doubled separators and the trailing one dropped.\<close>

fun single_slashes :: "bool \<Rightarrow> str \<Rightarrow> str" where
  "single_slashes previous_slash [] = []"
| "single_slashes previous_slash (c # cs) =
     (if c = 47 then if previous_slash then single_slashes True cs else c # single_slashes True cs
      else c # single_slashes False cs)"

fun drop_slashes :: "str \<Rightarrow> str" where
  "drop_slashes (c # d # cs) = (if c = 47 then drop_slashes (d # cs) else c # d # cs)"
| "drop_slashes cs = cs"

definition display_path :: "str \<Rightarrow> str" where
  "display_path path = rev (drop_slashes (rev (single_slashes False path)))"

subsection \<open>The inspector\<close>

record repository_status =
  rs_folder :: "str option"
  rs_exists :: bool
  rs_repository :: bool
  rs_branch :: "str option"
  rs_user_name :: "str option"
  rs_user_email :: "str option"

definition status_unset :: repository_status where
  "status_unset = \<lparr>rs_folder = None, rs_exists = False, rs_repository = False, rs_branch = None, rs_user_name = None, rs_user_email = None\<rparr>"
definition status_missing :: "str \<Rightarrow> repository_status" where
  "status_missing folder = status_unset\<lparr>rs_folder := Some folder\<rparr>"
definition not_a_repository :: "str \<Rightarrow> repository_status" where
  "not_a_repository folder = status_unset\<lparr>rs_folder := Some folder, rs_exists := True\<rparr>"
definition can_commit :: "repository_status \<Rightarrow> bool" where
  "can_commit st = (rs_repository st \<and> rs_user_email st \<noteq> None)"

definition git_answer :: "'h git \<Rightarrow> str \<Rightarrow> str list \<Rightarrow> ('h, str option) proc" where
  "git_answer g folder arguments = p_bind (p_try (gt_run g folder arguments None)) (\<lambda>answered.
     p_ok (case answered of
         Inr r \<Rightarrow> if git_ok r \<and> \<not> is_blank (git_output r) then Some (git_output r) else None
       | Inl _ \<Rightarrow> None))"

definition origin_url :: "'h git \<Rightarrow> str \<Rightarrow> ('h, str option) proc" where
  "origin_url g folder = git_answer g folder [lit ''config'', lit ''--get'', lit ''remote.origin.url'']"

definition git_head :: "'h git \<Rightarrow> str \<Rightarrow> ('h, str option) proc" where
  "git_head g folder = git_answer g folder [lit ''rev-parse'', lit ''HEAD'']"

definition parse_u32 :: "str \<Rightarrow> nat option" where
  "parse_u32 t = (let digits = (case t of c # cs \<Rightarrow> if c = 43 then cs else t | [] \<Rightarrow> t)
     in if digits \<noteq> [] \<and> list_all ascii_digit digits \<and> digits_value digits < 2 ^ 32 then Some (digits_value digits) else None)"

definition commits_since :: "'h git \<Rightarrow> str \<Rightarrow> str \<Rightarrow> ('h, nat option) proc" where
  "commits_since g folder commit =
     p_bind (git_answer g folder [lit ''rev-list'', lit ''--count'', commit @ lit ''..HEAD'']) (\<lambda>counted.
     p_ok (case counted of None \<Rightarrow> None | Some n \<Rightarrow> parse_u32 n))"

definition inspect :: "'h git \<Rightarrow> str option \<Rightarrow> ('h, repository_status) proc" where
  "inspect g folder = (case folder of None \<Rightarrow> p_ok status_unset | Some given \<Rightarrow>
     if is_blank given then p_ok status_unset
     else let path = strip given in
       p_bind (p_gets (gt_is_dir g path)) (\<lambda>there.
       if \<not> there then p_ok (status_missing path)
       else p_bind (p_try (gt_run g path [lit ''rev-parse'', lit ''--is-inside-work-tree''] None)) (\<lambda>inside.
         case inside of
           Inl _ \<Rightarrow> p_ok (not_a_repository path)
         | Inr r \<Rightarrow>
           if \<not> git_ok r \<or> git_output r \<noteq> lit ''true'' then p_ok (not_a_repository path)
           else p_bind (git_answer g path [lit ''symbolic-ref'', lit ''--short'', lit ''-q'', lit ''HEAD'']) (\<lambda>branch.
             p_bind (git_answer g path [lit ''config'', lit ''--get'', lit ''user.name'']) (\<lambda>user_name.
             p_bind (git_answer g path [lit ''config'', lit ''--get'', lit ''user.email'']) (\<lambda>user_email.
             p_ok \<lparr>rs_folder = Some path, rs_exists = True, rs_repository = True, rs_branch = branch,
               rs_user_name = user_name, rs_user_email = user_email\<rparr>))))))"

definition is_repository :: "'h git \<Rightarrow> str option \<Rightarrow> ('h, bool) proc" where
  "is_repository g folder = p_bind (inspect g folder) (\<lambda>st. p_ok (rs_repository st))"

subsection \<open>Pending changes\<close>

datatype pending_change_kind = ChangeAdded | ChangeModified | ChangeDeleted | ChangeRenamed

record pending_change =
  pc_kind :: pending_change_kind
  pc_path :: str

definition change_parse :: "str \<Rightarrow> pending_change result" where
  "change_parse entry =
     (if jlen entry < 4 then Inl (IllegalArgument (Msg ''Unexpected git status line'' [entry]))
      else let index = (case entry of c # _ \<Rightarrow> c | [] \<Rightarrow> 32);
               worktree = (case entry of _ # d # _ \<Rightarrow> d | _ \<Rightarrow> 32);
               path = jsuffix entry 3
        in if index = 82 \<or> worktree = 82 then Inr \<lparr>pc_kind = ChangeRenamed, pc_path = path\<rparr>
           else if index = 63 \<or> index = 65 \<or> worktree = 65 then Inr \<lparr>pc_kind = ChangeAdded, pc_path = path\<rparr>
           else if index = 68 \<or> worktree = 68 then Inr \<lparr>pc_kind = ChangeDeleted, pc_path = path\<rparr>
           else Inr \<lparr>pc_kind = ChangeModified, pc_path = path\<rparr>)"

fun parse_entries :: "str list \<Rightarrow> pending_change list result" where
  "parse_entries [] = Inr []"
| "parse_entries (entry # entries) = (case change_parse entry of
     Inl e \<Rightarrow> Inl e
   | Inr change \<Rightarrow>
       if pc_kind change \<noteq> ChangeRenamed
       then (case parse_entries entries of Inl e \<Rightarrow> Inl e | Inr changes \<Rightarrow> Inr (change # changes))
       else (case entries of
           [] \<Rightarrow> Inr [change]
         | old_path # others \<Rightarrow> (case parse_entries others of
               Inl e \<Rightarrow> Inl e
             | Inr changes \<Rightarrow> Inr (change # \<lparr>pc_kind = ChangeDeleted, pc_path = old_path\<rparr> # changes))))"

definition parse_all :: "str \<Rightarrow> pending_change list result" where
  "parse_all output = parse_entries (filter (\<lambda>entry. entry \<noteq> []) (split_on 0 output))"

subsection \<open>The committer\<close>

definition pending_changes :: "'h git \<Rightarrow> str \<Rightarrow> ('h, pending_change list) proc" where
  "pending_changes g folder =
     p_bind (gt_run g folder [lit ''status'', lit ''--porcelain'', lit ''-z'', lit ''-uall''] None) (\<lambda>status.
     if \<not> git_ok status
     then p_fail (IllegalArgument (Msg ''Could not read the working tree'' [display_path folder, git_error status]))
     else p_lift (parse_all (gr_stdout status)))"

definition work_tree_root :: "'h git \<Rightarrow> str \<Rightarrow> ('h, str) proc" where
  "work_tree_root g folder =
     p_bind (gt_run g folder [lit ''rev-parse'', lit ''--show-toplevel''] None) (\<lambda>top.
     if \<not> git_ok top \<or> is_blank (git_output top)
     then p_fail (IllegalArgument (Msg ''Could not find the repository root'' [display_path folder, git_error top]))
     else p_ok (git_output top))"

definition content_hashes :: "'h git \<Rightarrow> str \<Rightarrow> str list \<Rightarrow> ('h, str list) proc" where
  "content_hashes g root paths =
     (if paths = [] then p_ok []
      else p_bind (gt_run g root [lit ''hash-object'', lit ''--stdin-paths''] (Some (joined 10 paths))) (\<lambda>hashed.
        let hashes = rust_lines (gr_stdout hashed)
        in if \<not> git_ok hashed \<or> length hashes \<noteq> length paths
           then p_fail (IllegalArgument (Msg ''Could not hash the modified files'' [display_path root, git_error hashed]))
           else p_ok hashes))"

fun dealt :: "bool list \<Rightarrow> str list \<Rightarrow> str option list" where
  "dealt [] hashes = []"
| "dealt (here # on_disk) hashes =
     (if here then (case hashes of [] \<Rightarrow> None # dealt on_disk [] | h # others \<Rightarrow> Some h # dealt on_disk others)
      else None # dealt on_disk hashes)"

definition content_hashes_of :: "'h git \<Rightarrow> str \<Rightarrow> pending_change list \<Rightarrow> ('h, str option list) proc" where
  "content_hashes_of g folder changes =
     p_bind (work_tree_root g folder) (\<lambda>root.
     p_bind (p_gets (\<lambda>h. map (\<lambda>change. gt_is_file g (path_join root (pc_path change)) h) changes)) (\<lambda>on_disk.
     let present = map (\<lambda>(change, _). pc_path change) (filter (\<lambda>(_, here). here) (zip changes on_disk))
     in p_bind (content_hashes g root present) (\<lambda>hashes. p_ok (dealt on_disk hashes))))"

definition work_tree_snapshot :: "'h git \<Rightarrow> str \<Rightarrow> ('h, (str \<times> str option) list) proc" where
  "work_tree_snapshot g folder =
     p_bind (pending_changes g folder) (\<lambda>changes.
     p_bind (content_hashes_of g folder changes) (\<lambda>hashes.
     p_ok (map (\<lambda>(change, content_hash). (pc_path change, content_hash)) (zip changes hashes))))"

definition nul_separated :: "pending_change list \<Rightarrow> str" where
  "nul_separated changes = joined 0 (map pc_path changes)"

definition git_stage :: "'h git \<Rightarrow> str \<Rightarrow> str list \<Rightarrow> pending_change list \<Rightarrow> str \<Rightarrow> ('h, unit) proc" where
  "git_stage g root command changes shown =
     (if changes = [] then p_ok ()
      else p_bind (gt_run g root ([lit ''--literal-pathspecs''] @ command @ [lit ''--pathspec-from-file=-'', lit ''--pathspec-file-nul''])
          (Some (nul_separated changes))) (\<lambda>staged.
        if \<not> git_ok staged then p_fail (IllegalArgument (Msg ''Could not stage the changes'' [shown, git_error staged])) else p_ok ()))"

definition RM_COMMAND :: "str list" where
  "RM_COMMAND = [lit ''rm'', lit ''--cached'', lit ''--ignore-unmatch'', lit ''-q'']"
definition ADD_COMMAND :: "str list" where
  "ADD_COMMAND = [lit ''add'']"

definition commit_paths :: "'h git \<Rightarrow> str \<Rightarrow> pending_change list \<Rightarrow> str \<Rightarrow> ('h, str) proc" where
  "commit_paths g folder changes message = (let shown = display_path folder in
     p_bind (work_tree_root g folder) (\<lambda>root.
     let deleted = filter (\<lambda>change. pc_kind change = ChangeDeleted) changes;
         present = filter (\<lambda>change. pc_kind change \<noteq> ChangeDeleted) changes
     in p_bind (git_stage g root RM_COMMAND deleted shown) (\<lambda>_.
        p_bind (git_stage g root ADD_COMMAND present shown) (\<lambda>_.
        p_bind (gt_run g root [lit ''--literal-pathspecs'', lit ''commit'', lit ''-q'', lit ''--only'', lit ''-m'', message,
            lit ''--pathspec-from-file=-'', lit ''--pathspec-file-nul''] (Some (nul_separated changes))) (\<lambda>committed.
        if \<not> git_ok committed
        then p_fail (IllegalArgument (Msg ''git commit failed''
            [shown, if is_blank (git_error committed) then git_output committed else git_error committed]))
        else p_bind (gt_run g root [lit ''rev-parse'', lit ''HEAD''] None) (\<lambda>tip.
          if \<not> git_ok tip \<or> is_blank (git_output tip)
          then p_fail (IllegalArgument (Msg ''Committed, but could not read the new tip'' [shown]))
          else p_ok (git_output tip)))))))"

subsection \<open>Whose changes they are\<close>

record session_changes =
  sc_own :: "pending_change list"
  sc_left_out :: "pending_change list"

definition changes_split :: "pending_change list \<Rightarrow> str option list \<Rightarrow> (str \<times> str option) list \<Rightarrow> session_changes" where
  "changes_split pending hashes snapshot = foldl (\<lambda>sorted (change, hash).
     if list_ex (\<lambda>(path, kept). path = pc_path change \<and> kept = hash) snapshot
     then sorted\<lparr>sc_left_out := sc_left_out sorted @ [change]\<rparr>
     else sorted\<lparr>sc_own := sc_own sorted @ [change]\<rparr>) \<lparr>sc_own = [], sc_left_out = []\<rparr> (zip pending hashes)"

definition changes_everything :: "pending_change list \<Rightarrow> session_changes" where
  "changes_everything pending = \<lparr>sc_own = pending, sc_left_out = []\<rparr>"

definition sort_changes :: "'h git \<Rightarrow> str \<Rightarrow> pending_change list \<Rightarrow> (str \<times> str option) list option \<Rightarrow> ('h, session_changes) proc" where
  "sort_changes g folder pending snapshot = (case snapshot of
       None \<Rightarrow> p_ok (changes_everything pending)
     | Some kept \<Rightarrow> p_bind (content_hashes_of g folder pending) (\<lambda>hashes. p_ok (changes_split pending hashes kept)))"

lemmas git_run [run_defs] = git_ok_def git_output_def git_error_def display_path_def status_unset_def status_missing_def not_a_repository_def
  can_commit_def git_answer_def origin_url_def git_head_def parse_u32_def commits_since_def inspect_def is_repository_def change_parse_def parse_all_def pending_changes_def
  work_tree_root_def content_hashes_def content_hashes_of_def work_tree_snapshot_def nul_separated_def git_stage_def RM_COMMAND_def
  ADD_COMMAND_def commit_paths_def changes_split_def changes_everything_def sort_changes_def rust_lines_def drop_cr_def

subsection \<open>Reading the porcelain listing\<close>

text \<open>
  What \<^verbatim>\<open>git status --porcelain -z\<close> writes: two status letters, a space and a path, each entry ended by a NUL; a rename is
  followed by the path it had.
\<close>

datatype porcelain = Entry uchar uchar str | RenameEntry uchar uchar str str

fun porcelain_wf :: "porcelain \<Rightarrow> bool" where
  "porcelain_wf (Entry x y path) = (x \<in> {1..<128} \<and> y \<in> {1..<128} \<and> x \<noteq> 82 \<and> y \<noteq> 82 \<and> path \<noteq> [] \<and> 0 \<notin> set path)"
| "porcelain_wf (RenameEntry x y path old) = (x \<in> {1..<128} \<and> y \<in> {1..<128} \<and> (x = 82 \<or> y = 82) \<and> path \<noteq> [] \<and> 0 \<notin> set path
     \<and> old \<noteq> [] \<and> 0 \<notin> set old)"

fun porcelain_text :: "porcelain \<Rightarrow> str" where
  "porcelain_text (Entry x y path) = [x, y, 32] @ path @ [0]"
| "porcelain_text (RenameEntry x y path old) = [x, y, 32] @ path @ [0] @ old @ [0]"

fun porcelain_changes :: "porcelain \<Rightarrow> pending_change list" where
  "porcelain_changes (Entry x y path) =
     [\<lparr>pc_kind = (if x = 63 \<or> x = 65 \<or> y = 65 then ChangeAdded else if x = 68 \<or> y = 68 then ChangeDeleted else ChangeModified), pc_path = path\<rparr>]"
| "porcelain_changes (RenameEntry x y path old) =
     [\<lparr>pc_kind = ChangeRenamed, pc_path = path\<rparr>, \<lparr>pc_kind = ChangeDeleted, pc_path = old\<rparr>]"

lemma entry_suffix: "x < 128 \<Longrightarrow> y < 128 \<Longrightarrow> jsuffix (x # y # 32 # path) 3 = path"
  by (cases path) (auto simp: jsuffix_def char_offset_def len_utf16_def)

lemma entry_long: "path \<noteq> [] \<Longrightarrow> \<not> jlen (x # y # 32 # path) < 4"
  by (cases path) (auto simp: len_utf16_def)

lemma change_parse_entry:
  assumes "x < 128" "y < 128" "path \<noteq> []"
  shows "change_parse (x # y # 32 # path) = Inr \<lparr>pc_kind = (if x = 82 \<or> y = 82 then ChangeRenamed
     else if x = 63 \<or> x = 65 \<or> y = 65 then ChangeAdded else if x = 68 \<or> y = 68 then ChangeDeleted else ChangeModified), pc_path = path\<rparr>"
  using assms entry_long [of path x y] by (simp add: change_parse_def entry_suffix Let_def)

lemma parse_porcelain:
  "list_all porcelain_wf es \<Longrightarrow> parse_all (concat (map porcelain_text es)) = Inr (concat (map porcelain_changes es))"
proof (induction es)
  case Nil
  then show ?case by (simp add: parse_all_def)
next
  case (Cons e es)
  let ?rest = "concat (map porcelain_text es)"
  have rest: "parse_entries (filter (\<lambda>entry. entry \<noteq> []) (split_on 0 ?rest)) = Inr (concat (map porcelain_changes es))"
    using Cons by (simp add: parse_all_def)
  show ?case
  proof (cases e)
    case (Entry x y path)
    have wf: "0 < x" "0 < y" "x < 128" "y < 128" "x \<noteq> 82" "y \<noteq> 82" "path \<noteq> []" "0 \<notin> set path" using Cons.prems Entry by auto
    have "split_on 0 ((x # y # 32 # path) @ 0 # ?rest) = (x # y # 32 # path) # split_on 0 ?rest" using wf by (intro split_on_append) auto
    then show ?thesis using rest wf by (simp add: parse_all_def Entry change_parse_entry)
  next
    case (RenameEntry x y path old)
    have wf: "0 < x" "0 < y" "x < 128" "y < 128" "x = 82 \<or> y = 82" "path \<noteq> []" "0 \<notin> set path" "old \<noteq> []" "0 \<notin> set old"
      using Cons.prems RenameEntry by auto
    have "split_on 0 ((x # y # 32 # path) @ 0 # old @ 0 # ?rest) = (x # y # 32 # path) # split_on 0 (old @ 0 # ?rest)"
      using wf by (intro split_on_append) auto
    moreover have "split_on 0 (old @ 0 # ?rest) = old # split_on 0 ?rest" using wf by (intro split_on_append) auto
    ultimately show ?thesis using rest wf by (simp add: parse_all_def RenameEntry change_parse_entry)
  qed
qed



subsection \<open>What a commit asks git to do\<close>

text \<open>
  To speak of what git is asked, let the outside be the list of commands run so far and let git answer any way it likes, depending on
  everything asked before.
\<close>

type_synonym git_call = "str \<times> str list \<times> str option"

definition recorder :: "(git_call list \<Rightarrow> git_call \<Rightarrow> git_result result) \<Rightarrow> (str \<Rightarrow> git_call list \<Rightarrow> bool) \<Rightarrow> (str \<Rightarrow> git_call list \<Rightarrow> bool)
    \<Rightarrow> git_call list git" where
  "recorder answers dirs files = \<lparr>gt_run = (\<lambda>folder arguments input asked. (answers asked (folder, arguments, input), asked @ [(folder, arguments, input)])),
     gt_is_dir = dirs, gt_is_file = files\<rparr>"

text \<open>Either a command that only reads, or one that takes its paths, literally, from a NUL-separated list of these.\<close>

fun call_within :: "str set \<Rightarrow> git_call \<Rightarrow> bool" where
  "call_within paths (folder, arguments, input) = (case arguments of
       command # _ \<Rightarrow> command = lit ''rev-parse'' \<or> command = lit ''hash-object''
         \<or> command = lit ''--literal-pathspecs'' \<and> (case input of None \<Rightarrow> False | Some t \<Rightarrow> set (split_on 0 t) \<subseteq> paths)
     | [] \<Rightarrow> False)"

definition no_nul :: "pending_change list \<Rightarrow> bool" where
  "no_nul changes = list_all (\<lambda>change. 0 \<notin> set (pc_path change)) changes"

lemma nul_separated_paths: "changes \<noteq> [] \<Longrightarrow> no_nul changes \<Longrightarrow> split_on 0 (nul_separated changes) = map pc_path changes"
  unfolding nul_separated_def no_nul_def by (rule split_joined) (auto simp: list_all_iff)

lemma keeps_recorded:
  "P (folder, arguments, input) \<Longrightarrow> keeps (list_all P) (gt_run (recorder answers dirs files) folder arguments input)"
  by (simp add: keeps_def recorder_def)

lemma asks_root: "keeps (list_all (call_within paths)) (work_tree_root (recorder answers dirs files) folder)"
  unfolding work_tree_root_def by (intro keeps_intro keeps_recorded) simp

lemma asks_stage:
  assumes "no_nul changes" "pc_path ` set changes \<subseteq> paths"
  shows "keeps (list_all (call_within paths)) (git_stage (recorder answers dirs files) root command changes shown)"
proof (cases "changes = []")
  case False
  then show ?thesis using nul_separated_paths [OF False assms(1)] assms(2)
    unfolding git_stage_def by (auto intro!: keeps_intro keeps_recorded)
qed (simp add: git_stage_def keeps_intro)

lemma asks_commit:
  assumes "no_nul changes" "changes \<noteq> []"
  shows "keeps (list_all (call_within (pc_path ` set changes))) (commit_paths (recorder answers dirs files) folder changes message)"
proof -
  have "no_nul (filter P changes)" for P using assms(1) by (auto simp: no_nul_def list_all_iff)
  then have stages: "keeps (list_all (call_within (pc_path ` set changes))) (git_stage (recorder answers dirs files) root command (filter P changes) shown)"
    for root command P shown by (rule asks_stage) auto
  have "set (split_on 0 (nul_separated changes)) \<subseteq> pc_path ` set changes" using nul_separated_paths [OF assms(2,1)] by simp
  then show ?thesis unfolding commit_paths_def Let_def
    by (intro keeps_intro keeps_recorded stages asks_root) simp_all
qed

lemma dealt_length: "length (dealt on_disk hashes) = length on_disk"
  by (induction on_disk hashes rule: dealt.induct) (auto split: list.split)

lemma content_hashes_of_length:
  "content_hashes_of g folder changes h = (Inr hashes, h') \<Longrightarrow> length hashes = length changes"
  by (auto simp: content_hashes_of_def p_bind_Inr p_gets_def p_ok_def dealt_length Let_def)

lemma asks_hashes: "keeps (list_all (call_within paths)) (content_hashes_of (recorder answers dirs files) folder changes)"
  unfolding content_hashes_of_def content_hashes_def Let_def
  by (intro keeps_intro keeps_recorded asks_root) simp

text \<open>Sorting the changes is a partition by one test: is the path in the snapshot with this content?\<close>

lemma changes_split_filter:
  "sc_own (changes_split pending hashes snapshot) = map fst (filter (\<lambda>(c, h). (pc_path c, h) \<notin> set snapshot) (zip pending hashes))"
  "sc_left_out (changes_split pending hashes snapshot) = map fst (filter (\<lambda>(c, h). (pc_path c, h) \<in> set snapshot) (zip pending hashes))"
proof -
  let ?f = "\<lambda>sorted (change, hash). if list_ex (\<lambda>(path, kept). path = pc_path change \<and> kept = hash) snapshot
     then sorted\<lparr>sc_left_out := sc_left_out sorted @ [change]\<rparr> else sorted\<lparr>sc_own := sc_own sorted @ [change]\<rparr>"
  have test: "list_ex (\<lambda>(path, kept). path = p \<and> kept = h) snapshot \<longleftrightarrow> (p, h) \<in> set snapshot" for p h by (auto simp: list_ex_iff)
  have "sc_own (foldl ?f z xs) = sc_own z @ map fst (filter (\<lambda>(c, h). (pc_path c, h) \<notin> set snapshot) xs)
      \<and> sc_left_out (foldl ?f z xs) = sc_left_out z @ map fst (filter (\<lambda>(c, h). (pc_path c, h) \<in> set snapshot) xs)" for z :: session_changes and xs
    by (induction xs arbitrary: z) (auto simp: test)
  then show "sc_own (changes_split pending hashes snapshot) = map fst (filter (\<lambda>(c, h). (pc_path c, h) \<notin> set snapshot) (zip pending hashes))"
    "sc_left_out (changes_split pending hashes snapshot) = map fst (filter (\<lambda>(c, h). (pc_path c, h) \<in> set snapshot) (zip pending hashes))"
    unfolding changes_split_def by simp_all
qed

definition COMMIT_COMMAND :: "str \<Rightarrow> str list" where
  "COMMIT_COMMAND msg = [lit ''--literal-pathspecs'', lit ''commit'', lit ''-q'', lit ''--only'', lit ''-m'', msg,
     lit ''--pathspec-from-file=-'', lit ''--pathspec-file-nul'']"

lemma committed_asked:
  assumes "commit_paths (recorder answers dirs files) folder changes msg asked = (Inr tip, calls)"
  shows "\<exists>root. (root, COMMIT_COMMAND msg, Some (nul_separated changes)) \<in> set calls"
  using assms by (auto simp: commit_paths_def COMMIT_COMMAND_def p_bind_Inr recorder_def p_ok_def p_fail_def Let_def simp del: lit_Cons lit_Nil
      split: if_splits)


text \<open>A repository where \<^verbatim>\<open>a\<close> was modified before the work and is as it was, and \<^verbatim>\<open>b\<close> is new.\<close>

definition sample_answers :: "git_call list \<Rightarrow> git_call \<Rightarrow> git_result result" where
  "sample_answers asked call = (case call of (_, arguments, _) \<Rightarrow> Inr \<lparr>gr_exit_code = 0, gr_stdout =
     (if hd arguments = lit ''hash-object'' then lit ''h1'' @ [10] @ lit ''h2'' @ [10] else lit ''/r''), gr_stderr = []\<rparr>)"

definition sample_pending :: "pending_change list" where
  "sample_pending = [\<lparr>pc_kind = ChangeModified, pc_path = lit ''a''\<rparr>, \<lparr>pc_kind = ChangeAdded, pc_path = lit ''b''\<rparr>]"

definition sample_git :: "git_call list git" where
  "sample_git = recorder sample_answers (\<lambda>_ _. True) (\<lambda>_ _. True)"


end
