(* ===== verification/Wrapup_Service.thy ===== *)
theory Wrapup_Service
  imports Git_Commits
begin

section \<open>Wrapups beside the repository\<close>

text \<open>
  The parts of \<^verbatim>\<open>rekall-core/src/wrapup\<close> that ask git: the commit noted on a version when a wrapup is written, and the warning that the
  files a wrapup names have changed since. The rows of the commits logged against a task are an argument of that warning; git is the
  parameter of the previous theory.
\<close>

subsection \<open>Writing\<close>

definition head_in :: "'h git \<Rightarrow> str option \<Rightarrow> (('h, 'z) world_scheme, str option) proc" where
  "head_in g folder = (case folder of None \<Rightarrow> p_ok None
     | Some f \<Rightarrow> if is_blank f then p_ok None else p_host (git_head g (strip f)))"

definition wrapup_write_by_anchor :: "unicode_case \<Rightarrow> 'h git \<Rightarrow> str option \<Rightarrow> str \<Rightarrow> str option \<Rightarrow> wrapup_author
    \<Rightarrow> (('h, 'z) world_scheme, written_wrapup) proc" where
  "wrapup_write_by_anchor u g project_label task_label body author =
     p_bind (p_read (in_read (tx_bind (resolve_task u project_label task_label) project_folder_of))) (\<lambda>folder.
     p_bind (head_in g folder) (\<lambda>head.
     p_call (wrapup_write_anchored u project_label task_label body author head)))"

definition wrapup_write :: "'h git \<Rightarrow> id \<Rightarrow> str option \<Rightarrow> wrapup_author \<Rightarrow> (('h, 'z) world_scheme, written_wrapup) proc" where
  "wrapup_write g task_id body author =
     p_bind (p_read (in_read (tx_bind (task_or_unknown task_id) project_folder_of))) (\<lambda>folder.
     p_bind (head_in g folder) (\<lambda>head.
     p_call (wrapup_write_at task_id body author head)))"

datatype auto_commit_status = AutoOff | AutoSkipped | AutoCommitted | AutoFailed

definition accept_quick_task_after_commit :: "id \<Rightarrow> auto_commit_status \<Rightarrow> (('h, 'z) world_scheme, bool) proc" where
  "accept_quick_task_after_commit task_id commit =
     (if commit = AutoFailed then p_ok False else p_call (accept_quick_claim task_id))"

subsection \<open>Reading the log\<close>

definition FIELD_SEPARATOR :: uchar where "FIELD_SEPARATOR = 31"
definition RECORD_SEPARATOR :: uchar where "RECORD_SEPARATOR = 30"

record commit_touch =
  ct_hash :: str
  ct_files :: "str list"

record logged_commit =
  lc_hash :: str
  lc_subject :: str
  lc_diff :: "str option"

definition hex_digit :: "uchar \<Rightarrow> bool" where
  "hex_digit c = (48 \<le> c \<and> c \<le> 57 \<or> 97 \<le> c \<and> c \<le> 102 \<or> 65 \<le> c \<and> c \<le> 70)"

definition require_hash :: "str \<Rightarrow> unit result" where
  "require_hash reference = (if 4 \<le> length reference \<and> length reference \<le> 40 \<and> list_all hex_digit reference then Inr ()
     else Inl (IllegalArgument (Msg ''is not a commit hash'' [reference])))"

definition require_repository :: "'h git \<Rightarrow> str \<Rightarrow> ('h, unit) proc" where
  "require_repository g folder = p_bind (p_gets (gt_is_dir g folder)) (\<lambda>there.
     if there then p_ok () else p_fail (IllegalArgument (Msg ''This project's folder is not there'' [display_path folder])))"

definition touch_of :: "str \<Rightarrow> commit_touch option" where
  "touch_of rec = (case filter (\<lambda>l. l \<noteq> []) (map strip (rust_lines rec)) of
       [] \<Rightarrow> None
     | hash # files \<Rightarrow> Some \<lparr>ct_hash = hash, ct_files = files\<rparr>)"

definition touching_since :: "'h git \<Rightarrow> str \<Rightarrow> str \<Rightarrow> str list \<Rightarrow> ('h, commit_touch list) proc" where
  "touching_since g folder since paths =
     p_bind (require_repository g folder) (\<lambda>_.
     p_bind (p_lift (require_hash since)) (\<lambda>_.
     p_bind (gt_run g folder ([lit ''--literal-pathspecs'', lit ''log'', lit ''--name-only'', lit ''--format='' @ [RECORD_SEPARATOR] @ lit ''%H'',
         since @ lit ''..HEAD'', lit ''--''] @ paths) None) (\<lambda>result.
     if gr_exit_code result \<noteq> 0
     then p_fail (IllegalArgument (Msg ''Could not read the log'' [since, display_path folder, strip (gr_stderr result)]))
     else p_ok (List.map_filter touch_of (split_on RECORD_SEPARATOR (gr_stdout result))))))"

definition git_read :: "'h git \<Rightarrow> str \<Rightarrow> str list \<Rightarrow> message \<Rightarrow> bool \<Rightarrow> ('h, str) proc" where
  "git_read g folder arguments failure with_reason =
     p_bind (gt_run g folder arguments None) (\<lambda>result.
     let answered = strip (gr_stdout result)
     in if gr_exit_code result \<noteq> 0 \<or> is_blank answered
        then if \<not> with_reason then p_fail (IllegalArgument failure)
             else let error = strip (gr_stderr result);
                      detail = (if is_blank error then lit ''there is no commit yet'' else error)
               in p_fail (IllegalArgument (case failure of Msg kind details \<Rightarrow> Msg kind (details @ [detail])))
        else p_ok answered)"

definition diff_of :: "'h git \<Rightarrow> str \<Rightarrow> str \<Rightarrow> ('h, str option) proc" where
  "diff_of g folder hash =
     p_bind (p_try (gt_run g folder [lit ''show'', lit ''--format='', hash, lit ''--''] None)) (\<lambda>answered.
     p_ok (case answered of Inr r \<Rightarrow> if git_ok r then Some (strip (gr_stdout r)) else None | Inl _ \<Rightarrow> None))"

definition log_commit :: "'h git \<Rightarrow> str \<Rightarrow> str \<Rightarrow> ('h, logged_commit) proc" where
  "log_commit g folder reference = (let tip = (reference = lit ''HEAD'') in
     p_bind (require_repository g folder) (\<lambda>_.
     p_bind (if \<not> tip then p_lift (require_hash reference) else p_ok ()) (\<lambda>_.
     let shown = display_path folder;
         failure = (if tip then Msg ''Could not read the last commit'' [shown] else Msg ''No such commit'' [reference, shown])
     in p_bind (git_read g folder [lit ''log'', lit ''-1'', lit ''--format=%H'' @ [FIELD_SEPARATOR] @ lit ''%s'', reference, lit ''--''] failure tip) (\<lambda>answered.
        if FIELD_SEPARATOR \<notin> set answered then p_fail (IllegalArgument (Msg ''Unexpected git output'' [shown]))
        else let hash = takeWhile (\<lambda>c. c \<noteq> FIELD_SEPARATOR) answered;
                 subject = tl (dropWhile (\<lambda>c. c \<noteq> FIELD_SEPARATOR) answered)
          in p_bind (diff_of g folder hash) (\<lambda>diff.
             p_ok \<lparr>lc_hash = hash, lc_subject = subject, lc_diff = diff\<rparr>)))))"

definition log_head :: "'h git \<Rightarrow> str \<Rightarrow> ('h, logged_commit) proc" where
  "log_head g folder = log_commit g folder (lit ''HEAD'')"

subsection \<open>The files a wrapup names\<close>

definition MAX_NAMED_PATHS :: nat where "MAX_NAMED_PATHS = 20"

definition KNOWN_EXTENSIONS :: "str list" where
  "KNOWN_EXTENSIONS = map lit [''rs'', ''ts'', ''tsx'', ''vue'', ''js'', ''md'', ''toml'', ''sql'', ''json'', ''yml'', ''yaml'', ''css'', ''html'',
     ''sh'', ''lock'']"

definition plain_path_char :: "uchar \<Rightarrow> bool" where
  "plain_path_char c = (65 \<le> c \<and> c \<le> 90 \<or> 97 \<le> c \<and> c \<le> 122 \<or> 48 \<le> c \<and> c \<le> 57 \<or> c = 46 \<or> c = 95 \<or> c = 47 \<or> c = 45)"

definition has_known_extension :: "str \<Rightarrow> bool" where
  "has_known_extension candidate = (let name = last (split_on 47 candidate)
     in 46 \<in> set name \<and> last (split_on 46 name) \<in> set KNOWN_EXTENSIONS)"

definition looks_like_path :: "str \<Rightarrow> bool" where
  "looks_like_path candidate =
     (if \<not> (candidate \<noteq> [] \<and> list_all plain_path_char candidate) \<or> prefix (lit ''/'') candidate \<or> sublist (lit ''..'') candidate then False
      else prefix (lit ''rekall-'') candidate \<or> 47 \<in> set candidate \<and> has_known_extension candidate)"

definition in_span :: "uchar \<Rightarrow> bool" where
  "in_span c = (c \<noteq> 96 \<and> c \<noteq> 10)"

function code_spans :: "str \<Rightarrow> str list" where
  "code_spans [] = []"
| "code_spans (c # cs) =
     (if c = 96 \<and> takeWhile in_span cs \<noteq> [] \<and> prefix [96] (dropWhile in_span cs)
      then takeWhile in_span cs # code_spans (tl (dropWhile in_span cs))
      else code_spans cs)"
  by pat_completeness auto
termination
  by (relation "measure length") (auto simp: less_Suc_eq_le intro: le_trans [OF diff_le_self length_dropWhile_le])

definition named_paths :: "str \<Rightarrow> str list" where
  "named_paths markdown = foldl (\<lambda>found span. let candidate = rust_trim span
     in if looks_like_path candidate \<and> candidate \<notin> set found then found @ [candidate] else found) [] (code_spans markdown)"

subsection \<open>Whether a wrapup is stale\<close>

datatype freshness = Fresh | PossiblyStale "str list" "str list" | FreshnessUnknown

definition SHOWN_PATHS :: nat where "SHOWN_PATHS = 3"

fun comma_joined :: "str list \<Rightarrow> str" where
  "comma_joined [] = []"
| "comma_joined [x] = x"
| "comma_joined (x # y # xs) = x @ lit '', '' @ comma_joined (y # xs)"

fun freshness_warning :: "freshness \<Rightarrow> str option" where
  "freshness_warning (PossiblyStale changed_paths commits) = Some (lit ''possibly stale: '' @ comma_joined (take SHOWN_PATHS changed_paths)
     @ (if length changed_paths > SHOWN_PATHS then lit '', '' @ [0x2026] else []) @ lit '' changed in '' @ show_nat (length commits)
     @ lit '' commit'' @ (if length commits = 1 then [] else lit ''s'') @ lit '' since it was written'')"
| "freshness_warning _ = None"

definition freshness_verdict :: "commit_touch list \<Rightarrow> str list \<Rightarrow> freshness" where
  "freshness_verdict touches own_commits = (let foreign = filter (\<lambda>touch. ct_hash touch \<notin> set own_commits) touches
     in if foreign = [] then Fresh
        else PossiblyStale (remdups_adj (sort (concat (map ct_files foreign)))) (map ct_hash foreign))"

text \<open>The rows that are read before git is asked: the folder, the commit of the newest version, the paths; none when there is nothing to ask.\<close>

definition freshness_question :: "id \<Rightarrow> (str \<times> str \<times> str list) option action" where
  "freshness_question task_id =
     tx_bind (tx_gets (wrapup_of task_id)) (\<lambda>found. case found of None \<Rightarrow> tx_ok None | Some w \<Rightarrow>
     tx_bind (tx_gets (versions_newest_first task_id)) (\<lambda>versions.
     case (case versions of [] \<Rightarrow> None | newest # _ \<Rightarrow> wn_commit_hash newest) of None \<Rightarrow> tx_ok None | Some written_at \<Rightarrow>
     tx_bind (task_or_unknown task_id) (\<lambda>t.
     tx_bind (project_of t) (\<lambda>p.
     case work_folder t p of None \<Rightarrow> tx_ok None | Some folder \<Rightarrow>
     let paths = named_paths (wr_body_markdown w)
     in if paths = [] \<or> length paths > MAX_NAMED_PATHS then tx_ok None else tx_ok (Some (folder, written_at, paths))))))"

definition freshness_check :: "'h git \<Rightarrow> (id \<Rightarrow> str list) \<Rightarrow> id \<Rightarrow> (('h, 'z) world_scheme, freshness) proc" where
  "freshness_check g commits_of_task task_id =
     p_bind (p_read (in_read (freshness_question task_id))) (\<lambda>question. case question of
       None \<Rightarrow> p_ok FreshnessUnknown
     | Some (folder, written_at, paths) \<Rightarrow>
         p_bind (p_try (p_host (touching_since g (strip folder) written_at paths))) (\<lambda>answered.
         p_ok (case answered of Inr touches \<Rightarrow> freshness_verdict touches (commits_of_task task_id) | Inl _ \<Rightarrow> FreshnessUnknown)))"

subsection \<open>What holds of them\<close>

lemma named_paths_step:
  "distinct found \<Longrightarrow> list_all looks_like_path found \<Longrightarrow>
   distinct (foldl (\<lambda>found span. let candidate = rust_trim span
     in if looks_like_path candidate \<and> candidate \<notin> set found then found @ [candidate] else found) found spans)
   \<and> list_all looks_like_path (foldl (\<lambda>found span. let candidate = rust_trim span
     in if looks_like_path candidate \<and> candidate \<notin> set found then found @ [candidate] else found) found spans)"
  by (induction spans arbitrary: found) (simp_all add: Let_def)

text \<open>A named path is relative and never climbs, so git is asked about files under the folder.\<close>

lemma named_paths_sound:
  "distinct (named_paths markdown)"
  "path \<in> set (named_paths markdown) \<Longrightarrow> path \<noteq> [] \<and> list_all plain_path_char path \<and> \<not> prefix (lit ''/'') path \<and> \<not> sublist (lit ''..'') path"
proof -
  have all: "distinct (named_paths markdown)" "list_all looks_like_path (named_paths markdown)"
    using named_paths_step [of "[]" "code_spans markdown"] by (simp_all add: named_paths_def)
  show "distinct (named_paths markdown)" by (rule all)
  assume "path \<in> set (named_paths markdown)"
  then have "looks_like_path path" using all(2) by (simp add: list_all_iff)
  then show "path \<noteq> [] \<and> list_all plain_path_char path \<and> \<not> prefix (lit ''/'') path \<and> \<not> sublist (lit ''..'') path"
    unfolding looks_like_path_def if_bool_eq_disj by blast
qed

lemma sorted_distinct_adj: "sorted xs \<Longrightarrow> sorted (remdups_adj xs) \<and> distinct (remdups_adj xs)"
  by (induction xs rule: remdups_adj.induct) auto

text \<open>A wrapup is fresh exactly when no commit but the task's own touched what it names; the warning lists each such file once.\<close>

lemma freshness_exact:
  "freshness_verdict touches own = Fresh \<longleftrightarrow> (\<forall>touch \<in> set touches. ct_hash touch \<in> set own)"
  "freshness_verdict touches own = PossiblyStale paths commits \<Longrightarrow> sorted paths \<and> distinct paths
     \<and> set paths = (\<Union>touch \<in> {t \<in> set touches. ct_hash t \<notin> set own}. set (ct_files touch))
     \<and> commits = filter (\<lambda>h. h \<notin> set own) (map ct_hash touches)"
proof -
  show "freshness_verdict touches own = Fresh \<longleftrightarrow> (\<forall>touch \<in> set touches. ct_hash touch \<in> set own)"
    by (auto simp: freshness_verdict_def Let_def filter_empty_conv)
  assume "freshness_verdict touches own = PossiblyStale paths commits"
  then have paths: "paths = remdups_adj (sort (concat (map ct_files (filter (\<lambda>touch. ct_hash touch \<notin> set own) touches))))"
    and commits: "commits = map ct_hash (filter (\<lambda>touch. ct_hash touch \<notin> set own) touches)"
    by (auto simp: freshness_verdict_def Let_def split: if_splits)
  show "sorted paths \<and> distinct paths \<and> set paths = (\<Union>touch \<in> {t \<in> set touches. ct_hash t \<notin> set own}. set (ct_files touch))
     \<and> commits = filter (\<lambda>h. h \<notin> set own) (map ct_hash touches)"
    using sorted_distinct_adj [OF sorted_sort] by (auto simp: paths commits filter_map comp_def)
qed

text \<open>Writing a wrapup, whatever git answers and other clients commit meanwhile, keeps the store well formed.\<close>

lemma wrapup_write_keeps_store:
  "keeps (holds_with store_ok) (wrapup_write g task_id body author)"
  "keeps (holds_with store_ok) (wrapup_write_by_anchor u g project_label task_label body author)"
  "keeps (holds_with store_ok) (accept_quick_task_after_commit task_id commit)"
  "keeps (holds_with store_ok) (freshness_check g commits_of_task task_id)"
proof -
  have head: "keeps (holds_with store_ok) (head_in g folder)" for folder
    unfolding head_in_def by (intro keeps_intro world_db.keeps_outside)
  show "keeps (holds_with store_ok) (wrapup_write g task_id body author)"
    "keeps (holds_with store_ok) (wrapup_write_by_anchor u g project_label task_label body author)"
    unfolding wrapup_write_def wrapup_write_by_anchor_def
    using wrapup_call_ok wrapup_call.intros by (intro keeps_intro head world_db.keeps_reading world_db.keeps_db; blast)+
  show "keeps (holds_with store_ok) (accept_quick_task_after_commit task_id commit)"
    unfolding accept_quick_task_after_commit_def
    using review_call_ok review_call.intros by (intro keeps_intro world_db.keeps_db) blast
  show "keeps (holds_with store_ok) (freshness_check g commits_of_task task_id)"
    unfolding freshness_check_def split_def
    by (intro keeps_intro world_db.keeps_reading world_db.keeps_outside)
qed

end
