(* ===== verification/Guard.thy ===== *)
theory Guard
  imports Text_Split
begin

section \<open>The guard on a session's tools\<close>

text \<open>
  \<^verbatim>\<open>rekall-core/src/guard/rule/shell_command.rs\<close> reads a shell command line far enough to tell
  which git subcommands it runs; \<^verbatim>\<open>guard/service/guard_service.rs\<close> decides from that, and from the
  facts of the project, whether a tool call may go on. An iterator over the characters is the list of
  those left; a helper that advances it answers what is left too.
\<close>

subsection \<open>Words and commands\<close>

definition SEPARATORS :: "uchar list" where
  "SEPARATORS = lit '';&|()'' @ [10, 96]"

definition SHELLS :: "str list" where
  "SHELLS = [lit ''sh'', lit ''bash'', lit ''zsh'', lit ''dash'']"

definition GIT_OPTIONS_WITH_VALUE :: "str list" where
  "GIT_OPTIONS_WITH_VALUE = [lit ''-C'', lit ''-c'', lit ''--git-dir'', lit ''--work-tree'', lit ''--namespace'']"

datatype unreadable_command = UnterminatedQuote uchar

record word_reader =
  wr_commands :: "str list list"
  wr_words :: "str list"
  wr_word :: str
  wr_inside_word :: bool

definition reader_default :: word_reader where
  "reader_default = \<lparr>wr_commands = [], wr_words = [], wr_word = [], wr_inside_word = False\<rparr>"

definition push_text :: "str \<Rightarrow> word_reader \<Rightarrow> word_reader" where
  "push_text read r = r\<lparr>wr_word := wr_word r @ read, wr_inside_word := True\<rparr>"

definition end_word :: "word_reader \<Rightarrow> word_reader" where
  "end_word r = (if wr_inside_word r
     then r\<lparr>wr_words := wr_words r @ [wr_word r], wr_word := [], wr_inside_word := False\<rparr> else r)"

definition end_command :: "word_reader \<Rightarrow> word_reader" where
  "end_command r = (let ended = end_word r in
     if wr_words ended \<noteq> [] then ended\<lparr>wr_commands := wr_commands ended @ [wr_words ended], wr_words := []\<rparr> else ended)"

definition reader_finish :: "word_reader \<Rightarrow> str list list" where
  "reader_finish r = wr_commands (end_command r)"

fun single_quoted :: "str \<Rightarrow> unreadable_command + (str \<times> str)" where
  "single_quoted [] = Inl (UnterminatedQuote 39)"
| "single_quoted (c # cs) =
     (if c = 39 then Inr ([], cs)
      else case single_quoted cs of Inl e \<Rightarrow> Inl e | Inr (read, rest) \<Rightarrow> Inr (c # read, rest))"

fun double_quoted :: "str \<Rightarrow> unreadable_command + (str \<times> str)" where
  "double_quoted [] = Inl (UnterminatedQuote 34)"
| "double_quoted (c # cs) =
     (if c = 34 then Inr ([], cs)
      else if c = 92 then (case cs of
          [] \<Rightarrow> double_quoted []
        | d # ds \<Rightarrow> (case double_quoted ds of Inl e \<Rightarrow> Inl e | Inr (read, rest) \<Rightarrow> Inr (d # read, rest)))
      else case double_quoted cs of Inl e \<Rightarrow> Inl e | Inr (read, rest) \<Rightarrow> Inr (c # read, rest))"

lemma single_quoted_shorter: "single_quoted cs = Inr (read, rest) \<Longrightarrow> length read + length rest < length cs"
  by (induction cs arbitrary: read) (auto split: if_splits sum.splits)

lemma double_quoted_shorter: "double_quoted cs = Inr (read, rest) \<Longrightarrow> length read + length rest < length cs"
  by (induction cs arbitrary: read rule: double_quoted.induct)
    (fastforce split: if_splits sum.splits list.splits)+

function read_commands :: "word_reader \<Rightarrow> str \<Rightarrow> unreadable_command + str list list" where
  "read_commands r [] = Inr (reader_finish r)"
| "read_commands r (c # cs) =
     (if c = 39 then (case single_quoted cs of Inl e \<Rightarrow> Inl e
          | Inr (read, rest) \<Rightarrow> read_commands (push_text read r) rest)
      else if c = 34 then (case double_quoted cs of Inl e \<Rightarrow> Inl e
          | Inr (read, rest) \<Rightarrow> read_commands (push_text read r) rest)
      else if c = 92 then (case cs of [] \<Rightarrow> read_commands (push_text [] r) []
          | d # ds \<Rightarrow> read_commands (push_text [d] r) ds)
      else if c \<in> set SEPARATORS then read_commands (end_command r) cs
      else if rust_whitespace c then read_commands (end_word r) cs
      else read_commands (push_text [c] r) cs)"
  by pat_completeness auto
termination
  by (relation "measure (length \<circ> snd)") (auto dest: single_quoted_shorter double_quoted_shorter)

definition split_into_commands :: "str \<Rightarrow> unreadable_command + str list list" where
  "split_into_commands command = read_commands reader_default command"

subsection \<open>Which git subcommands a command line runs\<close>

definition base_name :: "str \<Rightarrow> str" where
  "base_name word = rev (takeWhile (\<lambda>c. c \<noteq> 47) (rev word))"

definition is_command_flag :: "str \<Rightarrow> bool" where
  "is_command_flag word = (prefix (lit ''-'') word \<and> \<not> prefix (lit ''--'') word \<and> 99 \<in> set word)"

text \<open>The word after the first flag that carries a \<open>c\<close>; the shell's own name cannot be such a flag.\<close>

fun after_first :: "('a \<Rightarrow> bool) \<Rightarrow> 'a list \<Rightarrow> 'a option" where
  "after_first p [] = None"
| "after_first p (x # xs) = (if p x then (case xs of [] \<Rightarrow> None | y # _ \<Rightarrow> Some y) else after_first p xs)"

definition script_run_by_shell :: "str list \<Rightarrow> str option" where
  "script_run_by_shell words = (case words of
       [] \<Rightarrow> None
     | first # _ \<Rightarrow> if base_name first \<notin> set SHELLS then None else after_first is_command_flag words)"

definition is_assignment :: "unicode_case \<Rightarrow> str \<Rightarrow> bool" where
  "is_assignment u word = (61 \<in> set word \<and>
     (let name = takeWhile (\<lambda>c. c \<noteq> 61) word in name \<noteq> [] \<and> list_all (\<lambda>c. alphanumeric u c \<or> c = 95) name))"

fun first_plain :: "str list \<Rightarrow> str option" where
  "first_plain [] = None"
| "first_plain (word # words) =
     (if word \<in> set GIT_OPTIONS_WITH_VALUE then (case words of [] \<Rightarrow> None | _ # left \<Rightarrow> first_plain left)
      else if \<not> prefix (lit ''-'') word then Some word else first_plain words)"

definition git_subcommand :: "unicode_case \<Rightarrow> str list \<Rightarrow> str option" where
  "git_subcommand u words = (case dropWhile (is_assignment u) words of
       [] \<Rightarrow> None
     | program # arguments \<Rightarrow> if base_name program \<noteq> lit ''git'' then None else first_plain arguments)"

text \<open>A loop over the commands that appends what each answers and stops at the first that cannot be read.\<close>

primrec collect :: "('a \<Rightarrow> 'e + 'b list) \<Rightarrow> 'a list \<Rightarrow> 'e + 'b list" where
  "collect f [] = Inr []"
| "collect f (x # xs) = (case f x of Inl e \<Rightarrow> Inl e
     | Inr ys \<Rightarrow> (case collect f xs of Inl e \<Rightarrow> Inl e | Inr zs \<Rightarrow> Inr (ys @ zs)))"

lemma collect_cong [fundef_cong]:
  "xs = ys \<Longrightarrow> (\<And>x. x \<in> set ys \<Longrightarrow> f x = g x) \<Longrightarrow> collect f xs = collect g ys"
  by (induction ys arbitrary: xs) (auto split: sum.split)

lemma collect_Inr:
  "collect f xs = Inr ys \<Longrightarrow> (\<forall>x \<in> set xs. \<exists>zs. f x = Inr zs \<and> set zs \<subseteq> set ys) \<and> (\<forall>y \<in> set ys. \<exists>x \<in> set xs. \<exists>zs. f x = Inr zs \<and> y \<in> set zs)"
  by (induction xs arbitrary: ys) (fastforce split: sum.splits)+

lemma collect_readable: "(\<exists>ys. collect f xs = Inr ys) \<longleftrightarrow> (\<forall>x \<in> set xs. \<exists>zs. f x = Inr zs)"
  by (induction xs) (auto split: sum.splits)

text \<open>
  A script handed to a shell is one of the words of the line, and another word names the shell: the
  script is shorter than the line, which is why reading scripts inside scripts ends.
\<close>

definition letters :: "str list \<Rightarrow> nat" where
  "letters words = sum_list (map length words)"

definition reader_letters :: "word_reader \<Rightarrow> nat" where
  "reader_letters r = sum_list (map letters (wr_commands r)) + letters (wr_words r) + length (wr_word r)"

lemma letters_simps [simp]: "letters [] = 0" "letters (w # ws) = length w + letters ws" "letters (ws @ vs) = letters ws + letters vs"
  by (simp_all add: letters_def)

lemma reader_letters_push [simp]: "reader_letters (push_text read r) = reader_letters r + length read"
  by (simp add: reader_letters_def push_text_def)

lemma reader_letters_end:
  "reader_letters (end_word r) \<le> reader_letters r"
  "reader_letters (end_command r) \<le> reader_letters r"
  by (auto simp: reader_letters_def end_word_def end_command_def Let_def)

lemma finish_letters: "sum_list (map letters (reader_finish r)) \<le> reader_letters r"
  using reader_letters_end(2) [of r] by (simp add: reader_finish_def reader_letters_def)

lemma read_letters:
  "read_commands r cs = Inr cmds \<Longrightarrow> sum_list (map letters cmds) \<le> reader_letters r + length cs"
proof (induction r cs rule: read_commands.induct)
  case (1 r)
  then show ?case using finish_letters [of r] by auto
next
  case (2 r c cs)
  consider (single) "c = 39" | (double) "c = 34" | (escape) "c = 92"
    | (plain) "c \<noteq> 39" "c \<noteq> 34" "c \<noteq> 92" by blast
  then show ?case
  proof cases
    case single
    then obtain read rest where q: "single_quoted cs = Inr (read, rest)" "read_commands (push_text read r) rest = Inr cmds"
      using "2.prems" by (auto split: sum.splits)
    from "2.IH"(1) [OF single q(1) refl q(2)] show ?thesis using single_quoted_shorter [OF q(1)] by simp
  next
    case double
    then obtain read rest where q: "double_quoted cs = Inr (read, rest)" "read_commands (push_text read r) rest = Inr cmds"
      using "2.prems" by (auto split: sum.splits)
    from "2.IH"(2) [OF _ double q(1) refl q(2)] double show ?thesis using double_quoted_shorter [OF q(1)] by simp
  next
    case escape
    then show ?thesis using "2.prems" "2.IH"(3,4) by (cases cs) auto
  next
    case plain
    then show ?thesis using "2.prems" "2.IH"(5,6,7) reader_letters_end [of r]
      by (cases "c \<in> set SEPARATORS"; cases "rust_whitespace c") simp_all
  qed
qed

lemma split_letters: "split_into_commands command = Inr cmds \<Longrightarrow> words \<in> set cmds \<Longrightarrow> letters words \<le> length command"
  using read_letters [of reader_default command cmds] member_le_sum_list [of "letters words" "map letters cmds"]
  by (simp add: split_into_commands_def reader_letters_def reader_default_def)

lemma after_first_letters: "after_first p (x # xs) = Some y \<Longrightarrow> length y \<le> letters xs"
proof -
  have "after_first p ys = Some y \<Longrightarrow> length y \<le> letters ys" for ys
    by (induction ys) (auto split: if_splits list.splits)
  then show "after_first p (x # xs) = Some y \<Longrightarrow> length y \<le> letters xs" by (auto split: if_splits list.splits)
qed

lemma base_name_length: "length (base_name w) \<le> length w"
  by (metis base_name_def length_rev length_takeWhile_le)

lemma script_shorter:
  assumes "split_into_commands command = Inr cmds" "words \<in> set cmds" "script_run_by_shell words = Some script"
  shows "length script < length command"
proof -
  from assms(3) obtain first rest where w: "words = first # rest" "base_name first \<in> set SHELLS"
    "after_first is_command_flag (first # rest) = Some script"
    by (auto simp: script_run_by_shell_def split: list.splits if_splits)
  have "0 < length first" using w(2) base_name_length [of first] by (auto simp: SHELLS_def)
  moreover have "length first + letters rest \<le> length command" using split_letters [OF assms(1,2)] w(1) by simp
  ultimately show ?thesis using after_first_letters [OF w(3)] by linarith
qed

function git_subcommands :: "unicode_case \<Rightarrow> str \<Rightarrow> unreadable_command + str list" where
  "git_subcommands u command = (case split_into_commands command of Inl e \<Rightarrow> Inl e
     | Inr cmds \<Rightarrow> collect (\<lambda>words. case script_run_by_shell words of
           Some script \<Rightarrow> git_subcommands u script
         | None \<Rightarrow> Inr (case git_subcommand u words of None \<Rightarrow> [] | Some sub \<Rightarrow> [sub])) cmds)"
  by pat_completeness auto
termination
  by (relation "measure (length \<circ> snd)") (auto dest: script_shorter)

declare git_subcommands.simps [simp del]

subsection \<open>The decision\<close>

datatype guard_event = BeforeTool (be_tool_name: str) (be_command_or_path: str) | BeforeStop

record guard_context =
  gc_auto_commit :: bool
  gc_running_step_number :: "nat option"
  gc_protected_credential_references :: "str list"

datatype guard_verdict = Allow | Block message

definition SHELL_TOOL :: str where "SHELL_TOOL = lit ''Bash''"

definition SUBCOMMANDS_REKALL_RUNS :: "str list" where
  "SUBCOMMANDS_REKALL_RUNS = [lit ''commit'', lit ''push'', lit ''add'']"

definition credential_access_refusal :: "str \<Rightarrow> guard_context \<Rightarrow> message option" where
  "credential_access_refusal command_or_path context =
     (if list_ex (\<lambda>reference. find_from reference 0 command_or_path \<noteq> None) (gc_protected_credential_references context)
      then Some (Msg ''this reaches Rekall's credentials'' []) else None)"

definition manual_git_refusal :: "unicode_case \<Rightarrow> str \<Rightarrow> str \<Rightarrow> guard_context \<Rightarrow> message option" where
  "manual_git_refusal u tool_name command context =
     (if \<not> gc_auto_commit context \<or> tool_name \<noteq> SHELL_TOOL then None
      else case git_subcommands u command of
        Inl failure \<Rightarrow> None
      | Inr subcommands \<Rightarrow> map_option (\<lambda>forbidden. Msg ''do not run git'' [forbidden])
          (List.find (\<lambda>subcommand. subcommand \<in> set SUBCOMMANDS_REKALL_RUNS) subcommands))"

definition refusal_before_tool :: "unicode_case \<Rightarrow> str \<Rightarrow> str \<Rightarrow> guard_context \<Rightarrow> message option" where
  "refusal_before_tool u tool_name command_or_path context =
     (case credential_access_refusal command_or_path context of
        Some refusal \<Rightarrow> Some refusal
      | None \<Rightarrow> manual_git_refusal u tool_name command_or_path context)"

definition refusal_before_stop :: "guard_context \<Rightarrow> message option" where
  "refusal_before_stop context = map_option (\<lambda>number. Msg ''is still running and was never claimed'' [show_nat number])
     (gc_running_step_number context)"

definition decide :: "unicode_case \<Rightarrow> guard_event \<Rightarrow> guard_context \<Rightarrow> guard_verdict" where
  "decide u event context =
     (case (case event of
          BeforeTool tool_name command_or_path \<Rightarrow> refusal_before_tool u tool_name command_or_path context
        | BeforeStop \<Rightarrow> refusal_before_stop context) of
        Some reason \<Rightarrow> Block reason
      | None \<Rightarrow> Allow)"

section \<open>What the guard promises\<close>

text \<open>
  The subcommands a line runs, as a relation: directly, or through a script handed to a shell; and
  the lines that can be read to the bottom.
\<close>

inductive runs_git :: "unicode_case \<Rightarrow> str \<Rightarrow> str \<Rightarrow> bool" for u where
  direct: "\<lbrakk>split_into_commands command = Inr cmds; words \<in> set cmds; script_run_by_shell words = None;
     git_subcommand u words = Some sub\<rbrakk> \<Longrightarrow> runs_git u command sub"
| nested: "\<lbrakk>split_into_commands command = Inr cmds; words \<in> set cmds; script_run_by_shell words = Some script;
     runs_git u script sub\<rbrakk> \<Longrightarrow> runs_git u command sub"

inductive readable :: "str \<Rightarrow> bool" where
  "\<lbrakk>split_into_commands command = Inr cmds;
    \<And>words script. words \<in> set cmds \<Longrightarrow> script_run_by_shell words = Some script \<Longrightarrow> readable script\<rbrakk> \<Longrightarrow> readable command"

lemma git_subcommands_sound: "git_subcommands u command = Inr subs \<Longrightarrow> readable command \<and> (\<forall>sub \<in> set subs. runs_git u command sub)"
proof (induction u command arbitrary: subs rule: git_subcommands.induct)
  case (1 u command)
  let ?f = "\<lambda>words. case script_run_by_shell words of Some script \<Rightarrow> git_subcommands u script
    | None \<Rightarrow> Inr (case git_subcommand u words of None \<Rightarrow> [] | Some sub \<Rightarrow> [sub])"
  obtain cmds where cmds: "split_into_commands command = Inr cmds" and all: "collect ?f cmds = Inr subs"
    using "1.prems" by (auto simp: git_subcommands.simps [of u command] split: sum.splits)
  have inner: "readable script \<and> (\<forall>sub \<in> set zs. runs_git u script sub)"
    if "words \<in> set cmds" "script_run_by_shell words = Some script" "git_subcommands u script = Inr zs" for words script zs
    using "1.IH" [OF cmds that] .
  have "readable command"
    using collect_Inr [OF all] inner by (intro readable.intros [OF cmds]) fastforce
  moreover have "runs_git u command sub" if found: "sub \<in> set subs" for sub
  proof -
    obtain words zs where w: "words \<in> set cmds" "?f words = Inr zs" "sub \<in> set zs" using collect_Inr [OF all] found by blast
    show ?thesis
    proof (cases "script_run_by_shell words")
      case None
      then show ?thesis using w by (auto intro!: runs_git.direct [OF cmds w(1) None] split: option.splits)
    next
      case (Some script)
      then show ?thesis using w inner [OF w(1) Some] by (auto intro: runs_git.nested [OF cmds w(1) Some])
    qed
  qed
  ultimately show ?case by blast
qed

lemma git_subcommands_readable: "readable command \<Longrightarrow> \<exists>subs. git_subcommands u command = Inr subs"
proof (induction rule: readable.induct)
  case (1 command cmds)
  then show ?case by (auto simp: git_subcommands.simps [of u command] collect_readable split: option.splits)
qed

lemma git_subcommands_complete: "runs_git u command sub \<Longrightarrow> git_subcommands u command = Inr subs \<Longrightarrow> sub \<in> set subs"
proof (induction arbitrary: subs rule: runs_git.induct)
  case (direct command cmds words sub)
  then show ?case by (fastforce simp: git_subcommands.simps [of u command] dest!: collect_Inr)
next
  case (nested command cmds words script sub)
  then show ?case by (fastforce simp: git_subcommands.simps [of u command] dest!: collect_Inr)
qed

lemma find_from_sublist: "find_from needle i t \<noteq> None \<longleftrightarrow> sublist needle t"
  by (induction needle i t rule: find_from.induct) (auto simp: sublist_Cons_right)

lemma manual_git_iff:
  "manual_git_refusal u tool command context \<noteq> None \<longleftrightarrow> gc_auto_commit context \<and> tool = lit ''Bash'' \<and> readable command
     \<and> (\<exists>sub \<in> {lit ''commit'', lit ''push'', lit ''add''}. runs_git u command sub)"
proof (cases "git_subcommands u command")
  case (Inl e)
  then have "\<not> readable command" using git_subcommands_readable [of command u] by auto
  then show ?thesis by (simp add: Inl manual_git_refusal_def)
next
  case (Inr subs)
  have runs: "readable command" "sub \<in> set subs \<longleftrightarrow> runs_git u command sub" for sub
    using git_subcommands_sound [OF Inr] git_subcommands_complete [OF _ Inr] by blast+
  have "List.find p subs \<noteq> None \<longleftrightarrow> (\<exists>sub \<in> set subs. p sub)" for p by (auto simp: find_None_iff)
  then show ?thesis
    by (auto simp: Inr manual_git_refusal_def runs SHELL_TOOL_def SUBCOMMANDS_REKALL_RUNS_def)
qed


text \<open>
  C21. Reading a script inside a script always comes to an end: there is no endless chain of command lines in
  which each one hands the next to a shell.
\<close>

theorem scripts_nest_finitely:
  "wf {(script, command). \<exists>cmds words. split_into_commands command = Inr cmds \<and> words \<in> set cmds
     \<and> script_run_by_shell words = Some script}"
  by (rule wf_subset [OF wf_measure [of length]]) (auto dest: script_shorter)

subsection \<open>Quoting\<close>

definition quoted :: "str \<Rightarrow> str" where
  "quoted word = 39 # word @ [39]"

lemma single_quoted_word: "39 \<notin> set word \<Longrightarrow> single_quoted (word @ 39 # rest) = Inr (word, rest)"
  by (induction word) auto

lemma read_quoted: "39 \<notin> set word \<Longrightarrow> read_commands r (quoted word @ rest) = read_commands (push_text word r) rest"
  by (simp add: quoted_def single_quoted_word)

lemma read_space: "read_commands r (32 # rest) = read_commands (end_word r) rest"
  by (simp add: SEPARATORS_def rust_whitespace_def)

lemma read_semicolon: "read_commands r (59 # rest) = read_commands (end_command r) rest"
  by (simp add: SEPARATORS_def)

lemma read_words:
  assumes "words \<noteq> []" "\<forall>w \<in> set words. 39 \<notin> set w"
  shows "read_commands \<lparr>wr_commands = cs, wr_words = ws, wr_word = [], wr_inside_word = False\<rparr> (joined 32 (map quoted words) @ rest)
    = read_commands \<lparr>wr_commands = cs, wr_words = ws @ butlast words, wr_word = last words, wr_inside_word = True\<rparr> rest"
  using assms
proof (induction words arbitrary: ws)
  case (Cons w words)
  then show ?case
    by (cases words) (simp_all add: read_quoted read_space push_text_def end_word_def del: read_commands.simps)
qed simp

lemma read_lines:
  assumes "\<forall>words \<in> set cmds. words \<noteq> [] \<and> (\<forall>w \<in> set words. 39 \<notin> set w)"
  shows "read_commands \<lparr>wr_commands = cs, wr_words = [], wr_word = [], wr_inside_word = False\<rparr>
      (joined 59 (map (\<lambda>words. joined 32 (map quoted words)) cmds)) = Inr (cs @ cmds)"
  using assms
proof (induction cmds arbitrary: cs)
  case Nil
  then show ?case by (simp add: reader_finish_def end_command_def end_word_def)
next
  case (Cons words cmds)
  note quotable = Cons.prems and rest = Cons.IH [of "cs @ [words]"]
  have ws: "butlast words @ [last words] = words" using quotable by simp
  show ?case
  proof (cases cmds)
    case Nil
    then show ?thesis using quotable read_words [of words cs "[]" "[]"] ws
      by (simp add: reader_finish_def end_command_def end_word_def)
  next
    case (Cons second more)
    then show ?thesis using quotable rest ws
      by (simp add: read_words read_semicolon end_command_def end_word_def del: read_commands.simps)
  qed
qed

text \<open>
  C22. Quoting round trip: commands written with every word in single quotes, words apart by a space and
  commands by a semicolon, read back as exactly the same commands and words, whatever characters other than
  a single quote the words hold, empty words included.
\<close>

theorem split_quoted_roundtrip:
  assumes "\<forall>words \<in> set cmds. words \<noteq> [] \<and> (\<forall>w \<in> set words. 39 \<notin> set w)"
  shows "split_into_commands (joined 59 (map (\<lambda>words. joined 32 (map quoted words)) cmds)) = Inr cmds"
  using read_lines [OF assms, of "[]"] by (simp add: split_into_commands_def reader_default_def)

theorem split_quoted_roundtrip_witness:
  "split_into_commands (joined 59 (map (\<lambda>words. joined 32 (map quoted words))
     [[lit ''git'', lit ''commit'', lit ''-m'', lit ''a; b''], [lit ''ls'', []]]))
   = Inr [[lit ''git'', lit ''commit'', lit ''-m'', lit ''a; b''], [lit ''ls'', []]]"
  by (rule split_quoted_roundtrip) simp

subsection \<open>Where assignments are skipped and where not\<close>

text \<open>
  Leading assignments are skipped before the name git but not before the name of a shell, so
  \<^verbatim>\<open>X=1 git commit\<close> is read as a commit and \<^verbatim>\<open>X=1 sh -c 'git commit'\<close> as nothing.
\<close>

lemmas guard_run [run_defs] = split_into_commands_def reader_default_def push_text_def end_word_def end_command_def
  reader_finish_def SEPARATORS_def script_run_by_shell_def base_name_def SHELLS_def
  is_command_flag_def git_subcommand_def is_assignment_def GIT_OPTIONS_WITH_VALUE_def quoted_def

lemma assignment_hides_shell:
  "git_subcommands ascii_case (lit ''X=1 git commit'') = Inr [lit ''commit'']"
  "git_subcommands ascii_case (lit ''sh -c '' @ quoted (lit ''git commit'')) = Inr [lit ''commit'']"
  "git_subcommands ascii_case (lit ''X=1 sh -c '' @ quoted (lit ''git commit'')) = Inr []"
  by (simp_all add: run_defs git_subcommands.simps)

end
