(* ===== verification/Version_Range.thy ===== *)
theory Version_Range
  imports Text_Split
begin

section \<open>Version ranges\<close>

text \<open>
  \<^verbatim>\<open>rekall-core/src/vulnerability/model/version_range.rs\<close>: whether a version falls inside a range as the
  GitHub Advisory Database writes one. A release number is a \<^verbatim>\<open>u64\<close>; one that does not fit
  makes the version unreadable, and a run of digits that does not fit in a qualifier is a word.
\<close>

definition POST_RELEASE :: "str list" where
  "POST_RELEASE = [lit ''post'', lit ''p'', lit ''pl'', lit ''patch'', lit ''r'', lit ''rev'', lit ''sp'']"

definition RELEASE_WORDS :: "str list" where
  "RELEASE_WORDS = [lit ''final'', lit ''ga'', lit ''release'', lit ''releases'']"

datatype operator = AtLeast | AtMost | Above | Below | Exactly

fun admits :: "operator \<Rightarrow> ordering \<Rightarrow> bool" where
  "admits AtLeast ord = (ord \<noteq> Less)"
| "admits AtMost ord = (ord \<noteq> Greater)"
| "admits Above ord = (ord = Greater)"
| "admits Below ord = (ord = Less)"
| "admits Exactly ord = (ord = Equal)"

definition operators :: "(str \<times> operator) list" where
  "operators = [(lit ''>='', AtLeast), (lit ''<='', AtMost), (lit ''=='', Exactly), (lit ''>'', Above),
     (lit ''<'', Below), (lit ''='', Exactly)]"

fun find_map :: "('a \<Rightarrow> 'b option) \<Rightarrow> 'a list \<Rightarrow> 'b option" where
  "find_map f [] = None"
| "find_map f (x # xs) = (case f x of Some y \<Rightarrow> Some y | None \<Rightarrow> find_map f xs)"

definition bound_of :: "str \<Rightarrow> (operator \<times> str) option" where
  "bound_of bound =
     (case find_map (\<lambda>(mark, operator). map_option (\<lambda>rest. (operator, rust_trim rest)) (strip_prefix mark (rust_trim bound))) operators of
        None \<Rightarrow> None
      | Some (operator, version) \<Rightarrow> if version \<noteq> [] then Some (operator, version) else None)"

datatype part = Number nat | Word str

text \<open>
  Element by element; when one runs out first, the shorter sorts first: how Rust orders a \<^verbatim>\<open>String\<close> and how
  \<^verbatim>\<open>compare_parts\<close> orders two qualifiers.
\<close>

definition lexicographic :: "('a \<Rightarrow> 'a \<Rightarrow> ordering) \<Rightarrow> 'a list \<Rightarrow> 'a list \<Rightarrow> ordering" where
  "lexicographic c left right =
     (case List.find (\<lambda>ord. ord \<noteq> Equal) (map2 c left right) of
        Some ord \<Rightarrow> ord
      | None \<Rightarrow> ord_of (length left) (length right))"

fun part_compare :: "part \<Rightarrow> part \<Rightarrow> ordering" where
  "part_compare (Number left) (Number right) = ord_of left right"
| "part_compare (Word left) (Word right) = lexicographic ord_of left right"
| "part_compare (Number _) (Word _) = Less"
| "part_compare (Word _) (Number _) = Greater"

definition compare_parts :: "part list \<Rightarrow> part list \<Rightarrow> ordering" where
  "compare_parts left right = lexicographic part_compare left right"

datatype qualifier = Pre "part list" | Release | Post "part list"

fun qualifier_rank :: "qualifier \<Rightarrow> nat" where
  "qualifier_rank (Pre _) = 0"
| "qualifier_rank Release = 1"
| "qualifier_rank (Post _) = 2"

fun qualifier_compare :: "qualifier \<Rightarrow> qualifier \<Rightarrow> ordering" where
  "qualifier_compare (Pre left) (Pre right) = compare_parts left right"
| "qualifier_compare (Post left) (Post right) = compare_parts left right"
| "qualifier_compare self other = ord_of (qualifier_rank self) (qualifier_rank other)"

definition qualifier_of :: "part list \<Rightarrow> qualifier" where
  "qualifier_of parts = (case parts of
       [] \<Rightarrow> Release
     | Word word # _ \<Rightarrow> if word \<in> set RELEASE_WORDS then Release
                        else if word \<in> set POST_RELEASE then Post parts else Pre parts
     | Number _ # _ \<Rightarrow> Pre parts)"

record version =
  ve_release :: "nat list"
  ve_qualifier :: qualifier

definition release_at :: "nat list \<Rightarrow> nat \<Rightarrow> nat" where
  "release_at release index = (if index < length release then release ! index else 0)"

definition version_compare :: "version \<Rightarrow> version \<Rightarrow> ordering" where
  "version_compare self other =
     (let len = max (length (ve_release self)) (length (ve_release other))
      in case List.find (\<lambda>ord. ord \<noteq> Equal)
           (map (\<lambda>index. ord_of (release_at (ve_release self) index) (release_at (ve_release other) index)) [0..<len]) of
           Some ord \<Rightarrow> ord
         | None \<Rightarrow> qualifier_compare (ve_qualifier self) (ve_qualifier other))"

subsection \<open>Reading a version\<close>

text \<open>
  The dot-separated numbers a version starts with, and what is left after them. \<open>release\<close> holds the
  numbers read so far; \<open>None\<close> is a number that does not fit, or no number at all.
\<close>

function release_from :: "nat list \<Rightarrow> str \<Rightarrow> (nat list \<times> str) option" where
  "release_from release rest =
     (let digits = takeWhile ascii_digit rest; after = drop (length digits) rest
      in if digits = [] then (if release = [] then None else Some (release, rest))
         else case parse_u64 digits of
           None \<Rightarrow> None
         | Some number \<Rightarrow>
             (case after of
                dot # left \<Rightarrow> if dot = 46 \<and> (case left of d # _ \<Rightarrow> ascii_digit d | [] \<Rightarrow> False)
                              then release_from (release @ [number]) left
                              else Some (release @ [number], after)
              | [] \<Rightarrow> Some (release @ [number], after)))"
  by pat_completeness auto
termination
proof (relation "measure (length \<circ> snd)")
  fix release :: "nat list" and rest digits after left :: str and number dot
  assume "digits = takeWhile ascii_digit rest" "after = drop (length digits) rest" "after = dot # left"
  then have "length (dot # left) \<le> length rest" by (metis length_drop diff_le_self)
  then show "((release @ [number], left), release, rest) \<in> measure (length \<circ> snd)" by simp
qed simp

declare release_from.simps [simp del]

definition release_of :: "str \<Rightarrow> (nat list \<times> str) option" where
  "release_of t = release_from [] t"

definition ascii_alphanumeric :: "uchar \<Rightarrow> bool" where
  "ascii_alphanumeric c = (ascii_digit c \<or> (65 \<le> c \<and> c \<le> 90) \<or> (97 \<le> c \<and> c \<le> 122))"

definition push_part :: "part list \<Rightarrow> str \<Rightarrow> part list" where
  "push_part parts current =
     (if current = [] then parts
      else parts @ [case parse_u64 current of Some number \<Rightarrow> Number number | None \<Rightarrow> Word current])"

fun parts_from :: "part list \<Rightarrow> str \<Rightarrow> str \<Rightarrow> part list" where
  "parts_from parts current [] = push_part parts current"
| "parts_from parts current (c # cs) =
     (let continues = current \<noteq> [] \<and> ascii_digit (last current) = ascii_digit c;
          ends = \<not> ascii_alphanumeric c \<or> \<not> continues;
          parts' = (if ends then push_part parts current else parts);
          current' = (if ends then [] else current)
      in parts_from parts' (if ascii_alphanumeric c then current' @ [ascii_lower c] else current') cs)"

definition parts_of :: "str \<Rightarrow> part list" where
  "parts_of t = parts_from [] [] t"

definition version_read :: "str \<Rightarrow> version option" where
  "version_read given =
     (let trimmed = rust_trim given;
          bare = (case trimmed of
             v # d # left \<Rightarrow> if (v = 118 \<or> v = 86) \<and> ascii_digit d then d # left else trimmed
           | _ \<Rightarrow> trimmed);
          unbuilt = takeWhile (\<lambda>c. c \<noteq> 43) bare
      in map_option (\<lambda>(release, rest). \<lparr>ve_release = release, ve_qualifier = qualifier_of (parts_of rest)\<rparr>) (release_of unbuilt))"

subsection \<open>Whether a range holds a version\<close>

fun contains_from :: "version \<Rightarrow> bool \<Rightarrow> str list \<Rightarrow> bool option" where
  "contains_from version holds [] = Some holds"
| "contains_from version holds (bound # bounds) = (case bound_of bound of
       None \<Rightarrow> None
     | Some (operator, bound_version) \<Rightarrow> (case version_read bound_version of
          None \<Rightarrow> None
        | Some limit \<Rightarrow> contains_from version (holds \<and> admits operator (version_compare version limit)) bounds))"

definition range_contains :: "str \<Rightarrow> str \<Rightarrow> bool option" where
  "range_contains bounds given = (case version_read given of
       None \<Rightarrow> None
     | Some version \<Rightarrow> contains_from version True (split_on 44 bounds))"

section \<open>Three-way comparisons\<close>

fun flip :: "ordering \<Rightarrow> ordering" where
  "flip Less = Greater"
| "flip Equal = Equal"
| "flip Greater = Less"

lemma flip_iff [simp]: "flip c = Less \<longleftrightarrow> c = Greater" "flip c = Greater \<longleftrightarrow> c = Less" "flip c = Equal \<longleftrightarrow> c = Equal"
  by (cases c; simp)+

text \<open>
  What a comparison promises its callers: turning the operands round turns the answer round, and not being
  above is transitive. Everything a sort or a range check relies on follows, and lists compared
  element by element keep the promise.
\<close>

locale three_way =
  fixes cmp :: "'a \<Rightarrow> 'a \<Rightarrow> ordering"
  assumes turned: "flip (cmp x y) = cmp y x"
    and trans: "cmp x y \<noteq> Greater \<Longrightarrow> cmp y z \<noteq> Greater \<Longrightarrow> cmp x z \<noteq> Greater"
begin

lemma same [simp]: "cmp x x = Equal"
  using turned [of x x] by (cases "cmp x x") auto

lemma Greater_iff: "cmp x y = Greater \<longleftrightarrow> cmp y x = Less"
  using turned [of x y] by (metis flip_iff(1))

lemma Equal_sym: "cmp x y = Equal \<longleftrightarrow> cmp y x = Equal"
  using turned [of x y] by (metis flip_iff(3))

lemma less_trans: "cmp x y = Less \<Longrightarrow> cmp y z \<noteq> Greater \<Longrightarrow> cmp x z = Less"
  using trans [of x y z] trans [of y z x] Greater_iff [of y x] Equal_sym [of x z] Greater_iff [of z x] by (cases "cmp x z") auto

lemma trans_less: "cmp x y \<noteq> Greater \<Longrightarrow> cmp y z = Less \<Longrightarrow> cmp x z = Less"
  using trans [of x y z] trans [of z x y] Greater_iff [of z y] Equal_sym [of x z] Greater_iff [of z x] by (cases "cmp x z") auto

lemma Equal_left: "cmp x y = Equal \<Longrightarrow> cmp x z = cmp y z"
proof (cases "cmp y z")
  case Less
  then show ?thesis if "cmp x y = Equal" using that trans_less [of x y z] by simp
next
  case Equal
  then show ?thesis if "cmp x y = Equal"
    using that trans [of x y z] trans [of z y x] Equal_sym [of y z] Equal_sym [of x y] Greater_iff [of z x] by (cases "cmp x z") auto
next
  case Greater
  then show ?thesis if "cmp x y = Equal"
    using that less_trans [of z y x] Greater_iff [of y z] Greater_iff [of x z] Equal_sym [of x y] by simp
qed

lemma Equal_right: "cmp x y = Equal \<Longrightarrow> cmp z x = cmp z y"
  by (metis Equal_left turned)

end

lemma ord_of_simps [simp]: "ord_of x y = Less \<longleftrightarrow> x < y" "ord_of x y = Equal \<longleftrightarrow> x = y" "ord_of x y = Greater \<longleftrightarrow> y < x"
  by (auto simp: ord_of_def)

interpretation numbers: three_way "ord_of :: 'b::linorder \<Rightarrow> 'b \<Rightarrow> ordering"
proof
  show "flip (ord_of x y) = ord_of y x" for x y :: 'b by (auto simp: ord_of_def)
  show "ord_of x y \<noteq> Greater \<Longrightarrow> ord_of y z \<noteq> Greater \<Longrightarrow> ord_of x z \<noteq> Greater" for x y z :: 'b by auto
qed

lemma lexicographic_simps [simp]:
  "lexicographic c [] [] = Equal" "lexicographic c [] (y # ys) = Less" "lexicographic c (x # xs) [] = Greater"
  "lexicographic c (x # xs) (y # ys) = (if c x y = Equal then lexicographic c xs ys else c x y)"
  by (auto simp: lexicographic_def ord_of_def split: option.split)

context three_way
begin

lemma lexicographic_turned: "flip (lexicographic cmp xs ys) = lexicographic cmp ys xs"
proof (induction xs arbitrary: ys)
  case Nil
  then show ?case by (cases ys) auto
next
  case (Cons x xs)
  then show ?case using turned [of x] Equal_sym by (cases ys) auto
qed

lemma lexicographic_trans:
  "lexicographic cmp xs ys \<noteq> Greater \<Longrightarrow> lexicographic cmp ys zs \<noteq> Greater \<Longrightarrow> lexicographic cmp xs zs \<noteq> Greater"
proof (induction xs arbitrary: ys zs)
  case Nil
  then show ?case by (cases zs) auto
next
  case (Cons x xs)
  obtain y ys' z zs' where l: "ys = y # ys'" "zs = z # zs'" using Cons.prems by (cases ys; cases zs) auto
  consider "cmp x y = Equal" "cmp y z = Equal" | "cmp x y = Less" | "cmp x y = Equal" "cmp y z = Less"
    using Cons.prems by (cases "cmp x y"; cases "cmp y z") (auto simp: l)
  then show ?case
  proof cases
    case 1
    then show ?thesis using Cons Equal_left [of x y z] by (auto simp: l)
  next
    case 2
    moreover have "cmp y z \<noteq> Greater" using Cons.prems by (auto simp: l)
    ultimately show ?thesis using less_trans [of x y z] by (auto simp: l)
  next
    case 3
    then show ?thesis using trans_less [of x y z] by (auto simp: l)
  qed
qed

end

interpretation words: three_way "lexicographic (ord_of :: uchar \<Rightarrow> uchar \<Rightarrow> ordering)"
  by unfold_locales (rule numbers.lexicographic_turned, erule (1) numbers.lexicographic_trans)

interpretation parts: three_way part_compare
proof
  show "flip (part_compare x y) = part_compare y x" for x y
    by (cases x; cases y) (auto simp: numbers.turned words.turned)
  show "part_compare x z \<noteq> Greater" if "part_compare x y \<noteq> Greater" "part_compare y z \<noteq> Greater" for x y z
    using that by (cases x; cases y; cases z) (simp_all, erule (1) words.trans)
qed

interpretation qualifiers: three_way qualifier_compare
proof
  show "flip (qualifier_compare x y) = qualifier_compare y x" for x y
    by (cases x; cases y) (auto simp: compare_parts_def parts.lexicographic_turned ord_of_def)
  show "qualifier_compare x z \<noteq> Greater" if "qualifier_compare x y \<noteq> Greater" "qualifier_compare y z \<noteq> Greater" for x y z
    using that by (cases x; cases y; cases z) (simp_all add: compare_parts_def, (erule (1) parts.lexicographic_trans)+)
qed

section \<open>The order of versions\<close>

text \<open>Two releases padded with zeros to one common length compare element by element.\<close>

definition padded :: "nat \<Rightarrow> version \<Rightarrow> nat list" where
  "padded n v = map (release_at (ve_release v)) [0..<n]"

lemma find_irrelevant: "(\<And>x. x \<in> set ys \<Longrightarrow> \<not> p x) \<Longrightarrow> List.find p (xs @ ys) = List.find p xs"
  by (induction xs) (auto simp: find_None_iff)

lemma release_padding:
  assumes "max (length (ve_release a)) (length (ve_release b)) \<le> n"
  shows "List.find (\<lambda>ord. ord \<noteq> Equal) (map2 ord_of (padded n a) (padded n b)) = List.find (\<lambda>ord. ord \<noteq> Equal)
     (map (\<lambda>i. ord_of (release_at (ve_release a) i) (release_at (ve_release b) i)) [0..<max (length (ve_release a)) (length (ve_release b))])"
    (is "_ = List.find _ (map ?f [0..<?m])")
proof -
  have "map2 ord_of (padded n a) (padded n b) = map ?f [0..<n]" by (auto simp: padded_def zip_map_map zip_same_conv_map)
  also have "[0..<n] = [0..<?m] @ [?m..<n]" using upt_add_eq_append [of 0 ?m "n - ?m"] assms by simp
  also have "List.find (\<lambda>ord. ord \<noteq> Equal) (map ?f ([0..<?m] @ [?m..<n])) = List.find (\<lambda>ord. ord \<noteq> Equal) (map ?f [0..<?m])"
    unfolding map_append by (rule find_irrelevant) (auto simp: release_at_def)
  finally show ?thesis .
qed

lemma version_compare_padded:
  assumes "max (length (ve_release a)) (length (ve_release b)) \<le> n"
  shows "version_compare a b = (case lexicographic ord_of (padded n a) (padded n b) of
      Equal \<Rightarrow> qualifier_compare (ve_qualifier a) (ve_qualifier b) | ord \<Rightarrow> ord)"
proof (cases "List.find (\<lambda>ord. ord \<noteq> Equal) (map2 ord_of (padded n a) (padded n b))")
  case None
  then show ?thesis
    by (simp add: version_compare_def lexicographic_def None release_padding [OF assms, symmetric]) (simp add: padded_def)
next
  case (Some ord)
  then have "ord \<noteq> Equal" by (auto simp: find_Some_iff)
  then show ?thesis
    by (cases ord) (simp_all add: version_compare_def lexicographic_def Some release_padding [OF assms, symmetric])
qed

interpretation versions: three_way version_compare
proof
  show "flip (version_compare x y) = version_compare y x" for x y
  proof -
    let ?n = "max (length (ve_release x)) (length (ve_release y))"
    have "flip (lexicographic ord_of (padded ?n x) (padded ?n y)) = lexicographic ord_of (padded ?n y) (padded ?n x)"
      by (rule words.turned)
    then show ?thesis using qualifiers.turned [of "ve_qualifier x" "ve_qualifier y"]
      by (cases "lexicographic ord_of (padded ?n x) (padded ?n y)")
        (auto simp: version_compare_padded [of x y ?n] version_compare_padded [of y x ?n] max.commute)
  qed
  show "version_compare x z \<noteq> Greater" if xy: "version_compare x y \<noteq> Greater" and yz: "version_compare y z \<noteq> Greater" for x y z
  proof -
    let ?n = "max (length (ve_release x)) (max (length (ve_release y)) (length (ve_release z)))"
    let ?l = "\<lambda>a b. lexicographic ord_of (padded ?n a) (padded ?n b)" and ?q = "\<lambda>a b. qualifier_compare (ve_qualifier a) (ve_qualifier b)"
    have cmp: "version_compare x y = (case ?l x y of Equal \<Rightarrow> ?q x y | ord \<Rightarrow> ord)"
      "version_compare y z = (case ?l y z of Equal \<Rightarrow> ?q y z | ord \<Rightarrow> ord)"
      "version_compare x z = (case ?l x z of Equal \<Rightarrow> ?q x z | ord \<Rightarrow> ord)"
      by (intro version_compare_padded; simp)+
    consider "?l x y = Less" "?l y z \<noteq> Greater" | "?l x y = Equal" "?l y z = Less"
      | "?l x y = Equal" "?l y z = Equal" "?q x y \<noteq> Greater" "?q y z \<noteq> Greater"
      using xy yz unfolding cmp by (cases "?l x y"; cases "?l y z") auto
    then show ?thesis
    proof cases
      case 1
      then show ?thesis unfolding cmp using words.less_trans by fastforce
    next
      case 2
      then have "?l x z = Less" using words.trans_less [of "padded ?n x" "padded ?n y" "padded ?n z"] by simp
      then show ?thesis unfolding cmp by simp
    next
      case 3
      then have "?l x z = Equal" using words.Equal_left by metis
      then show ?thesis unfolding cmp using qualifiers.trans [OF 3(3,4)] by simp
    qed
  qed
qed

lemma same_release_compare:
  assumes "\<And>i. release_at (ve_release a) i = release_at (ve_release b) i"
  shows "version_compare a b = qualifier_compare (ve_qualifier a) (ve_qualifier b)"
proof -
  let ?n = "max (length (ve_release a)) (length (ve_release b))"
  have "padded ?n a = padded ?n b" using assms by (simp add: padded_def)
  then show ?thesis by (simp add: version_compare_padded [of a b ?n])
qed

text \<open>
  C24. Versions are totally preordered: turning a comparison round turns its answer round, not being above is
  transitive, and versions that compare equal compare alike with every third. Where the numbers agree, the shorter one
  padded with zeros, a pre-release comes before the release and the release before a post-release.
\<close>

theorem version_order:
  "flip (version_compare a b) = version_compare b a
   \<and> (version_compare a b \<noteq> Greater \<longrightarrow> version_compare b c \<noteq> Greater \<longrightarrow> version_compare a c \<noteq> Greater)
   \<and> (version_compare a b = Equal \<longrightarrow> version_compare a c = version_compare b c)
   \<and> ((\<forall>i. release_at (ve_release a) i = release_at (ve_release b) i) \<longrightarrow>
       (case (ve_qualifier a, ve_qualifier b) of (Pre _, Release) \<Rightarrow> version_compare a b = Less | (Pre _, Post _) \<Rightarrow> version_compare a b = Less
        | (Release, Post _) \<Rightarrow> version_compare a b = Less | (Release, Release) \<Rightarrow> version_compare a b = Equal | _ \<Rightarrow> True))"
proof -
  have "case (ve_qualifier a, ve_qualifier b) of (Pre _, Release) \<Rightarrow> version_compare a b = Less | (Pre _, Post _) \<Rightarrow> version_compare a b = Less
        | (Release, Post _) \<Rightarrow> version_compare a b = Less | (Release, Release) \<Rightarrow> version_compare a b = Equal | _ \<Rightarrow> True"
    if "\<forall>i. release_at (ve_release a) i = release_at (ve_release b) i"
    using same_release_compare [of a b] that by (cases "ve_qualifier a"; cases "ve_qualifier b") simp_all
  then show ?thesis using versions.turned versions.trans versions.Equal_left by blast
qed

theorem version_order_witness:
  "version_compare \<lparr>ve_release = [1, 2], ve_qualifier = Pre [Word (lit ''rc'')]\<rparr> \<lparr>ve_release = [1, 2, 0], ve_qualifier = Release\<rparr> = Less"
proof -
  let ?a = "\<lparr>ve_release = [1, 2], ve_qualifier = Pre [Word (lit ''rc'')]\<rparr>" and ?b = "\<lparr>ve_release = [1, 2, 0], ve_qualifier = Release\<rparr>"
  have "\<forall>i. release_at (ve_release ?a) i = release_at (ve_release ?b) i" by (auto simp: release_at_def nth_Cons')
  then show ?thesis using version_order [of ?a ?b ?b] by simp
qed

section \<open>Ranges are intervals\<close>

definition bound_holds :: "version \<Rightarrow> str \<Rightarrow> bool option" where
  "bound_holds v bound = (case bound_of bound of None \<Rightarrow> None
     | Some (operator, limit) \<Rightarrow> map_option (\<lambda>l. admits operator (version_compare v l)) (version_read limit))"

lemma contains_from_Some:
  "contains_from v holds bounds = Some b \<longleftrightarrow> (\<forall>x \<in> set bounds. bound_holds v x \<noteq> None)
     \<and> (b \<longleftrightarrow> holds \<and> (\<forall>x \<in> set bounds. bound_holds v x = Some True))"
  by (induction bounds arbitrary: holds) (auto simp: bound_holds_def split: option.splits prod.splits)

lemma range_contains_Some:
  "range_contains bounds given = Some b \<longleftrightarrow> (\<exists>v. version_read given = Some v \<and> (\<forall>x \<in> set (split_on 44 bounds). bound_holds v x \<noteq> None)
     \<and> (b \<longleftrightarrow> (\<forall>x \<in> set (split_on 44 bounds). bound_holds v x = Some True)))"
  by (auto simp: range_contains_def contains_from_Some split: option.splits)

lemma bound_reads: "bound_holds v x \<noteq> None \<longleftrightarrow> bound_holds w x \<noteq> None"
  by (auto simp: bound_holds_def split: option.splits)

lemma admits_convex:
  assumes "admits operator (version_compare low l)" "admits operator (version_compare high l)"
    and "version_compare low v \<noteq> Greater" "version_compare v high \<noteq> Greater"
  shows "admits operator (version_compare v l)"
proof (cases operator)
  case AtLeast
  then show ?thesis using assms versions.trans_less [of low v l] by auto
next
  case AtMost
  then show ?thesis using assms versions.trans [of v high l] by auto
next
  case Above
  then show ?thesis using assms versions.less_trans [of l low v] by (simp add: versions.Greater_iff [of _ l])
next
  case Below
  then show ?thesis using assms versions.trans_less [of v high l] by auto
next
  case Exactly
  then have "version_compare v l \<noteq> Greater" "version_compare l v \<noteq> Greater"
    using assms versions.trans [of v high l] versions.trans [of l low v] versions.Equal_sym [of low l] by auto
  then show ?thesis using Exactly versions.Greater_iff [of l v] by (cases "version_compare v l") auto
qed

text \<open>
  C16. A range holds no gaps: a version between two versions the range holds is in the range too, and whether a range
  can be read does not depend on the version asked about.
\<close>

theorem range_convex:
  assumes "range_contains bounds low = Some True" "range_contains bounds high = Some True"
    and "version_read low = Some l" "version_read high = Some h" "version_read given = Some v"
    and "version_compare l v \<noteq> Greater" "version_compare v h \<noteq> Greater"
  shows "range_contains bounds given = Some True"
proof -
  have "bound_holds v x = Some True" if x: "x \<in> set (split_on 44 bounds)" for x
  proof -
    have "bound_holds l x = Some True" "bound_holds h x = Some True"
      using assms(1-4) x by (auto simp: range_contains_Some)
    then show ?thesis using admits_convex [OF _ _ assms(6,7)] by (auto simp: bound_holds_def split: option.splits)
  qed
  then show ?thesis using assms(5) by (auto simp: range_contains_Some)
qed

section \<open>Written releases read back\<close>

lemma takeWhile_digits: "list_all ascii_digit xs \<Longrightarrow> \<not> ascii_digit c \<Longrightarrow> takeWhile ascii_digit (xs @ c # rest) = xs"
  "list_all ascii_digit xs \<Longrightarrow> takeWhile ascii_digit xs = xs"
  by (induction xs) auto

lemma joined_starts: "ns \<noteq> [] \<Longrightarrow> \<exists>d rest. joined 46 (map show_nat ns) = d # rest \<and> ascii_digit d"
proof (cases ns)
  case (Cons n rest)
  then show ?thesis using show_nat_digits(1,2) [of n] by (cases "show_nat n"; cases rest) auto
qed simp

lemma release_from_joined:
  assumes "ns \<noteq> []" "\<forall>n \<in> set ns. n < 2 ^ 64"
  shows "release_from release (joined 46 (map show_nat ns)) = Some (release @ ns, [])"
  using assms
proof (induction ns arbitrary: release)
  case (Cons n ns)
  note digits = show_nat_digits [of n] and parse = parse_show_nat [of n]
  show ?case
  proof (cases "ns = []")
    case True
    then show ?thesis using digits parse Cons.prems
      by (simp add: release_from.simps [of release] takeWhile_digits)
  next
    case False
    then obtain d rest where start: "joined 46 (map show_nat ns) = d # rest" "ascii_digit d" using joined_starts by blast
    have "joined 46 (map show_nat (n # ns)) = show_nat n @ 46 # d # rest" using False by (simp add: joined_cons start)
    moreover have "\<not> ascii_digit 46" by (simp add: ascii_digit_def)
    ultimately show ?thesis using digits parse Cons.prems Cons.IH [OF False, of "release @ [n]"] start
      by (simp add: release_from.simps [of release "show_nat n @ 46 # d # rest"] takeWhile_digits)
  qed
qed simp

lemma joined_characters: "c \<in> set (joined 46 (map show_nat ns)) \<Longrightarrow> ascii_digit c \<or> c = 46"
proof (induction ns)
  case (Cons n ns)
  then show ?case using show_nat_digits(2) [of n] by (cases "ns = []") (auto simp: joined_cons list_all_iff)
qed simp

text \<open>
  Written releases read back: the numbers of a release, each within 64 bits, written in decimal with dots
  between them and with or without a leading v, read as exactly that release with no qualifier.
\<close>

theorem release_roundtrip:
  assumes "ns \<noteq> []" "\<forall>n \<in> set ns. n < 2 ^ 64"
  shows "version_read (joined 46 (map show_nat ns)) = Some \<lparr>ve_release = ns, ve_qualifier = Release\<rparr>
    \<and> version_read (118 # joined 46 (map show_nat ns)) = Some \<lparr>ve_release = ns, ve_qualifier = Release\<rparr>"
proof -
  let ?t = "joined 46 (map show_nat ns)"
  obtain d rest where start: "?t = d # rest" "ascii_digit d" using joined_starts [OF assms(1)] by blast
  have "\<not> rust_whitespace c \<and> c \<noteq> 43" if "ascii_digit c \<or> c = 46" for c
    using that by (auto simp: ascii_digit_def rust_whitespace_def)
  then have chars: "\<forall>c \<in> set ?t. \<not> rust_whitespace c \<and> c \<noteq> 43" using joined_characters by blast
  then have plus: "takeWhile (\<lambda>c. c \<noteq> 43) (d # rest) = d # rest" by (auto simp: takeWhile_eq_all_conv start)
  have trims: "rust_trim (d # rest) = d # rest" "rust_trim (118 # d # rest) = 118 # d # rest"
  proof -
    have "\<forall>c \<in> set (d # rest). \<not> rust_whitespace c" using chars unfolding start by blast
    moreover have "\<not> rust_whitespace 118" by (simp add: rust_whitespace_def)
    ultimately show "rust_trim (d # rest) = d # rest" "rust_trim (118 # d # rest) = 118 # d # rest" by (simp_all add: rust_trim_plain)
  qed
  have tail: "release_of (d # rest) = Some (ns, [])" "qualifier_of (parts_of []) = Release"
    using release_from_joined [OF assms, of "[]"] by (simp_all add: release_of_def start parts_of_def push_part_def qualifier_of_def)
  have "d \<noteq> 118 \<and> d \<noteq> 86" using start(2) by (auto simp: ascii_digit_def)
  then have "(case d # rest of v # e # left \<Rightarrow> if (v = 118 \<or> v = 86) \<and> ascii_digit e then e # left else d # rest | _ \<Rightarrow> d # rest) = d # rest"
    by (cases rest) auto
  then have bare: "version_read ?t = Some \<lparr>ve_release = ns, ve_qualifier = Release\<rparr>"
    unfolding version_read_def start Let_def trims by (simp only: plus tail) (simp add: tail)
  have "version_read (118 # ?t) = Some \<lparr>ve_release = ns, ve_qualifier = Release\<rparr>"
    unfolding version_read_def start Let_def trims by (simp add: start(2) plus tail del: takeWhile.simps)
  with bare show ?thesis ..
qed

theorem release_roundtrip_witness:
  "version_read (joined 46 (map show_nat [4, 10, 0])) = Some \<lparr>ve_release = [4, 10, 0], ve_qualifier = Release\<rparr>"
  using release_roundtrip [of "[4, 10, 0]"] by simp

theorem range_convex_witness:
  "range_contains (lit ''>= 4.0.0, < 4.1.0'') (lit ''4.0.5'') = Some True"
proof -
  note defs = range_contains_def version_read_def rust_trim_def trim_matches_def trim_end_matches_def rust_whitespace_def
    release_of_def release_from.simps parse_u64_def ascii_digit_def digits_value_def parts_of_def push_part_def qualifier_of_def
    bound_of_def operators_def strip_prefix_def version_compare_def release_at_def ord_of_def Let_def upt_rec
  show ?thesis
    by (rule range_convex [where low = "lit ''4.0.0''" and high = "lit ''4.0.9''" and l = "\<lparr>ve_release = [4, 0, 0], ve_qualifier = Release\<rparr>"
        and h = "\<lparr>ve_release = [4, 0, 9], ve_qualifier = Release\<rparr>" and v = "\<lparr>ve_release = [4, 0, 5], ve_qualifier = Release\<rparr>"])
      (simp_all add: defs)
qed

end
