(* ===== verification/Resource_Path.thy ===== *)
theory Resource_Path
  imports Text_Split
begin

section \<open>Paths in Claude Code's folder\<close>

text \<open>
  \<^verbatim>\<open>rekall-core/src/claude/model/resource_path.rs\<close> and \<^verbatim>\<open>resource_kind.rs\<close>: which files of the folder the
  console may touch. Parsing is the whole guard, so the properties are about what a parsed path can be.
\<close>

datatype resource_kind = Instructions | SkillKind | CommandKind | AgentKind | Memory | MemoryIndex

definition is_deletable :: "resource_kind \<Rightarrow> bool" where
  "is_deletable kind = (kind \<noteq> Instructions \<and> kind \<noteq> MemoryIndex)"

definition MARKDOWN :: str where "MARKDOWN = lit ''.md''"
definition MEMORY_INDEX :: str where "MEMORY_INDEX = lit ''MEMORY.md''"
definition SKILL_FILE :: str where "SKILL_FILE = lit ''SKILL.md''"
definition INSTRUCTIONS :: str where "INSTRUCTIONS = lit ''CLAUDE.md''"
definition PROVIDED_BY_OTHERS :: "str list" where "PROVIDED_BY_OTHERS = [lit ''skills/synced/'', lit ''plugins/'']"
definition PLUGIN_CACHE :: str where "PLUGIN_CACHE = lit ''plugins/cache/''"
definition CLAUDE_FOLDER :: str where "CLAUDE_FOLDER = lit ''.claude''"
definition MAX_SEGMENTS :: nat where "MAX_SEGMENTS = 9"

record resource_path =
  rp_relative :: str
  rp_kind :: resource_kind

definition is_control :: "uchar \<Rightarrow> bool" where
  "is_control c = (c < 32 \<or> (127 \<le> c \<and> c < 160))"

definition is_plain_segment :: "str \<Rightarrow> bool" where
  "is_plain_segment segment = (segment \<noteq> [] \<and> \<not> prefix (lit ''.'') segment
     \<and> \<not> list_ex (\<lambda>c. is_control c \<or> c \<in> {92, 58, 42, 63, 34, 60, 62, 124}) segment)"

definition memory_kind :: "str \<Rightarrow> resource_kind" where
  "memory_kind file = (if file = MEMORY_INDEX then MemoryIndex else Memory)"

definition is_plugin_skill_folder :: "str list \<Rightarrow> bool" where
  "is_plugin_skill_folder folders = (case folders of
       [a, _] \<Rightarrow> a = lit ''skills''
     | [a, b, _] \<Rightarrow> a = lit ''.claude'' \<and> b = lit ''skills''
     | _ \<Rightarrow> False)"

text \<open>The patterns on the folders, tried in the order of the source.\<close>

definition classify_folders :: "str \<Rightarrow> str list \<Rightarrow> resource_kind option" where
  "classify_folders file folders =
     (if folders = [] \<and> file = INSTRUCTIONS then Some Instructions
      else if folders = [lit ''skills''] then Some SkillKind
      else if 2 \<le> length folders \<and> hd folders = lit ''skills'' \<and> file = SKILL_FILE then Some SkillKind
      else if folders \<noteq> [] \<and> hd folders = lit ''commands'' then Some CommandKind
      else if folders \<noteq> [] \<and> hd folders = lit ''agents'' then Some AgentKind
      else if 5 \<le> length folders \<and> take 2 folders = [lit ''plugins'', lit ''cache''] \<and> file = SKILL_FILE
              \<and> is_plugin_skill_folder (drop 5 folders) then Some SkillKind
      else if folders = [lit ''memory'']
              \<or> (length folders = 3 \<and> hd folders = lit ''projects'' \<and> folders ! 2 = lit ''memory'') then Some (memory_kind file)
      else None)"

definition classify :: "str list \<Rightarrow> resource_kind option" where
  "classify segments =
     (if segments = [] then None
      else let file = last segments; folders = butlast segments
           in if \<not> suffix MARKDOWN file \<or> length file = length MARKDOWN then None else classify_folders file folders)"

definition refused :: "str \<Rightarrow> rekall_error" where
  "refused raw = IllegalArgument (Msg ''is not a file Rekall edits in the Claude folder'' [raw])"

definition path_parse :: "str \<Rightarrow> resource_path result" where
  "path_parse raw =
     (let relative = rust_trim raw;
          segments = split_on 47 relative;
          in_plugin_cache = prefix PLUGIN_CACHE relative;
          plain = (\<lambda>segment. is_plain_segment segment \<or> (in_plugin_cache \<and> segment = CLAUDE_FOLDER))
      in if relative = [] \<or> length segments > MAX_SEGMENTS \<or> \<not> list_all plain segments then Inl (refused raw)
         else case classify segments of
           None \<Rightarrow> Inl (refused raw)
         | Some kind \<Rightarrow> Inr \<lparr>rp_relative = relative, rp_kind = kind\<rparr>)"

definition is_editable :: "resource_path \<Rightarrow> bool" where
  "is_editable p = (\<not> list_ex (\<lambda>given. prefix given (rp_relative p)) PROVIDED_BY_OTHERS)"

definition file_name :: "resource_path \<Rightarrow> str" where
  "file_name p = last (split_on 47 (rp_relative p))"

text \<open>\<^verbatim>\<open>rsplit_once\<close>: what stands before the last slash, nothing when there is none.\<close>

definition folder_of :: "str \<Rightarrow> str" where
  "folder_of t = (if 47 \<in> set t then take (length t - Suc (length (takeWhile (\<lambda>c. c \<noteq> 47) (rev t)))) t else [])"

definition memory_index :: "resource_path \<Rightarrow> resource_path option" where
  "memory_index p = (if rp_kind p \<noteq> Memory then None
     else Some \<lparr>rp_relative = folder_of (rp_relative p) @ lit ''/'' @ MEMORY_INDEX, rp_kind = MemoryIndex\<rparr>)"

section \<open>What a parsed path can be\<close>

lemma path_parse_Inr:
  "path_parse raw = Inr p \<longleftrightarrow> (let segments = split_on 47 (rust_trim raw) in
     rp_relative p = rust_trim raw \<and> rust_trim raw \<noteq> [] \<and> length segments \<le> MAX_SEGMENTS
     \<and> (\<forall>x \<in> set segments. is_plain_segment x \<or> (prefix PLUGIN_CACHE (rust_trim raw) \<and> x = CLAUDE_FOLDER))
     \<and> classify segments = Some (rp_kind p))"
  by (cases p) (auto simp: path_parse_def Let_def list_all_iff split: option.splits)

lemma rust_trim_idem [simp]: "rust_trim (rust_trim t) = rust_trim t"
  unfolding rust_trim_def by (metis trim_matches_ends trim_matches_fixpoint)

lemma plugin_cache_head: "prefix PLUGIN_CACHE t \<Longrightarrow> hd (split_on 47 t) = lit ''plugins''"
  using split_on_append [of 47 "lit ''plugins''"] by (auto simp: prefix_def PLUGIN_CACHE_def)

lemma classify_Some:
  assumes "classify segments = Some kind"
  obtains folders name where "segments = folders @ [name]" "suffix MARKDOWN name" "name \<noteq> MARKDOWN" "classify_folders name folders = Some kind"
proof -
  have "segments = butlast segments @ [last segments]" "suffix MARKDOWN (last segments)" "last segments \<noteq> MARKDOWN"
    "classify_folders (last segments) (butlast segments) = Some kind"
    using assms by (auto simp: classify_def Let_def split: if_splits)
  then show thesis by (rule that)
qed

lemma classify_folders_place:
  "classify_folders name folders = Some kind \<Longrightarrow> (folders = [] \<and> name = INSTRUCTIONS) \<or> (folders \<noteq> [] \<and> hd folders \<in>
     {lit ''skills'', lit ''commands'', lit ''agents'', lit ''plugins'', lit ''memory'', lit ''projects''})"
  by (cases folders) (auto simp: classify_folders_def split: if_splits)

lemma joined_suffix: "suffix t (joined sep (xs @ [t]))"
  by (induction xs) (auto simp: joined_cons suffix_append intro: suffix_ConsI)



section \<open>Parsing is stable\<close>

lemma memory_folders:
  assumes "classify_folders name folders = Some Memory"
  shows "folders = [lit ''memory''] \<or> (\<exists>x. folders = [lit ''projects'', x, lit ''memory''])"
proof -
  have "folders = [lit ''memory''] \<or> (length folders = 3 \<and> hd folders = lit ''projects'' \<and> folders ! 2 = lit ''memory'')"
    using assms by (auto simp: classify_folders_def split: if_splits)
  then show ?thesis by (auto simp: length_Suc_conv numeral_3_eq_3)
qed

lemma classify_memory_index:
  "classify [lit ''memory'', MEMORY_INDEX] = Some MemoryIndex"
  "classify [lit ''projects'', x, lit ''memory'', MEMORY_INDEX] = Some MemoryIndex"
  by (simp_all add: classify_def classify_folders_def memory_kind_def suffix_def MEMORY_INDEX_def MARKDOWN_def)

lemma joined_snoc: "xs \<noteq> [] \<Longrightarrow> joined sep (xs @ [y]) = joined sep xs @ sep # y"
proof (induction xs)
  case (Cons x xs)
  then show ?case by (cases xs) (simp_all add: joined_cons)
qed simp

lemma folder_of_append:
  assumes "47 \<notin> set name"
  shows "folder_of (t @ 47 # name) = t"
proof -
  have "takeWhile (\<lambda>c. c \<noteq> 47) (rev name @ 47 # rev t) = rev name"
    using assms by (subst takeWhile_append2) auto
  then show ?thesis by (simp add: folder_of_def)
qed

lemma folder_of_joined:
  assumes "folders \<noteq> []" "47 \<notin> set name"
  shows "folder_of (joined 47 (folders @ [name])) = joined 47 folders"
  using assms by (simp add: joined_snoc folder_of_append)

lemma parse_memory_index:
  assumes "segments = [lit ''memory''] \<or> segments = [lit ''projects'', x, lit ''memory'']" "is_plain_segment x" "47 \<notin> set x"
  shows "path_parse (joined 47 (segments @ [MEMORY_INDEX])) = Inr \<lparr>rp_relative = joined 47 (segments @ [MEMORY_INDEX]), rp_kind = MemoryIndex\<rparr>"
proof -
  let ?t = "joined 47 (segments @ [MEMORY_INDEX])"
  have slashes: "\<forall>y \<in> set (segments @ [MEMORY_INDEX]). 47 \<notin> set y" using assms by (auto simp: MEMORY_INDEX_def)
  then have split: "split_on 47 ?t = segments @ [MEMORY_INDEX]" by (intro split_joined) auto
  have "hd ?t \<in> {109, 112}" "last ?t = 100" using assms(1) by (auto simp: joined_snoc MEMORY_INDEX_def)
  moreover have "\<not> rust_whitespace 109" "\<not> rust_whitespace 112" "\<not> rust_whitespace 100" by (simp_all add: rust_whitespace_def)
  ultimately have trim: "rust_trim ?t = ?t" unfolding rust_trim_def by (intro trim_matches_fixpoint) auto
  have "is_plain_segment (lit ''memory'')" "is_plain_segment (lit ''projects'')" "is_plain_segment MEMORY_INDEX"
    by (simp_all add: is_plain_segment_def is_control_def MEMORY_INDEX_def)
  then have plain: "\<forall>y \<in> set (segments @ [MEMORY_INDEX]). is_plain_segment y" using assms(1,2) by auto
  have "classify (segments @ [MEMORY_INDEX]) = Some MemoryIndex" using assms(1) classify_memory_index by auto
  moreover have "?t \<noteq> []" "length (segments @ [MEMORY_INDEX]) \<le> MAX_SEGMENTS"
    using assms(1) by (auto simp: joined_snoc MAX_SEGMENTS_def)
  ultimately show ?thesis using split trim plain by (simp add: path_parse_Inr Let_def)
qed

text \<open>
  C25. Parsing is stable: the path kept is one that parses to itself, and the index named beside a memory file, which the
  code builds without parsing it, is a path that parses as an index.
\<close>

theorem path_parse_stable:
  assumes "path_parse raw = Inr p"
  shows "path_parse (rp_relative p) = Inr p \<and> (\<forall>q. memory_index p = Some q \<longrightarrow> path_parse (rp_relative q) = Inr q)"
proof -
  note parts = assms [unfolded path_parse_Inr Let_def]
  have "path_parse (rp_relative q) = Inr q" if q: "memory_index p = Some q" for q
  proof -
    have memory: "rp_kind p = Memory" and q': "q = \<lparr>rp_relative = folder_of (rp_relative p) @ 47 # MEMORY_INDEX, rp_kind = MemoryIndex\<rparr>"
      using q by (auto simp: memory_index_def split: if_splits)
    obtain folders name where f: "split_on 47 (rp_relative p) = folders @ [name]" "classify_folders name folders = Some Memory"
      using parts memory by (auto elim: classify_Some)
    then have "joined 47 (folders @ [name]) = rp_relative p" by (metis joined_split)
    moreover have "folders \<noteq> []" "47 \<notin> set name"
      using memory_folders [OF f(2)] split_on_pieces [of name 47 "rp_relative p"] f(1) by auto
    ultimately have q'': "rp_relative q = joined 47 (folders @ [MEMORY_INDEX])"
      using folder_of_joined [of folders name] by (simp add: q' joined_snoc)
    have plain: "is_plain_segment x \<and> 47 \<notin> set x" if "folders = [lit ''projects'', x, lit ''memory'']" for x
    proof -
      have x: "x \<in> set (split_on 47 (rp_relative p))" using f(1) that by simp
      have "\<not> prefix PLUGIN_CACHE (rp_relative p)" using plugin_cache_head [of "rp_relative p"] f(1) that by auto
      then show ?thesis using x parts split_on_pieces by auto
    qed
    have sample: "is_plain_segment (lit ''memory'')" "47 \<notin> set (lit ''memory'')" by (simp_all add: is_plain_segment_def is_control_def)
    show ?thesis
      using memory_folders [OF f(2)] parse_memory_index [of folders "lit ''memory''"] parse_memory_index [of folders] plain sample q' q''
      by auto
  qed
  moreover have "path_parse (rp_relative p) = Inr p" unfolding path_parse_Inr Let_def using parts by simp
  ultimately show ?thesis by blast
qed

theorem path_parse_stable_witness:
  "path_parse (lit ''projects/p/memory/MEMORY.md'') = Inr \<lparr>rp_relative = lit ''projects/p/memory/MEMORY.md'', rp_kind = MemoryIndex\<rparr>"
proof -
  note run = path_parse_def rust_trim_def trim_matches_def trim_end_matches_def rust_whitespace_def is_plain_segment_def is_control_def
    classify_def classify_folders_def MARKDOWN_def INSTRUCTIONS_def PLUGIN_CACHE_def MAX_SEGMENTS_def CLAUDE_FOLDER_def
    is_plugin_skill_folder_def memory_kind_def MEMORY_INDEX_def SKILL_FILE_def
  have "path_parse (lit ''projects/p/memory/a.md'') = Inr \<lparr>rp_relative = lit ''projects/p/memory/a.md'', rp_kind = Memory\<rparr>"
    by (simp add: run suffix_def)
  from path_parse_stable [OF this] show ?thesis by (simp add: memory_index_def folder_of_def MEMORY_INDEX_def)
qed

end
