(* ===== verification/Local_Access.thy ===== *)
theory Local_Access
  imports Text_Split "HOL-Library.Word"
begin

section \<open>Requests from this machine only\<close>

text \<open>
  \<^verbatim>\<open>rekall-app/src/security.rs\<close>: whether a request is answered, from its peer address, its Host and its
  Origin. An IP address is its 32 or 128 bits. Unicode is a parameter: \<open>lowered\<close> of \<open>u\<close> is
  \<^verbatim>\<open>str::to_lowercase\<close> and its \<open>decimal_digit\<close> the class that the pattern of IPv4 loopback names asks for. The text of a refusal
  is its kind and what it quotes. Reading the headers off a request and answering 403 is the server library's part.
\<close>

unbundle bit_operations_syntax

subsection \<open>Addresses and names\<close>

datatype ip_addr = V4 "32 word" | V6 "128 word"

text \<open>\<^verbatim>\<open>IpAddr::to_canonical\<close> turns an IPv4 address mapped into IPv6 back into IPv4.\<close>

definition to_canonical :: "ip_addr \<Rightarrow> ip_addr" where
  "to_canonical ip = (case ip of V4 w \<Rightarrow> V4 w | V6 w \<Rightarrow> if drop_bit 32 w = 0xFFFF then V4 (ucast w) else V6 w)"

definition ip_is_loopback :: "ip_addr \<Rightarrow> bool" where
  "ip_is_loopback ip = (case ip of V4 w \<Rightarrow> drop_bit 24 w = 127 | V6 w \<Rightarrow> w = 1)"

definition LOOPBACK_NAMES :: "str list" where
  "LOOPBACK_NAMES = [lit ''localhost'', lit ''127.0.0.1'', lit ''::1'', lit ''[::1]'']"

definition ipv4_loopback :: "unicode_case \<Rightarrow> str \<Rightarrow> bool" where
  "ipv4_loopback u name = (case split_on 46 name of
       [a, b, c, d] \<Rightarrow> a = lit ''127'' \<and> list_all (\<lambda>x. 1 \<le> length x \<and> length x \<le> 3 \<and> list_all (decimal_digit u) x) [b, c, d]
     | _ \<Rightarrow> False)"

definition host_name :: "str \<Rightarrow> str" where
  "host_name host_header = (let value = rust_trim host_header in
     if prefix [91] value
     then if 93 \<in> set value then takeWhile (\<lambda>c. c \<noteq> 93) value @ [93] else value
     else if 58 \<in> set value then rev (drop 1 (dropWhile (\<lambda>c. c \<noteq> 58) (rev value))) else value)"

definition is_loopback_name :: "unicode_case \<Rightarrow> str \<Rightarrow> bool" where
  "is_loopback_name u host = (let name = lowered u host in name \<in> set LOOPBACK_NAMES \<or> ipv4_loopback u name)"

subsection \<open>Origins\<close>

record origin =
  og_scheme :: str
  og_authority :: str
  og_host :: "str option"

definition split_once :: "str \<Rightarrow> str \<Rightarrow> (str \<times> str) option" where
  "split_once mark t = map_option (\<lambda>i. (take i t, drop (i + length mark) t)) (find_from mark 0 t)"

definition scheme_char :: "uchar \<Rightarrow> bool" where
  "scheme_char c = (ascii_digit c \<or> (65 \<le> c \<and> c \<le> 90) \<or> (97 \<le> c \<and> c \<le> 122) \<or> c \<in> {43, 45, 46})"

definition authority_host :: "str \<Rightarrow> str option" where
  "authority_host authority =
     (let host_port = (if 64 \<in> set authority then rev (takeWhile (\<lambda>c. c \<noteq> 64) (rev authority)) else authority);
          host = (if prefix [91] host_port
                  then if 93 \<in> set host_port then Some (takeWhile (\<lambda>c. c \<noteq> 93) host_port @ [93]) else None
                  else Some (takeWhile (\<lambda>c. c \<noteq> 58) host_port))
      in Option.bind host (\<lambda>h. if h = [] then None else Some h))"

definition parse_origin :: "str \<Rightarrow> origin option" where
  "parse_origin raw = (let t = rust_trim raw in
     if list_ex (\<lambda>c. rust_whitespace c \<or> c \<in> {34, 60, 62}) t then None
     else case split_once (lit ''://'') t of
       None \<Rightarrow> None
     | Some (scheme, rest) \<Rightarrow>
         if scheme = [] \<or> \<not> list_all scheme_char scheme then None
         else let authority = takeWhile (\<lambda>c. c \<notin> {47, 63, 35}) rest
              in Some \<lparr>og_scheme = scheme, og_authority = authority, og_host = authority_host authority\<rparr>)"

definition is_loopback_origin :: "unicode_case \<Rightarrow> str \<Rightarrow> bool" where
  "is_loopback_origin u raw = (case parse_origin raw of
       None \<Rightarrow> False
     | Some parsed \<Rightarrow> let scheme = lowered u (og_scheme parsed) in
         if scheme \<noteq> lit ''http'' \<and> scheme \<noteq> lit ''https'' then False
         else case og_host parsed of None \<Rightarrow> False | Some host \<Rightarrow> is_loopback_name u host)"

definition is_same_origin :: "str \<Rightarrow> str option \<Rightarrow> bool" where
  "is_same_origin raw host_header = (case host_header of
       None \<Rightarrow> False
     | Some host \<Rightarrow> (case parse_origin raw of None \<Rightarrow> False
         | Some parsed \<Rightarrow> map ascii_lower (rust_trim host) = map ascii_lower (og_authority parsed)))"

subsection \<open>The decision\<close>

record local_access =
  la_remote_access :: bool

definition access_refusal :: "unicode_case \<Rightarrow> local_access \<Rightarrow> ip_addr option \<Rightarrow> str option \<Rightarrow> str option \<Rightarrow> message option" where
  "access_refusal u access peer host origin_header =
     (if \<not> la_remote_access access \<and> \<not> (case peer of None \<Rightarrow> False | Some ip \<Rightarrow> ip_is_loopback (to_canonical ip))
      then Some (Msg ''Rekall only answers requests from this machine'' [])
      else if \<not> la_remote_access access \<and> (case host of None \<Rightarrow> False | Some h \<Rightarrow> \<not> is_loopback_name u (host_name h))
      then Some (Msg ''Host is not this machine'' [the host])
      else case origin_header of
        None \<Rightarrow> None
      | Some raw \<Rightarrow>
          let this_machine = is_loopback_origin u raw \<or> (la_remote_access access \<and> is_same_origin raw host)
          in if \<not> this_machine then Some (Msg ''Origin is not a page this machine serves'' [raw]) else None)"

subsection \<open>Well-formed headers\<close>

text \<open>A host name without a port, a user or a path, and the port that may follow it.\<close>

definition plain_host :: "str \<Rightarrow> bool" where
  "plain_host h \<longleftrightarrow> h \<noteq> [] \<and> (\<forall>c \<in> set h. c \<notin> {47, 63, 35, 64, 58, 91, 34, 60, 62} \<and> \<not> rust_whitespace c)"

definition port_part :: "str \<Rightarrow> bool" where
  "port_part p \<longleftrightarrow> p = [] \<or> (\<exists>digits. p = 58 # digits \<and> list_all ascii_digit digits)"

lemma port_characters: "port_part p \<Longrightarrow> c \<in> set p \<Longrightarrow> c = 58 \<or> ascii_digit c"
  by (auto simp: port_part_def list_all_iff)

lemma port_plain: "port_part p \<Longrightarrow> c \<in> set p \<Longrightarrow> c \<notin> {47, 63, 35, 64, 91, 34, 60, 62} \<and> \<not> rust_whitespace c"
  using port_characters [of p c] by (auto simp: ascii_digit_def rust_whitespace_def)

lemma host_name_plain:
  assumes "plain_host h" "port_part p"
  shows "host_name (h @ p) = h"
proof -
  have trim: "rust_trim (h @ p) = h @ p"
    using assms port_plain [OF assms(2)] by (intro rust_trim_plain) (auto simp: plain_host_def)
  have open_bracket: "\<not> prefix [91] (h @ p)" using assms(1) by (cases h) (auto simp: plain_host_def)
  have colon: "58 \<notin> set h" using assms(1) by (auto simp: plain_host_def)
  show ?thesis
  proof (cases p)
    case Nil
    then show ?thesis using trim open_bracket colon by (simp add: host_name_def Let_def)
  next
    case (Cons c digits)
    then have p: "p = 58 # digits" "58 \<notin> set digits" using assms(2) by (auto simp: port_part_def list_all_iff ascii_digit_def)
    then have "dropWhile (\<lambda>c. c \<noteq> 58) (rev (h @ p)) = 58 # rev h"
      by (simp add: dropWhile_append)
    then show ?thesis using trim open_bracket p by (simp add: host_name_def Let_def)
  qed
qed

lemma authority_host_plain:
  assumes "plain_host h" "port_part p" "user = [] \<or> (\<exists>x. user = x @ [64])"
  shows "authority_host (user @ h @ p) = Some h"
proof -
  have at: "64 \<notin> set (h @ p)" using assms port_plain [OF assms(2)] by (auto simp: plain_host_def)
  then have "(if 64 \<in> set (user @ h @ p) then rev (takeWhile (\<lambda>c. c \<noteq> 64) (rev (user @ h @ p))) else user @ h @ p) = h @ p"
    using assms(3) by (auto simp: takeWhile_append)
  moreover have "\<not> prefix [91] (h @ p)" using assms(1) by (cases h) (auto simp: plain_host_def)
  moreover have "takeWhile (\<lambda>c. c \<noteq> 58) (h @ p) = h @ takeWhile (\<lambda>c. c \<noteq> 58) p"
    using assms(1) by (intro takeWhile_append2) (auto simp: plain_host_def)
  moreover have "takeWhile (\<lambda>c. c \<noteq> 58) p = []" using assms(2) by (auto simp: port_part_def)
  ultimately show ?thesis using assms(1) unfolding authority_host_def Let_def by (simp add: plain_host_def)
qed

text \<open>
  An origin as a browser writes one, with what an attacker may add to it: a user before the host and a path after it.
\<close>

definition written_origin :: "str \<Rightarrow> str \<Rightarrow> str \<Rightarrow> str \<Rightarrow> str \<Rightarrow> str" where
  "written_origin scheme user h p tail = scheme @ lit ''://'' @ user @ h @ p @ tail"

definition writable_origin :: "str \<Rightarrow> str \<Rightarrow> str \<Rightarrow> str \<Rightarrow> str \<Rightarrow> bool" where
  "writable_origin scheme user h p tail \<longleftrightarrow> scheme \<noteq> [] \<and> list_all scheme_char scheme \<and> plain_host h \<and> port_part p
     \<and> (user = [] \<or> (\<exists>x. user = x @ [64])) \<and> (tail = [] \<or> hd tail \<in> {47, 63, 35}) \<and> (\<forall>c \<in> set user. c \<notin> {47, 63, 35})
     \<and> (\<forall>c \<in> set user \<union> set tail. \<not> rust_whitespace c \<and> c \<notin> {34, 60, 62})"

lemma scheme_ends:
  assumes "list_all scheme_char scheme"
  shows "split_once (lit ''://'') (scheme @ lit ''://'' @ t) = Some (scheme, t)"
proof -
  have "find_from (lit ''://'') i (scheme @ lit ''://'' @ t) = Some (i + length scheme)" for i
    using assms by (induction scheme arbitrary: i) (auto simp: scheme_char_def ascii_digit_def)
  then show ?thesis by (simp add: split_once_def)
qed

lemma parse_written:
  assumes "writable_origin scheme user h p tail"
  shows "parse_origin (written_origin scheme user h p tail) = Some \<lparr>og_scheme = scheme, og_authority = user @ h @ p, og_host = Some h\<rparr>"
proof -
  note parts = assms [unfolded writable_origin_def]
  have port: "port_part p" using parts by simp
  let ?t = "written_origin scheme user h p tail" and ?a = "user @ h @ p"
  have "\<not> rust_whitespace c \<and> c \<notin> {34, 60, 62}" if "scheme_char c \<or> c \<in> {58, 47}" for c
    using that by (auto simp: scheme_char_def ascii_digit_def rust_whitespace_def)
  then have plain: "\<forall>c \<in> set ?t. \<not> rust_whitespace c \<and> c \<notin> {34, 60, 62}"
    using parts port_plain [OF port] unfolding written_origin_def by (auto simp: plain_host_def list_all_iff)
  have "takeWhile (\<lambda>c. c \<notin> {47, 63, 35}) (?a @ tail) = ?a @ takeWhile (\<lambda>c. c \<notin> {47, 63, 35}) tail"
    using parts port_plain [OF port] by (intro takeWhile_append2) (auto simp: plain_host_def)
  moreover have "takeWhile (\<lambda>c. c \<notin> {47, 63, 35}) tail = []" using parts by (cases tail) auto
  ultimately have "takeWhile (\<lambda>c. c \<notin> {47, 63, 35}) (user @ h @ p @ tail) = ?a" by simp
  moreover have "authority_host ?a = Some h" using parts by (intro authority_host_plain) auto
  moreover have "rust_trim ?t = ?t" using plain by (intro rust_trim_plain) blast
  moreover have "\<not> list_ex (\<lambda>c. rust_whitespace c \<or> c \<in> {34, 60, 62}) ?t" using plain by (auto simp: list_ex_iff)
  moreover have "split_once (lit ''://'') ?t = Some (scheme, user @ h @ p @ tail)"
    unfolding written_origin_def using parts by (intro scheme_ends) simp
  ultimately show ?thesis using parts by (simp add: parse_origin_def Let_def)
qed

text \<open>Numeric names have no letter, so the one loopback name with a letter is localhost.\<close>

lemma ipv4_letters:
  assumes "ipv4_loopback u name" "c \<in> set name"
  shows "c = 46 \<or> c \<in> {49, 50, 55} \<or> decimal_digit u c"
proof -
  obtain b d e where parts: "split_on 46 name = [lit ''127'', b, d, e]" "list_all (decimal_digit u) (b @ d @ e)"
    using assms(1) by (auto simp: ipv4_loopback_def split: list.splits)
  show ?thesis
  proof (cases "c = 46")
    case False
    then have "\<exists>x \<in> set (split_on 46 name). c \<in> set x" using split_on_letters [of 46 name c] assms(2) by blast
    then show ?thesis using parts by (auto simp: list_all_iff)
  qed simp
qed

lemma loopback_letters:
  assumes "is_loopback_name u h" "lowered u h \<noteq> lit ''localhost''" "c \<in> set (lowered u h)"
    and "\<forall>c. decimal_digit u c \<longrightarrow> \<not> (97 \<le> c \<and> c \<le> 122)"
  shows "\<not> (97 \<le> c \<and> c \<le> 122)"
proof -
  consider "lowered u h \<in> {lit ''127.0.0.1'', lit ''::1'', lit ''[::1]''}" | "ipv4_loopback u (lowered u h)"
    using assms(1,2) by (auto simp: is_loopback_name_def LOOPBACK_NAMES_def Let_def)
  then show ?thesis
  proof cases
    case 1
    then show ?thesis using assms(3) by auto
  next
    case 2
    then show ?thesis using ipv4_letters [OF 2 assms(3)] assms(4) by auto
  qed
qed

text \<open>
  C14. Who is let in, with remote access off: a request whose Host is a name with or without a port and whose Origin is written as a browser
  writes one, even with a user before the host or a path after it, is answered exactly when it comes from a loopback address, the
  Host names this machine, the scheme is http or https and the host of the Origin, never the user before it, names
  this machine. A name with a letter in it names this machine only if it is localhost.
\<close>

theorem only_this_machine:
  assumes "plain_host h" "port_part p" "writable_origin scheme user h' p' tail"
    and "\<forall>c. decimal_digit u c \<longrightarrow> \<not> (97 \<le> c \<and> c \<le> 122)"
  shows "(access_refusal u \<lparr>la_remote_access = False\<rparr> (Some ip) (Some (h @ p)) (Some (written_origin scheme user h' p' tail)) = None
      \<longleftrightarrow> ip_is_loopback (to_canonical ip) \<and> is_loopback_name u h
        \<and> lowered u scheme \<in> {lit ''http'', lit ''https''} \<and> is_loopback_name u h')
    \<and> (is_loopback_name u h \<longrightarrow> lowered u h = lit ''localhost'' \<or> (\<forall>c \<in> set (lowered u h). \<not> (97 \<le> c \<and> c \<le> 122)))"
proof
  show "is_loopback_name u h \<longrightarrow> lowered u h = lit ''localhost'' \<or> (\<forall>c \<in> set (lowered u h). \<not> (97 \<le> c \<and> c \<le> 122))"
    using loopback_letters [OF _ _ _ assms(4)] by blast
  show "access_refusal u \<lparr>la_remote_access = False\<rparr> (Some ip) (Some (h @ p)) (Some (written_origin scheme user h' p' tail)) = None
      \<longleftrightarrow> ip_is_loopback (to_canonical ip) \<and> is_loopback_name u h
        \<and> lowered u scheme \<in> {lit ''http'', lit ''https''} \<and> is_loopback_name u h'"
    by (auto simp: access_refusal_def host_name_plain [OF assms(1,2)] is_loopback_origin_def parse_written [OF assms(3)] Let_def)
qed

theorem only_this_machine_witness:
  "access_refusal ascii_case \<lparr>la_remote_access = False\<rparr> (Some (V4 0x7F000001)) (Some (lit ''localhost'' @ lit '':8080''))
     (Some (written_origin (lit ''http'') (lit ''localhost@'') (lit ''evil.com'') [] (lit ''/''))) \<noteq> None"
proof -
  have "port_part (lit '':8080'')" "port_part []" by (auto simp: port_part_def ascii_digit_def)
  moreover have "plain_host (lit ''localhost'')" "plain_host (lit ''evil.com'')" by (auto simp: plain_host_def rust_whitespace_def)
  moreover have "writable_origin (lit ''http'') (lit ''localhost@'') (lit ''evil.com'') [] (lit ''/'')"
    using calculation by (auto simp: writable_origin_def scheme_char_def rust_whitespace_def)
  moreover have "\<not> is_loopback_name ascii_case (lit ''evil.com'')"
    by (simp add: is_loopback_name_def ascii_case_def ascii_lower_def LOOPBACK_NAMES_def ipv4_loopback_def)
  moreover have "\<forall>c. decimal_digit ascii_case c \<longrightarrow> \<not> (97 \<le> c \<and> c \<le> 122)" by (simp add: ascii_case_def)
  ultimately show ?thesis
    using only_this_machine [of "lit ''localhost''" "lit '':8080''" "lit ''http''" "lit ''localhost@''" "lit ''evil.com''" "[]" "lit ''/''" ascii_case
        "V4 0x7F000001"] by blast
qed

end
