(* ===== verification/Text_Properties.thy ===== *)
theory Text_Properties
  imports Slug
begin

section \<open>Properties of the text layer\<close>

text \<open>
  What the services rely on when they normalise a label, cut a text to a limit of UTF-16 units
  or look for a passage in it.
\<close>

lemma jlen_prefix_mono: "prefix p q \<Longrightarrow> jlen p \<le> jlen q"
  by (auto simp: prefix_def)

lemma prefix_of_take: "prefix p t \<Longrightarrow> p = take (length p) t"
  by (auto simp: prefix_def)

text \<open>
  Cutting a text at a number of UTF-16 units keeps the longest prefix of whole characters
  that fits, so a surrogate pair is never split; what is cut off is the suffix at the same index.
\<close>

theorem jprefix_longest:
  "jprefix t n @ jsuffix t n = t \<and> jlen (jprefix t n) \<le> n
     \<and> (\<forall>p. prefix p t \<and> jlen p \<le> n \<longrightarrow> prefix p (jprefix t n))"
proof (intro conjI allI impI)
  let ?k = "char_offset t n"
  show "jprefix t n @ jsuffix t n = t" by (simp add: jprefix_take jsuffix_def)
  show "jlen (jprefix t n) \<le> n" by (rule jprefix_len)
  fix p assume p: "prefix p t \<and> jlen p \<le> n"
  have "length p \<le> ?k"
  proof (rule ccontr)
    assume "\<not> length p \<le> ?k"
    moreover have "length p \<le> length t" using p prefix_length_le by blast
    ultimately have "prefix (take (Suc ?k) t) p" and "?k < length t"
      using p prefix_of_take [of p t] take_is_prefix [of "Suc ?k" p]
      by (auto simp: min_def dest: arg_cong [where f = "take (Suc ?k)"] split: if_splits)
    then show False using char_offset_spec(3) [of t n] jlen_prefix_mono p by fastforce
  qed
  then show "prefix p (jprefix t n)"
    using p prefix_of_take [of p t] by (auto simp: jprefix_take take_is_prefix prefix_def)
qed

theorem jprefix_longest_witness:
  "jprefix [97, 0x1F600, 98] 2 = [97] \<and> prefix [97] (jprefix [97, 0x1F600, 98] 2)"
proof -
  have "jlen [97::nat] \<le> 2" by (simp add: len_utf16_def)
  then show ?thesis using jprefix_longest [of "[97, 0x1F600, 98]" 2]
    by (simp add: jprefix_take char_offset_def len_utf16_def)
qed

text \<open>
  A normalised label is a slug, and normalising a slug again changes nothing wherever
  lower-casing leaves it alone, as it does for every text of lower-case letters, digits and
  separators: normalisation is idempotent and its range is exactly what \<^verbatim>\<open>Slug::matches\<close> accepts.
\<close>

theorem slug_of_idempotent:
  assumes lower: "\<And>t. slug_matches t \<Longrightarrow> lowered u t = t"
  shows "((\<exists>raw. slug_of u raw = Inr s) \<longleftrightarrow> slug_matches s)
    \<and> (slug_of u raw = Inr s \<longrightarrow> slug_of u (Some s) = Inr s)"
  using slug_of_matches slug_of_id [OF _ lower] by blast

lemma ascii_slug_lowered: "slug_matches t \<Longrightarrow> lowered ascii_case t = t"
  by (auto simp: slug_matches_iff list_all_iff ascii_case_def ascii_lower_def is_label_char_def is_separator_def
      intro!: map_idI)

theorem slug_of_idempotent_witness:
  "slug_of ascii_case (Some (lit '' My  label! '')) = Inr (lit ''my-label'')
     \<and> slug_of ascii_case (Some (lit ''my-label'')) = Inr (lit ''my-label'')"
proof -
  have run: "slug_of ascii_case (Some (lit '' My  label! '')) = Inr (lit ''my-label'')"
    by (simp add: run_defs)
  then show ?thesis
    using slug_of_idempotent [of ascii_case "lit ''my-label''" "Some (lit '' My  label! '')"] ascii_slug_lowered by blast
qed

text \<open>The search reads as the least position the needle starts at.\<close>

lemma find_from_Some:
  "find_from needle i t = Some k \<longleftrightarrow>
     (\<exists>j \<le> length t. k = i + j \<and> prefix needle (drop j t) \<and> (\<forall>l < j. \<not> prefix needle (drop l t)))"
proof (induction needle i t rule: find_from.induct)
  case (2 needle i c cs)
  show ?case
  proof (cases "prefix needle (c # cs)")
    case True
    then show ?thesis by (auto intro: exI [of _ 0]) (metis bot_nat_0.not_eq_extremum drop0)
  next
    case False
    have less: "(\<forall>l < Suc j. \<not> prefix needle (drop l (c # cs))) \<longleftrightarrow> (\<forall>l < j. \<not> prefix needle (drop l cs))" for j
      using False by (auto simp: less_Suc_eq_0_disj)
    have "(\<exists>j \<le> length (c # cs). k = i + j \<and> prefix needle (drop j (c # cs)) \<and> (\<forall>l < j. \<not> prefix needle (drop l (c # cs))))
        \<longleftrightarrow> (\<exists>j \<le> length cs. k = i + Suc j \<and> prefix needle (drop j cs) \<and> (\<forall>l < j. \<not> prefix needle (drop l cs)))"
    proof
      assume "\<exists>j \<le> length (c # cs). k = i + j \<and> prefix needle (drop j (c # cs)) \<and> (\<forall>l < j. \<not> prefix needle (drop l (c # cs)))"
      then obtain j where j: "j \<le> length (c # cs)" "k = i + j" "prefix needle (drop j (c # cs))"
        "\<forall>l < j. \<not> prefix needle (drop l (c # cs))" by blast
      then obtain m where "j = Suc m" using False by (cases j) auto
      then show "\<exists>j \<le> length cs. k = i + Suc j \<and> prefix needle (drop j cs) \<and> (\<forall>l < j. \<not> prefix needle (drop l cs))"
        using j less [of m] by auto
    next
      assume "\<exists>j \<le> length cs. k = i + Suc j \<and> prefix needle (drop j cs) \<and> (\<forall>l < j. \<not> prefix needle (drop l cs))"
      then obtain j where "j \<le> length cs" "k = i + Suc j" "prefix needle (drop j cs)" "\<forall>l < j. \<not> prefix needle (drop l cs)"
        by blast
      then show "\<exists>j \<le> length (c # cs). k = i + j \<and> prefix needle (drop j (c # cs)) \<and> (\<forall>l < j. \<not> prefix needle (drop l (c # cs)))"
        using less [of j] by (intro exI [of _ "Suc j"]) auto
    qed
    then show ?thesis using False 2 by simp
  qed
qed auto

text \<open>
  The index of a passage is the UTF-16 index of its first occurrence; there is no index
  exactly when the passage does not occur.
\<close>

theorem index_of_first:
  "(index_of t needle = Some k \<longleftrightarrow>
      (\<exists>j \<le> length t. k = jlen (take j t) \<and> prefix needle (drop j t) \<and> \<not> (\<exists>l < j. prefix needle (drop l t))))
   \<and> (index_of t needle = None \<longleftrightarrow> \<not> sublist needle t)"
proof
  show "index_of t needle = Some k \<longleftrightarrow>
      (\<exists>j \<le> length t. k = jlen (take j t) \<and> prefix needle (drop j t) \<and> \<not> (\<exists>l < j. prefix needle (drop l t)))"
    using find_from_Some [of needle 0 t] by (auto simp: index_of_def)
  have "find_from needle 0 t \<noteq> None" if "prefix needle (drop j t)" "j \<le> length t" for j
  proof -
    define l where "l = (LEAST l. prefix needle (drop l t))"
    have "prefix needle (drop l t)" "\<forall>m < l. \<not> prefix needle (drop m t)" "l \<le> j"
      using LeastI [of "\<lambda>l. prefix needle (drop l t)" j] that not_less_Least Least_le [of "\<lambda>l. prefix needle (drop l t)" j]
      by (auto simp: l_def)
    then show ?thesis using find_from_Some [of needle 0 t l] that by auto
  qed
  moreover have "sublist needle t \<longleftrightarrow> (\<exists>j \<le> length t. prefix needle (drop j t))"
  proof
    assume "sublist needle t"
    then obtain a b where "t = a @ needle @ b" by (auto simp: sublist_def)
    then show "\<exists>j \<le> length t. prefix needle (drop j t)" by (intro exI [of _ "length a"]) auto
  next
    assume "\<exists>j \<le> length t. prefix needle (drop j t)"
    then obtain j b where "drop j t = needle @ b" by (auto simp: prefix_def)
    then have "t = take j t @ needle @ b" by (metis append_take_drop_id)
    then show "sublist needle t" by (auto simp: sublist_def)
  qed
  ultimately show "index_of t needle = None \<longleftrightarrow> \<not> sublist needle t"
    using find_from_Some [of needle 0 t] by (cases "find_from needle 0 t") (auto simp: index_of_def)
qed

end
