(* ===== verification/Component_References.thy ===== *)
theory Component_References
  imports Text_Split Text_Properties
begin

section \<open>References in the text a session reads\<close>

text \<open>
  \<^verbatim>\<open>rekall-core/src/component/model/component_references.rs\<close>: how \<^verbatim>\<open>[[Name]]\<close>, \<^verbatim>\<open>[[connection:label]]\<close> and
  \<^verbatim>\<open>[[task:label]]\<close> are expanded outside code spans and fenced blocks. The source walks byte offsets; here the rest of
  the line is handed on instead. What \<^verbatim>\<open>replace\<close> remembers between calls is a state \<open>'s\<close> passed along: the
  ids of the components already described, or the labels found so far.
\<close>

subsection \<open>What is looked up\<close>

record project_component_view =
  cv_id :: id
  cv_name :: str
  cv_folder :: str
  cv_description :: str

record connection_view =
  nv_label :: str
  nv_title :: str

record task_reference_view =
  rv_label :: str
  rv_title :: str

definition COMPONENT_REFERENCE_MAX :: nat where
  "COMPONENT_REFERENCE_MAX = 1000"

definition CONNECTION_REFERENCE_PREFIX :: str where
  "CONNECTION_REFERENCE_PREFIX = lit ''connection:''"

definition TASK_REFERENCE_PREFIX :: str where
  "TASK_REFERENCE_PREFIX = lit ''task:''"

record component_references =
  cr_components :: "project_component_view list option"
  cr_connections :: "connection_view list"
  cr_tasks :: "task_reference_view list"
  cr_described :: "id set"

subsection \<open>Code and references in a line\<close>

text \<open>A line that opens or closes a fenced block: its marker and how many of them.\<close>

record fence =
  fe_marker :: uchar
  fe_length :: nat

definition fence_opening :: "str \<Rightarrow> fence option" where
  "fence_opening line = (let trimmed = dropWhile (\<lambda>c. c = 32) line in case trimmed of
       [] \<Rightarrow> None
     | marker # _ \<Rightarrow>
         if marker \<notin> {96, 126} then None
         else let n = length (takeWhile (\<lambda>c. c = marker) trimmed)
              in if 3 \<le> n \<and> length line - length trimmed < 4 then Some \<lparr>fe_marker = marker, fe_length = n\<rparr> else None)"

definition fence_closes :: "fence \<Rightarrow> fence \<Rightarrow> bool" where
  "fence_closes closing opened = (fe_marker closing = fe_marker opened \<and> fe_length opened \<le> fe_length closing)"

text \<open>The name of the reference the text starts with, and how many characters it takes.\<close>

definition reference_at :: "str \<Rightarrow> (str \<times> nat) option" where
  "reference_at t = (case strip_prefix [91, 91] t of
       None \<Rightarrow> None
     | Some rest \<Rightarrow> (case find_from [93, 93] 0 rest of
         None \<Rightarrow> None
       | Some close \<Rightarrow>
           let name = take close rest
           in if \<not> is_blank name \<and> \<not> prefix [91] name then Some (name, 2 + close + 2) else None))"

lemma after_run_shorter:
  assumes "96 \<in> set t"
  shows "length (dropWhile (\<lambda>c. c \<noteq> 96) t) - length (takeWhile (\<lambda>c. c = 96) (dropWhile (\<lambda>c. c \<noteq> 96) t)) < length t"
proof -
  let ?found = "dropWhile (\<lambda>c. c \<noteq> 96) t"
  have found: "?found \<noteq> []" using assms by auto
  have "hd ?found = 96" using hd_dropWhile [OF found] by simp
  then have "0 < length (takeWhile (\<lambda>c. c = 96) ?found)" using found by (cases ?found) auto
  moreover have "length ?found \<le> length t" "0 < length ?found" using found by (simp_all add: length_dropWhile_le)
  ultimately show ?thesis by linarith
qed

text \<open>How far the run of backticks that closes a span opened by a run of that length reaches.\<close>

function closing_run :: "nat \<Rightarrow> str \<Rightarrow> nat option" where
  "closing_run run t = (let found = dropWhile (\<lambda>c. c \<noteq> 96) t; before = length t - length found;
       closing = length (takeWhile (\<lambda>c. c = 96) found)
     in if found = [] then None
        else if closing = run then Some (before + closing)
        else map_option (\<lambda>n. before + closing + n) (closing_run run (drop closing found)))"
  by pat_completeness auto
termination
  by (relation "measure (\<lambda>(run, t). length t)") (auto simp: after_run_shorter)

declare closing_run.simps [simp del]

definition code_span_end :: "str \<Rightarrow> nat" where
  "code_span_end t = (let run = length (takeWhile (\<lambda>c. c = 96) t)
     in case closing_run run (drop run t) of Some n \<Rightarrow> run + n | None \<Rightarrow> run)"

lemma code_span_end_pos: "0 < code_span_end (96 # t)"
  by (simp add: code_span_end_def Let_def split: option.split)

lemma reference_at_pos: "reference_at t = Some (name, n) \<Longrightarrow> 0 < n"
  by (auto simp: reference_at_def Let_def split: option.splits if_splits)

text \<open>Plain text up to the next backtick or bracket, then the span, the reference or the bracket.\<close>

function (sequential) rewrite_line :: "('s \<Rightarrow> str \<Rightarrow> str \<times> 's) \<Rightarrow> 's \<Rightarrow> str \<Rightarrow> str \<times> 's" where
  "rewrite_line replace st [] = ([], st)"
| "rewrite_line replace st (c # rest) =
     (if c = 96 then let n = code_span_end (c # rest); (out, st') = rewrite_line replace st (drop n (c # rest))
        in (take n (c # rest) @ out, st')
      else if c = 91 then (case reference_at (c # rest) of
          Some (name, n) \<Rightarrow> let (made, st') = replace st name; (out, st'') = rewrite_line replace st' (drop n (c # rest)) in (made @ out, st'')
        | None \<Rightarrow> let (out, st') = rewrite_line replace st rest in (c # out, st'))
      else let (out, st') = rewrite_line replace st rest in (c # out, st'))"
  by pat_completeness auto
termination
  by (relation "measure (\<lambda>(replace, st, line). length line)") (use reference_at_pos code_span_end_pos in \<open>force+\<close>)

subsection \<open>The whole text\<close>

text \<open>\<^verbatim>\<open>split_inclusive\<close> at line feeds: every line keeps the one that ends it.\<close>

fun inclusive_lines :: "str \<Rightarrow> str list" where
  "inclusive_lines [] = []"
| "inclusive_lines (c # cs) =
     (if c = 10 then [c] # inclusive_lines cs
      else case inclusive_lines cs of [] \<Rightarrow> [[c]] | line # rest \<Rightarrow> (c # line) # rest)"

fun rewrite_lines :: "('s \<Rightarrow> str \<Rightarrow> str \<times> 's) \<Rightarrow> 's \<Rightarrow> fence option \<Rightarrow> str list \<Rightarrow> str \<times> 's" where
  "rewrite_lines replace st opened [] = ([], st)"
| "rewrite_lines replace st opened (line # rest) = (case (opened, fence_opening line) of
       (None, Some opening) \<Rightarrow>
         let (out, st') = rewrite_lines replace st (Some opening) rest in (line @ out, st')
     | (Some fence, marker) \<Rightarrow>
         let still = (if (case marker of None \<Rightarrow> False | Some closing \<Rightarrow> fence_closes closing fence) then None else Some fence);
             (out, st') = rewrite_lines replace st still rest
         in (line @ out, st')
     | (None, None) \<Rightarrow>
         let (made, st') = rewrite_line replace st line; (out, st'') = rewrite_lines replace st' None rest in (made @ out, st''))"

definition rewrite_references :: "('s \<Rightarrow> str \<Rightarrow> str \<times> 's) \<Rightarrow> 's \<Rightarrow> str \<Rightarrow> str \<times> 's" where
  "rewrite_references replace st t =
     (if find_from [91, 91] 0 t = None then (t, st) else rewrite_lines replace st None (inclusive_lines t))"

subsection \<open>Expansions\<close>

definition task_expansion_of :: "unicode_case \<Rightarrow> component_references \<Rightarrow> str \<Rightarrow> str \<Rightarrow> str" where
  "task_expansion_of u refs name label = (let wanted = jlower u (strip label) in
     case List.find (\<lambda>t. jlower u (rv_label t) = wanted) (cr_tasks refs) of
       None \<Rightarrow> lit ''[['' @ name @ lit '']] (task not found in this project)''
     | Some t \<Rightarrow> lit ''**'' @ rv_title t @ lit ''** (task `task:'' @ rv_label t @ lit ''`)'')"

definition connection_expansion_of :: "unicode_case \<Rightarrow> component_references \<Rightarrow> str \<Rightarrow> str \<Rightarrow> str" where
  "connection_expansion_of u refs name label = (let wanted = jlower u (strip label) in
     case List.find (\<lambda>c. jlower u (nv_label c) = wanted) (cr_connections refs) of
       None \<Rightarrow> lit ''[['' @ name @ lit '']] (connection not found in this project)''
     | Some c \<Rightarrow> lit ''**'' @ nv_label c @ lit ''** (connection \"'' @ nv_title c
         @ lit ''\", reached as its line in `<connections>` says)'')"

definition component_expansion_of :: "unicode_case \<Rightarrow> component_references \<Rightarrow> id set \<Rightarrow> str \<Rightarrow> str \<times> id set" where
  "component_expansion_of u refs described name = (let wanted = jlower u (strip name) in
     case Option.bind (cr_components refs) (List.find (\<lambda>c. jlower u (strip (cv_name c)) = wanted)) of
       None \<Rightarrow> (lit ''[['' @ name @ lit '']] (component not found in this project)'', described)
     | Some c \<Rightarrow>
         let place = (if is_blank (cv_folder c) then lit ''component'' else lit ''component, folder `'' @ cv_folder c @ lit ''`'');
             head = lit ''**'' @ cv_name c @ lit ''** ('' @ place @ lit '')''
         in if cv_id c \<in> described \<or> is_blank (cv_description c) then (head, insert (cv_id c) described)
            else (head @ lit '': '' @ jprefix (strip (cv_description c)) COMPONENT_REFERENCE_MAX, insert (cv_id c) described))"

definition expansion_of :: "unicode_case \<Rightarrow> component_references \<Rightarrow> id set \<Rightarrow> str \<Rightarrow> str \<times> id set" where
  "expansion_of u refs described name = (let stripped = strip name in
     case strip_prefix CONNECTION_REFERENCE_PREFIX stripped of
       Some label \<Rightarrow> (connection_expansion_of u refs name label, described)
     | None \<Rightarrow> (case strip_prefix TASK_REFERENCE_PREFIX stripped of
         Some label \<Rightarrow> (task_expansion_of u refs name label, described)
       | None \<Rightarrow> component_expansion_of u refs described name))"

definition expand :: "unicode_case \<Rightarrow> component_references \<Rightarrow> str \<Rightarrow> str \<times> component_references" where
  "expand u refs t = (if cr_components refs = None then (t, refs)
     else let (out, described) = rewrite_references (expansion_of u refs) (cr_described refs) t
          in (out, refs\<lparr>cr_described := described\<rparr>))"

definition referenced_task_labels :: "unicode_case \<Rightarrow> str \<Rightarrow> str list" where
  "referenced_task_labels u t = snd (rewrite_references (\<lambda>labels name.
     ([], case strip_prefix TASK_REFERENCE_PREFIX (strip name) of
        None \<Rightarrow> labels | Some label \<Rightarrow> labels @ [jlower u (strip label)])) [] t)"

subsection \<open>What rewriting leaves alone\<close>

lemma concat_inclusive_lines [simp]: "concat (inclusive_lines t) = t"
proof (induction t)
  case (Cons c cs)
  then show ?case by (cases "inclusive_lines cs") auto
qed simp

lemma reference_at_take:
  assumes "reference_at t = Some (name, n)"
  shows "take n t = [91, 91] @ name @ [93, 93]"
proof -
  obtain rest close where t: "t = [91, 91] @ rest" and close: "find_from [93, 93] 0 rest = Some close"
    and name: "name = take close rest" "n = 2 + close + 2"
    using assms by (auto simp: reference_at_def strip_prefix_def prefix_def Let_def split: option.splits if_splits)
  have "prefix [93, 93] (drop close rest)" using close by (auto simp: find_from_Some)
  then have "take 2 (drop close rest) = [93, 93]" by (auto simp: prefix_def)
  moreover have "take (close + 2) rest = take close rest @ take 2 (drop close rest)" by (rule take_add)
  ultimately show ?thesis by (simp add: t name)
qed

lemma rewrite_line_same:
  assumes "\<And>st name. fst (replace st name) = [91, 91] @ name @ [93, 93]"
  shows "fst (rewrite_line replace st line) = line"
proof (induction line arbitrary: st rule: length_induct)
  case (1 line)
  have shorter: "fst (rewrite_line replace st t) = t" if "length t < length line" for st t using 1 that by blast
  show ?case
  proof (cases line)
    case (Cons c rest)
    consider "c = 96" | "c = 91" "reference_at (c # rest) = None"
      | name n where "c = 91" "reference_at (c # rest) = Some (name, n)" | "c \<noteq> 96" "c \<noteq> 91"
      by (cases "reference_at (c # rest)"; cases "c = 96"; cases "c = 91") auto
    then show ?thesis
    proof cases
      case 1
      then show ?thesis
        using shorter [of "drop (code_span_end (c # rest)) (c # rest)"] code_span_end_pos [of rest] Cons by (simp add: Let_def split_def)
    next
      case 3
      obtain made st' where made: "replace st name = (made, st')" by (cases "replace st name")
      then have "made = take n (c # rest)" using assms [of st name] reference_at_take [OF 3(2)] by simp
      then show ?thesis
        using shorter [of "drop n (c # rest)" st'] reference_at_pos [OF 3(2)] made 3 Cons by (auto split: prod.splits)
    qed (use shorter [of rest] Cons in \<open>simp_all add: split_def\<close>)
  qed simp
qed

lemma rewrite_lines_same:
  assumes "\<And>st name. fst (replace st name) = [91, 91] @ name @ [93, 93]"
  shows "fst (rewrite_lines replace st opened lines) = concat lines"
  using assms
proof (induction lines arbitrary: st opened)
  case (Cons line rest)
  then show ?case using rewrite_line_same [of replace] by (auto split: option.splits prod.splits) (metis fst_conv)+
qed simp

lemma rewrite_lines_fenced:
  assumes "\<forall>line \<in> set lines. case fence_opening line of None \<Rightarrow> True | Some closing \<Rightarrow> \<not> fence_closes closing fence"
  shows "rewrite_lines replace st (Some fence) lines = (concat lines, st)"
  using assms by (induction lines) (auto split: option.splits)



end
